(* ===== verification/Prelude.thy ===== *)
theory Prelude
  imports Main "HOL-Library.Word"
begin

text \<open>
  Shared vocabulary of the development: Go's \<open>error\<close> values with \<open>errors.Is\<close>
  wrapping, \<open>time.Time\<close> and \<open>time.Duration\<close>, the environment a handler reads
  (the clock and the uuid generator), and the generic facts on lists and maps that
  the components share.
\<close>

section \<open>Lemma collections\<close>

named_theorems handler_defs
  "definitions of service handlers, unfolded when a handler is evaluated"
named_theorems frame
  "what an operation leaves unchanged"

section \<open>Errors\<close>

text \<open>
  The sentinel errors of \<open>internal/core/domain/server_errors.go\<close> and
  \<open>client_errors.go\<close>, an \<open>*APIError\<close> (code and message), a plain
  \<open>errors.New\<close>/\<open>fmt.Errorf\<close> message, and \<open>fmt.Errorf\<close> with a \<open>%w\<close>
  verb: the text before the wrapped error, the error, and the text after it.
\<close>

datatype go_error =
    ErrWorkflowNotFound
  | ErrWorkflowInactive
  | ErrInvalidWorkflow
  | ErrClientNotFound
  | ErrRunNotFound
  | ErrInvalidFilter
  | ErrUnknownField
  | ErrTypeMismatch
  | ErrInvalidOperator
  | ErrBanNotFound
  | ErrPermanentBan
  | ErrInvalidRequest
  | ErrInvalidPolicy
  | ErrCircuitStateNotFound
  | ErrMissingRequiredField
  | ErrInnerClientNotFound
  | ErrInvalidActivity
  | ErrCrippledClient
  | ErrStateConflict
  | ErrAPI string string
  | ErrMsg string
  | ErrWrap string go_error string

fun error_text :: "go_error \<Rightarrow> string" where
  "error_text ErrWorkflowNotFound = ''workflow not found''"
| "error_text ErrWorkflowInactive = ''workflow is inactive''"
| "error_text ErrInvalidWorkflow = ''invalid workflow''"
| "error_text ErrClientNotFound = ''client not found''"
| "error_text ErrRunNotFound = ''run not found''"
| "error_text ErrInvalidFilter = ''invalid filter expression''"
| "error_text ErrUnknownField = ''unknown field''"
| "error_text ErrTypeMismatch = ''type mismatch''"
| "error_text ErrInvalidOperator = ''invalid operator''"
| "error_text ErrBanNotFound = ''ban not found''"
| "error_text ErrPermanentBan = ''cannot unban a permanent ban''"
| "error_text ErrInvalidRequest = ''invalid request''"
| "error_text ErrInvalidPolicy = ''invalid policy''"
| "error_text ErrCircuitStateNotFound = ''circuit state not found''"
| "error_text ErrMissingRequiredField = ''missing required field''"
| "error_text ErrInnerClientNotFound = ''inner client not found''"
| "error_text ErrInvalidActivity = ''invalid activity type''"
| "error_text ErrCrippledClient = ''client is crippled''"
| "error_text ErrStateConflict = ''state conflict''"
| "error_text (ErrAPI code message) = message"
| "error_text (ErrMsg m) = m"
| "error_text (ErrWrap pre e post) = pre @ error_text e @ post"

text \<open>\<open>errors.Is\<close>: the error itself or one it wraps.\<close>

fun error_is :: "go_error \<Rightarrow> go_error \<Rightarrow> bool" where
  "error_is (ErrWrap pre e post) t = (ErrWrap pre e post = t \<or> error_is e t)"
| "error_is e t = (e = t)"

text \<open>\<open>errors.As\<close> with an \<open>*APIError\<close> target.\<close>

fun error_as_api :: "go_error \<Rightarrow> (string \<times> string) option" where
  "error_as_api (ErrAPI code message) = Some (code, message)"
| "error_as_api (ErrWrap pre e post) = error_as_api e"
| "error_as_api _ = None"

text \<open>A call returns or panics (an index out of range, a nil pointer).\<close>

datatype 'a outcome = Ret 'a | Panic string

fun bind_outcome :: "'a outcome \<Rightarrow> ('a \<Rightarrow> 'b outcome) \<Rightarrow> 'b outcome" where
  "bind_outcome (Ret a) f = f a"
| "bind_outcome (Panic m) f = Panic m"

definition panics :: "'a outcome \<Rightarrow> bool" where
  "panics r \<longleftrightarrow> (case r of Ret _ \<Rightarrow> False | Panic _ \<Rightarrow> True)"

lemma panics_simps [simp]: "\<not> panics (Ret a)" "panics (Panic m)"
  by (simp_all add: panics_def)

lemma bind_outcome_Ret_iff:
  "bind_outcome r f = Ret b \<longleftrightarrow> (\<exists>a. r = Ret a \<and> f a = Ret b)"
  by (cases r) auto

text \<open>\<open>xs[i]\<close> on a slice.\<close>

definition slice_at :: "'a list \<Rightarrow> int \<Rightarrow> 'a outcome" where
  "slice_at xs i = (if 0 \<le> i \<and> i < int (length xs) then Ret (xs ! nat i)
     else Panic ''index out of range'')"

section \<open>Time\<close>

text \<open>
  \<open>time.Time\<close> is a number of nanoseconds since Go's zero time, which is \<open>0\<close>;
  \<open>time.Duration\<close> is an \<open>int64\<close> of nanoseconds, a \<open>64 word\<close> read with
  \<open>sint\<close>, whose multiplication wraps as Go's does.
\<close>

type_synonym time = int
type_synonym int64 = "64 word"
type_synonym duration = int64

definition IsZero :: "time \<Rightarrow> bool" where
  "IsZero t \<longleftrightarrow> t = 0"

definition max_int64 :: int where
  "max_int64 = 9223372036854775807"

definition min_int64 :: int where
  "min_int64 = -9223372036854775808"

definition Nanosecond :: duration where "Nanosecond = 1"
definition Millisecond :: duration where "Millisecond = 1000000"
definition Second :: duration where "Second = 1000000000"
definition Minute :: duration where "Minute = 60000000000"

text \<open>\<open>Time.Sub\<close> saturates at the ends of the \<open>int64\<close> range.\<close>

definition Time_Sub :: "time \<Rightarrow> time \<Rightarrow> duration" where
  "Time_Sub t u = (let d = t - u in
     if max_int64 < d then word_of_int max_int64
     else if d < min_int64 then word_of_int min_int64
     else word_of_int d)"

lemma sint_word_of_int64:
  assumes "min_int64 \<le> n" and "n \<le> max_int64"
  shows "sint (word_of_int n :: int64) = n"
proof -
  have "signed_take_bit 63 n = n"
    using assms by (intro signed_take_bit_int_eq_self) (simp_all add: min_int64_def max_int64_def)
  then show ?thesis by (simp add: sint_sbintrunc')
qed

lemma sint_int64_bounds: "min_int64 \<le> sint (w :: int64)" "sint (w :: int64) \<le> max_int64"
  using sint_ge [of w] sint_lt [of w] by (simp_all add: min_int64_def max_int64_def)

lemma sint_Time_Sub: "sint (Time_Sub t u) = max min_int64 (min max_int64 (t - u))"
proof -
  consider "max_int64 < t - u" | "t - u < min_int64" | "min_int64 \<le> t - u" "t - u \<le> max_int64"
    by linarith
  then show ?thesis
  proof cases
    case 3
    then have "Time_Sub t u = word_of_int (t - u)"
      by (simp add: Time_Sub_def Let_def)
    with 3 show ?thesis by (simp only: sint_word_of_int64)
  qed (simp_all add: Time_Sub_def Let_def sint_word_of_int64 min_int64_def max_int64_def)
qed

text \<open>A millisecond count up to \<open>9223372036854\<close> converts without wrapping.\<close>

lemma sint_millis:
  assumes "0 \<le> sint ms" and "sint ms \<le> 9223372036854"
  shows "sint (ms * Millisecond) = sint ms * 1000000"
proof -
  have "ms * Millisecond = word_of_int (sint ms * 1000000)"
    by (simp add: Millisecond_def)
  then show ?thesis
    using assms by (simp only:) (rule sint_word_of_int64, auto simp: min_int64_def max_int64_def)
qed

section \<open>The environment of a handler\<close>

text \<open>
  A handler reads the wall clock (\<open>time.Now().UTC()\<close>) and draws identifiers from
  \<open>github.com/google/uuid\<close>, which is not part of the repository. Both are passed in:
  \<open>env_now\<close> is the time at which the handler runs (a handler is treated as happening
  at one instant) and \<open>env_uuid E k\<close> is the \<open>k\<close>-th identifier it draws.
\<close>

record env =
  env_now :: time
  env_uuid :: "nat \<Rightarrow> string"

text \<open>The environment of a call made after \<open>k\<close> identifiers have been drawn.\<close>

definition env_skip :: "nat \<Rightarrow> env \<Rightarrow> env" where
  "env_skip k E = E\<lparr>env_uuid := (\<lambda>n. env_uuid E (n + k))\<rparr>"

lemma env_skip_now [simp]: "env_now (env_skip k E) = env_now E"
  by (simp add: env_skip_def)

section \<open>Tables\<close>

text \<open>
  A database handle may refuse an operation. \<open>faults\<close> says which repository methods
  currently fail, and with which error; a healthy database has none.
\<close>

type_synonym faults = "string \<Rightarrow> go_error option"

definition no_faults :: faults where
  "no_faults = (\<lambda>_. None)"

lemma no_faults_apply [simp]: "no_faults op = None"
  by (simp add: no_faults_def)

text \<open>
  \<open>ORDER BY key DESC\<close>. Rows with equal keys keep their table order here; SQLite leaves
  their order open, and no theorem of the development depends on it.
\<close>

definition order_desc :: "('a \<Rightarrow> int) \<Rightarrow> 'a list \<Rightarrow> 'a list" where
  "order_desc key rows = sort_key (\<lambda>r. - key r) rows"

lemma set_order_desc [simp]: "set (order_desc key rows) = set rows"
  by (simp add: order_desc_def)

lemma length_order_desc [simp]: "length (order_desc key rows) = length rows"
  by (simp add: order_desc_def)

lemma sorted_order_desc: "sorted_wrt (\<lambda>a b. key b \<le> key a) (order_desc key rows)"
proof -
  have "sorted (map (\<lambda>r. - key r) (order_desc key rows))"
    by (simp add: order_desc_def)
  then show ?thesis by (simp add: sorted_map)
qed

lemma order_desc_head:
  assumes "order_desc key rows = r # rs" and "x \<in> set rows"
  shows "key x \<le> key r"
proof -
  from assms(2) have "x \<in> set (r # rs)"
    using set_order_desc [of key rows] by (simp only: assms(1))
  moreover have "sorted_wrt (\<lambda>a b. key b \<le> key a) (r # rs)"
    using sorted_order_desc [of key rows] assms(1) by simp
  ultimately show ?thesis by auto
qed

text \<open>\<open>INSERT ... ON CONFLICT(id) DO UPDATE\<close>: replace the row of that key in place, or append.\<close>

fun upsert :: "('a \<Rightarrow> 'k) \<Rightarrow> ('a \<Rightarrow> 'a) \<Rightarrow> 'a \<Rightarrow> 'a list \<Rightarrow> 'a list" where
  "upsert key merge x [] = [x]"
| "upsert key merge x (r # rs) =
     (if key r = key x then merge r # rs else r # upsert key merge x rs)"

definition lookup_row :: "('a \<Rightarrow> 'k) \<Rightarrow> 'k \<Rightarrow> 'a list \<Rightarrow> 'a option" where
  "lookup_row key k rows = find (\<lambda>r. key r = k) rows"

lemma lookup_row_Nil [simp]: "lookup_row key k [] = None"
  by (simp add: lookup_row_def)

lemma lookup_row_Cons [simp]:
  "lookup_row key k (r # rs) = (if key r = k then Some r else lookup_row key k rs)"
  by (simp add: lookup_row_def)

lemma lookup_row_SomeD: "lookup_row key k rows = Some r \<Longrightarrow> r \<in> set rows \<and> key r = k"
  by (induction rows) (auto split: if_splits)

lemma lookup_row_None_iff: "lookup_row key k rows = None \<longleftrightarrow> k \<notin> key ` set rows"
  by (induction rows) auto

lemma lookup_row_distinct:
  "distinct (map key rows) \<Longrightarrow> r \<in> set rows \<Longrightarrow> lookup_row key (key r) rows = Some r"
  by (induction rows) (auto simp: image_iff)

lemma lookup_row_upsert:
  assumes "\<And>r. key r = key x \<Longrightarrow> key (merge r) = key x"
  shows "lookup_row key k (upsert key merge x rows) =
    (if k = key x then Some (case lookup_row key (key x) rows of None \<Rightarrow> x | Some r \<Rightarrow> merge r)
     else lookup_row key k rows)"
  using assms by (induction rows) auto

lemma lookup_row_upsert_replace:
  assumes "\<And>r. key r = key x \<Longrightarrow> merge r = x"
  shows "lookup_row key k (upsert key merge x rows) = (if k = key x then Some x else lookup_row key k rows)"
  using assms by (induction rows) auto

lemma set_map_key_upsert:
  assumes "\<And>r. key r = key x \<Longrightarrow> key (merge r) = key x"
  shows "set (map key (upsert key merge x rows)) = insert (key x) (set (map key rows))"
  using assms by (induction rows) auto

lemma distinct_upsert:
  assumes "\<And>r. key r = key x \<Longrightarrow> key (merge r) = key x"
  shows "distinct (map key rows) \<Longrightarrow> distinct (map key (upsert key merge x rows))"
proof (induction rows)
  case (Cons r rs)
  have "set (map key (upsert key merge x rs)) = insert (key x) (set (map key rs))"
    by (rule set_map_key_upsert) (rule assms)
  with Cons assms [of r] show ?case by auto
qed simp

end
