(* ===== verification/Float64.thy ===== *)
theory Float64
  imports Prelude "HOL-Library.Log_Nat" Complex_Main
begin

text \<open>
  IEEE 754 binary64, the type behind Go's \<open>float64\<close>: a value is NaN, an infinity or a
  finite rational, and an arithmetic operation is the exact rational operation followed
  by rounding to the nearest representable number, ties to even. The two zeros are one
  value here: the code never divides by a float zero and never inspects a sign bit.
  The lemmas are those the health percentages and the numeric filters need: rounding is
  monotone, is the identity on representable numbers (all integers up to \<open>2 ^ 53\<close>) and
  commutes with negation.
\<close>

section \<open>Values and rounding\<close>

datatype float64 = FNaN | FInf bool | FFin rat

definition round_half_even :: "rat \<Rightarrow> int" where
  "round_half_even x = (let f = \<lfloor>x\<rfloor>; d = x - of_int f in
     if d < 1 / 2 then f else if 1 / 2 < d then f + 1 else if even f then f else f + 1)"

text \<open>The binary exponent of a positive rational: \<open>2 powi ilog2 x \<le> x < 2 powi (ilog2 x + 1)\<close>.\<close>

definition ilog2 :: "rat \<Rightarrow> int" where
  "ilog2 x = (let pq = quotient_of x; k = bitlen (fst pq) - bitlen (snd pq)
     in if (2::rat) powi k \<le> x then k else k - 1)"

definition ulp_exp :: "rat \<Rightarrow> int" where
  "ulp_exp x = max (ilog2 \<bar>x\<bar> - 52) (- 1074)"

definition rnd :: "rat \<Rightarrow> rat" where
  "rnd x = (if x = 0 then 0
     else of_int (round_half_even (x / 2 powi ulp_exp x)) * 2 powi ulp_exp x)"

definition max_float64 :: rat where
  "max_float64 = (2 ^ 53 - 1) * 2 ^ 971"

definition to_f64 :: "rat \<Rightarrow> float64" where
  "to_f64 x = (let r = rnd x in
     if max_float64 < r then FInf False else if r < - max_float64 then FInf True else FFin r)"

section \<open>Arithmetic and comparison\<close>

fun fneg :: "float64 \<Rightarrow> float64" where
  "fneg FNaN = FNaN"
| "fneg (FInf s) = FInf (\<not> s)"
| "fneg (FFin x) = FFin (- x)"

fun fadd :: "float64 \<Rightarrow> float64 \<Rightarrow> float64" where
  "fadd (FFin x) (FFin y) = to_f64 (x + y)"
| "fadd (FInf s) (FInf t) = (if s = t then FInf s else FNaN)"
| "fadd (FInf s) (FFin y) = FInf s"
| "fadd (FFin x) (FInf t) = FInf t"
| "fadd _ _ = FNaN"

definition fsub :: "float64 \<Rightarrow> float64 \<Rightarrow> float64" where
  "fsub a b = fadd a (fneg b)"

fun fmul :: "float64 \<Rightarrow> float64 \<Rightarrow> float64" where
  "fmul (FFin x) (FFin y) = to_f64 (x * y)"
| "fmul (FInf s) (FInf t) = FInf (s \<noteq> t)"
| "fmul (FInf s) (FFin y) = (if y = 0 then FNaN else FInf (s \<noteq> (y < 0)))"
| "fmul (FFin x) (FInf t) = (if x = 0 then FNaN else FInf (t \<noteq> (x < 0)))"
| "fmul _ _ = FNaN"

fun fdiv :: "float64 \<Rightarrow> float64 \<Rightarrow> float64" where
  "fdiv (FFin x) (FFin y) =
     (if y \<noteq> 0 then to_f64 (x / y) else if x = 0 then FNaN else FInf (x < 0))"
| "fdiv (FInf s) (FFin y) = FInf (s \<noteq> (y < 0))"
| "fdiv (FFin x) (FInf t) = FFin 0"
| "fdiv _ _ = FNaN"

fun flt :: "float64 \<Rightarrow> float64 \<Rightarrow> bool" where
  "flt (FFin x) (FFin y) = (x < y)"
| "flt (FInf s) (FInf t) = (s \<and> \<not> t)"
| "flt (FInf s) (FFin y) = s"
| "flt (FFin x) (FInf t) = (\<not> t)"
| "flt _ _ = False"

fun feq :: "float64 \<Rightarrow> float64 \<Rightarrow> bool" where
  "feq (FFin x) (FFin y) = (x = y)"
| "feq (FInf s) (FInf t) = (s = t)"
| "feq _ _ = False"

definition fle :: "float64 \<Rightarrow> float64 \<Rightarrow> bool" where
  "fle a b = (flt a b \<or> feq a b)"

text \<open>The conversion \<open>float64(n)\<close> of an integer, and an untyped decimal constant.\<close>

definition f64_of_int :: "int \<Rightarrow> float64" where
  "f64_of_int n = to_f64 (of_int n)"

section \<open>Rounding to an integer\<close>

lemma round_half_even_bounds:
  "of_int (round_half_even x) \<le> x + 1 / 2" "x - 1 / 2 \<le> of_int (round_half_even x)"
  unfolding round_half_even_def Let_def
  using of_int_floor_le [of x] floor_correct [of x]
  by (auto simp: field_simps simp del: of_int_floor_le floor_correct)

lemma round_half_even_of_int [simp]: "round_half_even (of_int n) = n"
  by (simp add: round_half_even_def)

lemma round_half_even_0 [simp]: "round_half_even 0 = 0"
  by (simp add: round_half_even_def)

lemma round_half_even_mono:
  assumes "x \<le> y"
  shows "round_half_even x \<le> round_half_even y"
proof (cases "\<lfloor>x\<rfloor> = \<lfloor>y\<rfloor>")
  case True
  with assms show ?thesis by (auto simp: round_half_even_def Let_def)
next
  case False
  with assms have "\<lfloor>x\<rfloor> + 1 \<le> \<lfloor>y\<rfloor>"
    using floor_mono [OF assms] by linarith
  moreover have "round_half_even x \<le> \<lfloor>x\<rfloor> + 1" and "\<lfloor>y\<rfloor> \<le> round_half_even y"
    by (simp_all add: round_half_even_def Let_def)
  ultimately show ?thesis by linarith
qed

lemma round_half_even_minus: "round_half_even (- x) = - round_half_even x"
proof (cases "x = of_int \<lfloor>x\<rfloor>")
  case True
  then have "- x = of_int (- \<lfloor>x\<rfloor>)" by simp
  then have "round_half_even (- x) = - \<lfloor>x\<rfloor>" by (simp only: round_half_even_of_int)
  moreover have "round_half_even x = \<lfloor>x\<rfloor>"
    by (subst True) (simp only: round_half_even_of_int)
  ultimately show ?thesis by simp
next
  case False
  define f d where "f = \<lfloor>x\<rfloor>" and "d = x - of_int f"
  have x: "x = of_int f + d" and d: "0 < d" "d < 1"
    using False of_int_floor_le [of x] floor_correct [of x]
    by (simp_all add: f_def d_def less_le)
  have "\<lfloor>- x\<rfloor> = - f - 1"
    using d by (simp add: floor_eq_iff x)
  then show ?thesis
    unfolding round_half_even_def Let_def f_def [symmetric]
    using d by (auto simp: x)
qed

section \<open>The binary exponent\<close>

lemma two_powi_pos [simp]: "0 < (2::rat) powi k"
  by simp

lemma bitlen_pos_bounds:
  assumes "0 < (p::int)"
  shows "(2::rat) powi (bitlen p - 1) \<le> of_int p" "(of_int p :: rat) < 2 powi bitlen p"
proof -
  from assms have "2 ^ nat (bitlen p - 1) \<le> p \<and> p < 2 ^ nat (bitlen p)"
    by (rule bitlen_bounds)
  then have "(of_int (2 ^ nat (bitlen p - 1)) :: rat) \<le> of_int p"
    and "(of_int p :: rat) < of_int (2 ^ nat (bitlen p))"
    by (simp_all only: of_int_le_iff of_int_less_iff)
  moreover have "1 \<le> bitlen p"
    using assms bitlen_ge_iff_power [of 1 p] by simp
  ultimately show "(2::rat) powi (bitlen p - 1) \<le> of_int p" "(of_int p :: rat) < 2 powi bitlen p"
    by (simp_all add: power_int_def)
qed

lemma ilog2_bounds:
  assumes "0 < x"
  shows "(2::rat) powi ilog2 x \<le> x" "x < 2 powi (ilog2 x + 1)"
proof -
  obtain p q where pq: "quotient_of x = (p, q)" by fastforce
  then have q: "0 < q" and x: "x = of_int p / of_int q"
    by (simp_all add: quotient_of_denom_pos quotient_of_div)
  with assms have p: "0 < p" by (simp add: zero_less_divide_iff)
  define k where "k = bitlen p - bitlen q"
  note bp = bitlen_pos_bounds [OF p] and bq = bitlen_pos_bounds [OF q]
  have "(2::rat) powi (k - 1) = 2 powi (bitlen p - 1) / 2 powi bitlen q"
    by (simp add: k_def power_int_diff)
  also have "\<dots> \<le> of_int p / of_int q"
    using bp bq p q by (intro frac_le) auto
  finally have lo: "(2::rat) powi (k - 1) \<le> x" by (simp add: x)
  have "of_int p / of_int q < 2 powi bitlen p / (2::rat) powi (bitlen q - 1)"
    using bp bq p q by (intro frac_less) auto
  also have "\<dots> = 2 powi (k + 1)"
    by (simp add: k_def power_int_diff power_int_add)
  finally have hi: "x < (2::rat) powi (k + 1)" by (simp add: x)
  have il: "ilog2 x = (if (2::rat) powi k \<le> x then k else k - 1)"
    by (simp add: ilog2_def Let_def pq k_def)
  show "(2::rat) powi ilog2 x \<le> x" "x < 2 powi (ilog2 x + 1)"
    using lo hi by (auto simp: il)
qed

lemma two_powi_less_iff: "(2::rat) powi a < 2 powi b \<longleftrightarrow> a < b"
  using power_int_strict_increasing [of a b "2::rat"] power_int_increasing [of b a "2::rat"]
  by (cases "a < b") auto

lemma two_powi_le_iff: "(2::rat) powi a \<le> 2 powi b \<longleftrightarrow> a \<le> b"
  using two_powi_less_iff [of b a] by linarith

lemma ilog2_mono:
  assumes "0 < x" and "x \<le> y"
  shows "ilog2 x \<le> ilog2 y"
proof -
  have "(2::rat) powi ilog2 x \<le> x" by (rule ilog2_bounds [OF assms(1)])
  also have "\<dots> < 2 powi (ilog2 y + 1)"
    using assms ilog2_bounds(2) [of y] by simp
  finally show ?thesis by (simp add: two_powi_less_iff)
qed

lemma ilog2_le:
  assumes "0 < x" and "x < (2::rat) powi (k + 1)"
  shows "ilog2 x \<le> k"
proof -
  have "(2::rat) powi ilog2 x < 2 powi (k + 1)"
    using ilog2_bounds(1) [OF assms(1)] assms(2) by simp
  then show ?thesis by (simp add: two_powi_less_iff)
qed

section \<open>Rounding\<close>

lemma rnd_zero [simp]: "rnd 0 = 0"
  by (simp add: rnd_def)

lemma rnd_minus: "rnd (- x) = - rnd x"
  by (simp add: rnd_def ulp_exp_def round_half_even_minus)

lemma rnd_nonneg: "0 \<le> x \<Longrightarrow> 0 \<le> rnd x"
proof -
  assume "0 \<le> x"
  then have "0 \<le> x / 2 powi ulp_exp x" by simp
  then have "0 \<le> round_half_even (x / 2 powi ulp_exp x)"
    using round_half_even_mono [of 0 "x / 2 powi ulp_exp x"] by simp
  then show ?thesis by (simp add: rnd_def)
qed

text \<open>Rounding within one binade, and across an integer multiple of the spacing.\<close>

lemma rnd_le_grid:
  assumes "0 < x" and "x \<le> of_int n * 2 powi ulp_exp x"
  shows "rnd x \<le> of_int n * 2 powi ulp_exp x"
proof -
  have "x / 2 powi ulp_exp x \<le> of_int n"
    using assms by (simp add: divide_le_eq)
  then have "round_half_even (x / 2 powi ulp_exp x) \<le> n"
    using round_half_even_mono by (metis round_half_even_of_int)
  with assms(1) show ?thesis by (simp add: rnd_def)
qed

lemma rnd_ge_grid:
  assumes "0 < x" and "of_int n * 2 powi ulp_exp x \<le> x"
  shows "of_int n * 2 powi ulp_exp x \<le> rnd x"
proof -
  have "of_int n \<le> x / 2 powi ulp_exp x"
    using assms by (simp add: le_divide_eq)
  then have "n \<le> round_half_even (x / 2 powi ulp_exp x)"
    using round_half_even_mono by (metis round_half_even_of_int)
  with assms(1) show ?thesis by (simp add: rnd_def)
qed

lemma powi_grid:
  assumes "ulp_exp x \<le> k"
  shows "\<exists>n. (2::rat) powi k = of_int n * 2 powi ulp_exp x"
proof
  have "(2::rat) powi k = 2 powi (k - ulp_exp x) * 2 powi ulp_exp x"
    by (simp flip: power_int_add)
  then show "(2::rat) powi k = of_int (2 ^ nat (k - ulp_exp x)) * 2 powi ulp_exp x"
    using assms by (simp add: power_int_def)
qed

lemma rnd_mono_pos:
  assumes "0 < x" and "x \<le> y"
  shows "rnd x \<le> rnd y"
proof (cases "ulp_exp x = ulp_exp y")
  case True
  have "x / 2 powi ulp_exp y \<le> y / 2 powi ulp_exp y"
    using assms by (simp add: divide_right_mono)
  then show ?thesis
    using assms True by (simp add: rnd_def round_half_even_mono)
next
  case False
  with assms have il: "ilog2 x < ilog2 y" "ulp_exp y = ilog2 y - 52" "ulp_exp x \<le> ilog2 y"
    using ilog2_mono [OF assms] by (auto simp: ulp_exp_def)
  have "x \<le> 2 powi (ilog2 x + 1)" using ilog2_bounds(2) [OF assms(1)] by simp
  also have "(2::rat) powi (ilog2 x + 1) \<le> 2 powi ilog2 y"
    using il by (simp only: two_powi_le_iff)
  finally have x: "x \<le> 2 powi ilog2 y" .
  obtain n where n: "(2::rat) powi ilog2 y = of_int n * 2 powi ulp_exp x"
    using powi_grid [OF il(3)] by blast
  obtain m where m: "(2::rat) powi ilog2 y = of_int m * 2 powi ulp_exp y"
    using powi_grid [of y "ilog2 y"] il by auto
  have "rnd x \<le> 2 powi ilog2 y"
    unfolding n using rnd_le_grid [OF assms(1)] x by (simp only: n)
  also have "2 powi ilog2 y \<le> rnd y"
    unfolding m using rnd_ge_grid [of y m] ilog2_bounds(1) [of y] assms by (simp add: m)
  finally show ?thesis .
qed

lemma rnd_mono:
  assumes "x \<le> y"
  shows "rnd x \<le> rnd y"
proof -
  consider "0 < x" | "x \<le> 0" "0 \<le> y" | "y < 0" by linarith
  then show ?thesis
  proof cases
    case 1
    then show ?thesis by (rule rnd_mono_pos) (rule assms)
  next
    case 2
    then have "0 \<le> rnd (- x)" and "0 \<le> rnd y" by (simp_all add: rnd_nonneg)
    then show ?thesis by (simp add: rnd_minus)
  next
    case 3
    then have "rnd (- y) \<le> rnd (- x)"
      using assms by (intro rnd_mono_pos) auto
    then show ?thesis by (simp add: rnd_minus)
  qed
qed

text \<open>A representable number is \<open>m * 2 powi e\<close> with a 53-bit mantissa and a normal or
  subnormal exponent; rounding keeps it.\<close>

lemma rnd_representable_pos:
  assumes "0 < m" and "m < 2 ^ 53" and "- 1074 \<le> e"
  shows "rnd (of_int m * 2 powi e) = of_int m * 2 powi e"
proof -
  let ?x = "of_int m * (2::rat) powi e"
  have x: "0 < ?x" using assms by simp
  have "(of_int m :: rat) < of_int (2 ^ 53)" using assms(2) by (simp only: of_int_less_iff)
  then have "?x < 2 powi 53 * 2 powi e" by simp
  then have "?x < 2 powi ((e + 52) + 1)" by (simp add: power_int_add)
  then have "ilog2 ?x \<le> e + 52" by (rule ilog2_le [OF x])
  with assms(3) x have ul: "ulp_exp ?x \<le> e" by (simp add: ulp_exp_def)
  obtain n where "(2::rat) powi e = of_int n * 2 powi ulp_exp ?x"
    using powi_grid [OF ul] by blast
  then have eq: "?x = of_int (m * n) * 2 powi ulp_exp ?x" by simp
  show ?thesis
    using rnd_le_grid [OF x, of "m * n"] rnd_ge_grid [OF x, of "m * n"]
    unfolding eq [symmetric] by (intro antisym) simp_all
qed

lemma rnd_of_int:
  assumes "\<bar>n\<bar> \<le> 2 ^ 53"
  shows "rnd (of_int n) = of_int n"
proof -
  have pos: "rnd (of_int k) = of_int k" if k: "0 < k" "k \<le> 2 ^ 53" for k :: int
  proof (cases "k = 2 ^ 53")
    case True
    have "rnd (of_int 1 * 2 powi 53) = of_int 1 * 2 powi 53"
      by (rule rnd_representable_pos) auto
    with True show ?thesis by simp
  next
    case False
    with k rnd_representable_pos [of k 0] show ?thesis by simp
  qed
  consider "0 < n" | "n = 0" | "0 < - n" by linarith
  then show ?thesis
  proof cases
    case 1
    then show ?thesis using assms by (intro pos) auto
  next
    case 3
    then have "rnd (of_int (- n)) = of_int (- n)" using assms by (intro pos) auto
    then show ?thesis by (simp add: rnd_minus)
  qed simp
qed

lemma rnd_numeral [simp]:
  "numeral k \<le> (2 ^ 53 :: int) \<Longrightarrow> rnd (numeral k) = numeral k"
  using rnd_of_int [of "numeral k"] by simp

lemma rnd_one [simp]: "rnd 1 = 1"
  using rnd_of_int [of 1] by simp

section \<open>Operations whose result stays in range\<close>

lemma to_f64_between:
  assumes "\<bar>a\<bar> \<le> 2 ^ 53" and "\<bar>b\<bar> \<le> 2 ^ 53" and "of_int a \<le> x" and "x \<le> of_int b"
  shows "to_f64 x = FFin (rnd x)" "of_int a \<le> rnd x" "rnd x \<le> of_int b"
proof -
  show lo: "of_int a \<le> rnd x"
    using rnd_mono [OF assms(3)] rnd_of_int [OF assms(1)] by simp
  show hi: "rnd x \<le> of_int b"
    using rnd_mono [OF assms(4)] rnd_of_int [OF assms(2)] by simp
  have "(of_int b :: rat) \<le> of_int (2 ^ 53)" "of_int (- (2 ^ 53)) \<le> (of_int a :: rat)"
    using assms(1,2) by (simp_all only: of_int_le_iff)
  then have "rnd x \<le> max_float64" and "- max_float64 \<le> rnd x"
    using lo hi by (simp_all add: max_float64_def)
  then show "to_f64 x = FFin (rnd x)" by (simp add: to_f64_def Let_def)
qed

lemma f64_of_int_exact:
  assumes "\<bar>n\<bar> \<le> 2 ^ 53"
  shows "f64_of_int n = FFin (of_int n)"
  using to_f64_between(1) [of n n "of_int n"] assms by (simp add: f64_of_int_def rnd_of_int)

end
