(* ===== verification/Go_Values.thy ===== *)
theory Go_Values
  imports Float64 "HOL-Library.Char_ord" "HOL-Library.List_Lexorder"
begin

text \<open>
  Go's dynamic values and the parts of \<open>strconv\<close>, \<open>fmt\<close>, \<open>strings\<close> and
  \<open>unicode\<close> the code uses. \<open>gval\<close> is the \<open>interface{}\<close> the source stores in
  \<open>Params\<close>, \<open>InnerState\<close> and filter conditions, one constructor per dynamic type
  the code distinguishes; a \<open>map[string]interface{}\<close> is an association list whose
  first entry for a key counts. A string is a list of characters below 256: bytes where
  the code looks at bytes, code points (the Latin-1 range) where it looks at runes.
  The code never stores a \<open>float32\<close>; \<open>fmt_v\<close> prints one with binary64's digits.
\<close>

section \<open>Characters\<close>

definition ch :: "char \<Rightarrow> nat" where
  "ch c = of_char c"

definition is_ascii_digit :: "char \<Rightarrow> bool" where
  "is_ascii_digit c \<longleftrightarrow> 48 \<le> ch c \<and> ch c \<le> 57"

text \<open>\<open>unicode.IsSpace\<close>, \<open>IsDigit\<close> and \<open>IsLetter\<close> on code points below 256.\<close>

definition IsSpace :: "char \<Rightarrow> bool" where
  "IsSpace c \<longleftrightarrow> (9 \<le> ch c \<and> ch c \<le> 13) \<or> ch c = 32 \<or> ch c = 133 \<or> ch c = 160"

definition IsDigit :: "char \<Rightarrow> bool" where
  "IsDigit c \<longleftrightarrow> is_ascii_digit c"

definition IsLetter :: "char \<Rightarrow> bool" where
  "IsLetter c \<longleftrightarrow> (65 \<le> ch c \<and> ch c \<le> 90) \<or> (97 \<le> ch c \<and> ch c \<le> 122)
     \<or> ch c = 170 \<or> ch c = 181 \<or> ch c = 186
     \<or> (192 \<le> ch c \<and> ch c \<le> 255 \<and> ch c \<noteq> 215 \<and> ch c \<noteq> 247)"

definition to_upper :: "char \<Rightarrow> char" where
  "to_upper c = (if (97 \<le> ch c \<and> ch c \<le> 122) \<or> (224 \<le> ch c \<and> ch c \<le> 254 \<and> ch c \<noteq> 247)
     then char_of (ch c - 32) else c)"

definition to_lower :: "char \<Rightarrow> char" where
  "to_lower c = (if (65 \<le> ch c \<and> ch c \<le> 90) \<or> (192 \<le> ch c \<and> ch c \<le> 222 \<and> ch c \<noteq> 215)
     then char_of (ch c + 32) else c)"

definition ToUpper :: "string \<Rightarrow> string" where "ToUpper s = map to_upper s"
definition ToLower :: "string \<Rightarrow> string" where "ToLower s = map to_lower s"

definition TrimSpace :: "string \<Rightarrow> string" where
  "TrimSpace s = rev (dropWhile IsSpace (rev (dropWhile IsSpace s)))"

section \<open>Strings\<close>

fun has_prefix :: "string \<Rightarrow> string \<Rightarrow> bool" where
  "has_prefix [] s = True"
| "has_prefix (p # ps) [] = False"
| "has_prefix (p # ps) (c # cs) = (p = c \<and> has_prefix ps cs)"

text \<open>\<open>strings.Contains(s, sub)\<close>.\<close>

fun strings_Contains :: "string \<Rightarrow> string \<Rightarrow> bool" where
  "strings_Contains [] sub = has_prefix sub []"
| "strings_Contains (c # cs) sub = (has_prefix sub (c # cs) \<or> strings_Contains cs sub)"

text \<open>\<open>strings.Split(s, ".")\<close>: never empty, a separator starts a new part.\<close>

fun split_on :: "char \<Rightarrow> string \<Rightarrow> string list" where
  "split_on d [] = [[]]"
| "split_on d (c # cs) = (if c = d then [] # split_on d cs
     else (case split_on d cs of [] \<Rightarrow> [[c]] | p # ps \<Rightarrow> (c # p) # ps))"

fun join_with :: "string \<Rightarrow> string list \<Rightarrow> string" where
  "join_with sep [] = []"
| "join_with sep [s] = s"
| "join_with sep (s # t # ts) = s @ sep @ join_with sep (t # ts)"

lemma split_on_not_Nil [simp]: "split_on d s \<noteq> []"
  by (induction s) (auto split: list.splits)

lemma split_on_no_sep: "d \<notin> set s \<Longrightarrow> split_on d s = [s]"
  by (induction s) auto

lemma split_on_append:
  "d \<notin> set s \<Longrightarrow> split_on d (s @ d # t) = s # split_on d t"
  by (induction s) auto

lemma has_prefix_iff: "has_prefix p s \<longleftrightarrow> (\<exists>t. s = p @ t)"
  by (induction p s rule: has_prefix.induct) auto

lemma strings_Contains_iff: "strings_Contains s sub \<longleftrightarrow> (\<exists>u v. s = u @ sub @ v)"
proof (induction s)
  case Nil
  then show ?case by (auto simp: has_prefix_iff)
next
  case (Cons c cs)
  show ?case
  proof
    assume "strings_Contains (c # cs) sub"
    then consider "has_prefix sub (c # cs)" | "strings_Contains cs sub" by auto
    then show "\<exists>u v. c # cs = u @ sub @ v"
    proof cases
      case 1
      then show ?thesis by (metis append_Nil has_prefix_iff)
    next
      case 2
      with Cons.IH show ?thesis by (metis append_Cons)
    qed
  next
    assume "\<exists>u v. c # cs = u @ sub @ v"
    then obtain u v where uv: "c # cs = u @ sub @ v" by blast
    show "strings_Contains (c # cs) sub"
    proof (cases u)
      case Nil
      with uv have "has_prefix sub (c # cs)" by (simp add: has_prefix_iff)
      then show ?thesis by simp
    next
      case (Cons a u')
      with uv Cons.IH show ?thesis by auto
    qed
  qed
qed

section \<open>Decimal notation\<close>

definition digit_char :: "nat \<Rightarrow> char" where
  "digit_char d = char_of (48 + d)"

fun show_nat :: "nat \<Rightarrow> string" where
  "show_nat n = (if n < 10 then [digit_char n] else show_nat (n div 10) @ [digit_char (n mod 10)])"

declare show_nat.simps [simp del]

definition show_int :: "int \<Rightarrow> string" where
  "show_int i = (if i < 0 then ''-'' @ show_nat (nat (- i)) else show_nat (nat i))"

definition digit_val :: "char \<Rightarrow> nat" where
  "digit_val c = ch c - 48"

definition nat_of_digits :: "string \<Rightarrow> nat" where
  "nat_of_digits s = foldl (\<lambda>n c. 10 * n + digit_val c) 0 s"

text \<open>\<open>strconv.ParseInt(s, 10, 64)\<close>: \<open>None\<close> when the error is not nil.\<close>

definition ParseInt :: "string \<Rightarrow> int64 option" where
  "ParseInt s = (let neg = (s \<noteq> [] \<and> hd s = CHR ''-'');
      ds = (if s \<noteq> [] \<and> (hd s = CHR ''-'' \<or> hd s = CHR ''+'') then tl s else s);
      n = (if neg then - int (nat_of_digits ds) else int (nat_of_digits ds))
    in if ds = [] \<or> \<not> list_all is_ascii_digit ds then None
       else if n < min_int64 \<or> max_int64 < n then None
       else Some (word_of_int n))"

lemma ch_digit_char: "d < 10 \<Longrightarrow> ch (digit_char d) = 48 + d"
  by (simp add: ch_def digit_char_def)

lemma is_ascii_digit_digit_char [simp]: "d < 10 \<Longrightarrow> is_ascii_digit (digit_char d)"
  by (simp add: is_ascii_digit_def ch_digit_char)

lemma digit_val_digit_char [simp]: "d < 10 \<Longrightarrow> digit_val (digit_char d) = d"
  by (simp add: digit_val_def ch_digit_char)

lemma show_nat_digits: "list_all is_ascii_digit (show_nat n)"
proof (induction n rule: show_nat.induct)
  case (1 n)
  then show ?case by (subst show_nat.simps) auto
qed

lemma show_nat_not_Nil [simp]: "show_nat n \<noteq> []"
  by (subst show_nat.simps) auto

lemma nat_of_digits_show_nat [simp]: "nat_of_digits (show_nat n) = n"
proof (induction n rule: show_nat.induct)
  case (1 n)
  then show ?case
    by (subst show_nat.simps) (auto simp: nat_of_digits_def)
qed

lemma hd_show_nat: "is_ascii_digit (hd (show_nat n))"
  using show_nat_digits [of n] by (cases "show_nat n") auto

lemma ParseInt_show_int: "ParseInt (show_int (sint w)) = Some w"
proof -
  have d: "hd (show_nat n) \<noteq> CHR ''-''" "hd (show_nat n) \<noteq> CHR ''+''" for n
    using hd_show_nat [of n] by (auto simp: is_ascii_digit_def ch_def)
  show ?thesis
    using sint_int64_bounds [of w] d
    by (auto simp: ParseInt_def show_int_def Let_def show_nat_digits)
qed

section \<open>\<open>strconv.ParseFloat(s, 64)\<close>\<close>

text \<open>
  \<open>readFloat\<close> of the Go library: an optional sign, decimal or \<open>0x\<close> mantissa digits with at
  most one point, an exponent (mandatory after a hexadecimal mantissa), underscores between
  digits, the whole string consumed. The result is \<open>None\<close> on a syntax or range error.
\<close>

definition is_hex_digit :: "char \<Rightarrow> bool" where
  "is_hex_digit c \<longleftrightarrow> is_ascii_digit c \<or> (97 \<le> ch (to_lower c) \<and> ch (to_lower c) \<le> 102)"

definition hex_val :: "char \<Rightarrow> nat" where
  "hex_val c = (if is_ascii_digit c then digit_val c else ch (to_lower c) - 87)"

text \<open>Mantissa: the digits' value, how many digits follow the point, whether a digit was seen,
  and the rest of the input.\<close>

fun read_mantissa :: "nat \<Rightarrow> bool \<Rightarrow> bool \<Rightarrow> nat \<Rightarrow> nat \<Rightarrow> string \<Rightarrow> nat \<times> nat \<times> bool \<times> string" where
  "read_mantissa base dot seen m fr [] = (m, fr, seen, [])"
| "read_mantissa base dot seen m fr (c # cs) =
     (if c = CHR ''_'' then read_mantissa base dot seen m fr cs
      else if c = CHR ''.'' \<and> \<not> dot then read_mantissa base True seen m fr cs
      else if is_ascii_digit c \<or> (base = 16 \<and> is_hex_digit c)
        then read_mantissa base dot True (base * m + hex_val c) (if dot then Suc fr else fr) cs
      else (m, fr, seen, c # cs))"

definition read_exp_digits :: "string \<Rightarrow> nat" where
  "read_exp_digits s = foldl (\<lambda>e c. if c = CHR ''_'' then e
     else if e < 10000 then 10 * e + digit_val c else e) 0 s"

text \<open>The exponent part: \<open>Some 0\<close> when there is none, \<open>None\<close> when it is malformed.\<close>

definition read_exponent :: "char \<Rightarrow> string \<Rightarrow> int option" where
  "read_exponent e s = (case s of [] \<Rightarrow> Some 0
    | c # cs \<Rightarrow>
        if to_lower c \<noteq> e then None
        else (let neg = (cs \<noteq> [] \<and> hd cs = CHR ''-'');
              ds = (if cs \<noteq> [] \<and> (hd cs = CHR ''-'' \<or> hd cs = CHR ''+'') then tl cs else cs)
          in if ds = [] \<or> \<not> is_ascii_digit (hd ds)
                \<or> \<not> list_all (\<lambda>d. is_ascii_digit d \<or> d = CHR ''_'') ds then None
             else Some (if neg then - int (read_exp_digits ds) else int (read_exp_digits ds))))"

text \<open>\<open>underscoreOK\<close>: an underscore stands only between digits (a base prefix counts as one);
  the states are \<open>0\<close> (nothing or another character seen), \<open>1\<close> (digit) and \<open>2\<close> (underscore).\<close>

fun underscores_ok :: "bool \<Rightarrow> nat \<Rightarrow> string \<Rightarrow> bool" where
  "underscores_ok hex saw [] = (saw \<noteq> 2)"
| "underscores_ok hex saw (c # cs) =
     (if is_ascii_digit c \<or> (hex \<and> is_hex_digit c) then underscores_ok hex 1 cs
      else if c = CHR ''_'' then saw = 1 \<and> underscores_ok hex 2 cs
      else saw \<noteq> 2 \<and> underscores_ok hex 0 cs)"

definition drop_sign :: "string \<Rightarrow> string" where
  "drop_sign s = (if s \<noteq> [] \<and> (hd s = CHR ''-'' \<or> hd s = CHR ''+'') then tl s else s)"

definition float_result :: "bool \<Rightarrow> rat \<Rightarrow> float64 option" where
  "float_result neg x = (case to_f64 (if neg then - x else x) of
     FFin r \<Rightarrow> Some (FFin r) | _ \<Rightarrow> None)"

definition ParseFloat :: "string \<Rightarrow> float64 option" where
  "ParseFloat s = (let neg = (s \<noteq> [] \<and> hd s = CHR ''-''); t = drop_sign s in
     if ToLower t = ''inf'' \<or> ToLower t = ''infinity'' then Some (FInf neg)
     else if ToLower s = ''nan'' then Some FNaN
     else if has_prefix ''0x'' (ToLower t) \<and> 2 < length t then
       (case read_mantissa 16 False False 0 0 (drop 2 t) of (m, fr, seen, rest) \<Rightarrow>
          if \<not> seen \<or> rest = [] \<or> \<not> underscores_ok True 1 (drop 2 t) then None
          else (case read_exponent CHR ''p'' rest of None \<Rightarrow> None
            | Some e \<Rightarrow> float_result neg (of_nat m * 2 powi (e - 4 * int fr))))
     else
       (case read_mantissa 10 False False 0 0 t of (m, fr, seen, rest) \<Rightarrow>
          if \<not> seen \<or> \<not> underscores_ok False 0 t then None
          else (case read_exponent CHR ''e'' rest of None \<Rightarrow> None
            | Some e \<Rightarrow> float_result neg (of_nat m * 10 powi (e - int fr)))))"

section \<open>\<open>fmt\<close> with the \<open>%v\<close> verb\<close>

definition ilog10 :: "rat \<Rightarrow> int" where
  "ilog10 x = (let pq = quotient_of x;
      k = int (length (show_nat (nat (fst pq)))) - int (length (show_nat (nat (snd pq))))
    in if (10::rat) powi k \<le> x then k else k - 1)"

text \<open>The shortest decimal that reads back as \<open>x\<close>: try \<open>n\<close> significant digits, then one more.
  Seventeen always suffice for a binary64.\<close>

fun shortest_digits :: "nat \<Rightarrow> nat \<Rightarrow> rat \<Rightarrow> nat \<times> int" where
  "shortest_digits fuel n x = (let e = ilog10 x; scale = (10::rat) powi (int n - 1 - e);
      lo = \<lfloor>x * scale\<rfloor>;
      ok = (\<lambda>m. to_f64 (of_int m / scale) = FFin x)
    in if fuel = 0 then (nat lo, e - int n + 1)
       else if ok lo \<and> (\<not> ok (lo + 1) \<or> x * scale - of_int lo \<le> 1 / 2) then (nat lo, e - int n + 1)
       else if ok (lo + 1) then (nat (lo + 1), e - int n + 1)
       else shortest_digits (fuel - 1) (Suc n) x)"

declare shortest_digits.simps [simp del]

definition strip_zeros :: "string \<Rightarrow> string" where
  "strip_zeros s = rev (dropWhile (\<lambda>c. c = CHR ''0'') (rev s))"

text \<open>\<open>%e\<close> and \<open>%f\<close> layouts of the digit string \<open>d\<close> whose point stands after \<open>dp\<close> digits.\<close>

definition layout_e :: "string \<Rightarrow> int \<Rightarrow> string" where
  "layout_e d dp = (let x = dp - 1; es = show_nat (nat \<bar>x\<bar>) in
     take 1 d @ (if length d \<le> 1 then [] else ''.'' @ drop 1 d)
       @ ''e'' @ (if x < 0 then ''-'' else ''+'') @ (if length es < 2 then ''0'' @ es else es))"

definition layout_f :: "string \<Rightarrow> int \<Rightarrow> string" where
  "layout_f d dp =
     (if dp \<le> 0 then ''0.'' @ replicate (nat (- dp)) CHR ''0'' @ d
      else if int (length d) \<le> dp then d @ replicate (nat dp - length d) CHR ''0''
      else take (nat dp) d @ ''.'' @ drop (nat dp) d)"

fun fmt_float :: "float64 \<Rightarrow> string" where
  "fmt_float FNaN = ''NaN''"
| "fmt_float (FInf neg) = (if neg then ''-Inf'' else ''+Inf'')"
| "fmt_float (FFin x) =
     (if x = 0 then ''0''
      else (case shortest_digits 17 1 \<bar>x\<bar> of (m, e) \<Rightarrow>
        let ds = show_nat m; dp = int (length ds) + e; d = strip_zeros ds;
            body = (if dp - 1 < -4 \<or> 6 \<le> dp - 1 then layout_e d dp else layout_f d dp)
        in (if x < 0 then ''-'' else []) @ body))"

text \<open>\<open>%.2f\<close>: the nearest hundredth, ties to even.\<close>

fun fmt_fixed2 :: "float64 \<Rightarrow> string" where
  "fmt_fixed2 FNaN = ''NaN''"
| "fmt_fixed2 (FInf neg) = (if neg then ''-Inf'' else ''+Inf'')"
| "fmt_fixed2 (FFin x) = (let n = nat (round_half_even (100 * \<bar>x\<bar>)); cents = show_nat (n mod 100) in
     (if x < 0 then ''-'' else []) @ show_nat (n div 100) @ ''.''
       @ (if length cents < 2 then ''0'' @ cents else cents))"

datatype gval =
    VNil
  | VBool bool
  | VInt int64
  | VInt32 "32 word"
  | VInt64 int64
  | VUint "64 word"
  | VUint64 "64 word"
  | VF32 float64
  | VF64 float64
  | VStr string
  | VList "gval list"
  | VStrs "string list"
  | VMap "(string \<times> gval) list"
  | VStrMap "(string \<times> string) list"

type_synonym gmap = "(string \<times> gval) list"

definition fmt_entries :: "(string \<times> string) list \<Rightarrow> string" where
  "fmt_entries kvs = ''map['' @ join_with '' '' (map (\<lambda>(k, v). k @ '':'' @ v) (sort_key fst kvs)) @ '']''"

fun fmt_v :: "gval \<Rightarrow> string" where
  "fmt_v VNil = ''<nil>''"
| "fmt_v (VBool b) = (if b then ''true'' else ''false'')"
| "fmt_v (VInt n) = show_int (sint n)"
| "fmt_v (VInt32 n) = show_int (sint n)"
| "fmt_v (VInt64 n) = show_int (sint n)"
| "fmt_v (VUint n) = show_int (uint n)"
| "fmt_v (VUint64 n) = show_int (uint n)"
| "fmt_v (VF32 x) = fmt_float x"
| "fmt_v (VF64 x) = fmt_float x"
| "fmt_v (VStr s) = s"
| "fmt_v (VList vs) = ''['' @ join_with '' '' (map fmt_v vs) @ '']''"
| "fmt_v (VStrs ss) = ''['' @ join_with '' '' ss @ '']''"
| "fmt_v (VMap kvs) = fmt_entries (map (\<lambda>(k, v). (k, fmt_v v)) kvs)"
| "fmt_v (VStrMap kvs) = fmt_entries kvs"

end
