(* ===== verification/Inner_Client.thy ===== *)
theory Inner_Client
  imports Go_Values
begin

text \<open>
  The simulated device: activity types and results, the client state, and the pure function
  that executes an activity on it (\<open>internal/core/domain/activity.go\<close> and
  \<open>inner_client.go\<close>), with the frame and round-trip facts about it. States are values
  here; \<open>Clone\<close> is the deep copy the code takes before it writes, so no write is shared.
\<close>

section \<open>Activities and results\<close>

text \<open>A Go string type with named constants: the constants, and any other string.\<close>

datatype activity_type =
    ActivityReboot
  | ActivityInstallPackage
  | ActivityUpgradePackage
  | ActivityRemovePackage
  | ActivityApplyConfig
  | ActivityValidateConfig
  | ActivityRunScript
  | ActivityOther string

fun activity_text :: "activity_type \<Rightarrow> string" where
  "activity_text ActivityReboot = ''reboot''"
| "activity_text ActivityInstallPackage = ''install_package''"
| "activity_text ActivityUpgradePackage = ''upgrade_package''"
| "activity_text ActivityRemovePackage = ''remove_package''"
| "activity_text ActivityApplyConfig = ''apply_config''"
| "activity_text ActivityValidateConfig = ''validate_config''"
| "activity_text ActivityRunScript = ''run_script''"
| "activity_text (ActivityOther s) = s"

definition ValidActivityTypes :: "activity_type list" where
  "ValidActivityTypes = [ActivityReboot, ActivityInstallPackage, ActivityUpgradePackage,
     ActivityRemovePackage, ActivityApplyConfig, ActivityValidateConfig, ActivityRunScript]"

definition ActivityType_IsValid :: "activity_type \<Rightarrow> bool" where
  "ActivityType_IsValid a \<longleftrightarrow> a \<in> set ValidActivityTypes"

record activity =
  act_Type :: activity_type
  act_Params :: gmap

definition Activity_IsValid :: "activity \<Rightarrow> bool" where
  "Activity_IsValid a = ActivityType_IsValid (act_Type a)"

datatype result_status = ResultSuccess | ResultFail | ResultError | ResultOther string

fun ResultStatus_IsValid :: "result_status \<Rightarrow> bool" where
  "ResultStatus_IsValid ResultSuccess = True"
| "ResultStatus_IsValid ResultFail = True"
| "ResultStatus_IsValid ResultError = True"
| "ResultStatus_IsValid (ResultOther _) = False"

record activity_result =
  ar_Status :: result_status
  ar_Payload :: gmap
  ar_ErrorMsg :: string

lemma ActivityType_IsValid_iff: "ActivityType_IsValid a \<longleftrightarrow> (\<nexists>s. a = ActivityOther s)"
  by (cases a) (auto simp: ActivityType_IsValid_def ValidActivityTypes_def)

section \<open>Client state\<close>

datatype power_state = PowerStateOn | PowerStateOff | PowerStateRestarting

datatype cripple_mode =
  CrippleModeNone | CrippleModeFailPackageOps | CrippleModeFailConfig | CrippleModeSilent

fun cripple_text :: "cripple_mode \<Rightarrow> string" where
  "cripple_text CrippleModeNone = []"
| "cripple_text CrippleModeFailPackageOps = ''fail_package_ops''"
| "cripple_text CrippleModeFailConfig = ''fail_config''"
| "cripple_text CrippleModeSilent = ''silent''"

record client_state =
  st_Packages :: "string \<rightharpoonup> string"
  st_ConfigVersion :: int64
  st_PowerState :: power_state
  st_IsCrippled :: bool
  st_CrippleMode :: cripple_mode
  st_CrippleRecoveryAttempts :: int64

record inner_client =
  ic_ClientID :: string
  ic_State :: client_state

definition NewInnerClient :: "string \<Rightarrow> inner_client" where
  "NewInnerClient clientID = \<lparr>ic_ClientID = clientID,
     ic_State = \<lparr>st_Packages = Map.empty, st_ConfigVersion = 1, st_PowerState = PowerStateOn,
       st_IsCrippled = False, st_CrippleMode = CrippleModeNone, st_CrippleRecoveryAttempts = 0\<rparr>\<rparr>"

definition Clone :: "client_state \<Rightarrow> client_state" where
  "Clone s = \<lparr>st_Packages = (\<lambda>k. case st_Packages s k of Some v \<Rightarrow> Some v | None \<Rightarrow> None),
     st_ConfigVersion = st_ConfigVersion s, st_PowerState = st_PowerState s,
     st_IsCrippled = st_IsCrippled s, st_CrippleMode = st_CrippleMode s,
     st_CrippleRecoveryAttempts = st_CrippleRecoveryAttempts s\<rparr>"

lemma Clone_id [simp]: "Clone s = s"
proof -
  have "(\<lambda>k. case st_Packages s k of Some v \<Rightarrow> Some v | None \<Rightarrow> None) = st_Packages s"
    by (auto split: option.splits)
  then show ?thesis by (simp add: Clone_def)
qed

section \<open>Executing an activity\<close>

text \<open>The type assertions \<open>.(string)\<close>, \<open>.(int)\<close>, \<open>.(float64)\<close> on a parameter.\<close>

definition param_string :: "gmap \<Rightarrow> string \<Rightarrow> string option" where
  "param_string ps k = (case map_of ps k of Some (VStr s) \<Rightarrow> Some s | _ \<Rightarrow> None)"

text \<open>\<open>int(v)\<close> truncates towards zero; out of range it is the smallest integer, as on amd64.\<close>

fun int_of_f64 :: "float64 \<Rightarrow> int64" where
  "int_of_f64 (FFin x) = (let n = (if x < 0 then - \<lfloor>- x\<rfloor> else \<lfloor>x\<rfloor>) in
     if n < min_int64 \<or> max_int64 < n then word_of_int min_int64 else word_of_int n)"
| "int_of_f64 _ = word_of_int min_int64"

definition extractPackageParams :: "activity \<Rightarrow> string \<times> string" where
  "extractPackageParams a =
     ((case param_string (act_Params a) ''package'' of Some p \<Rightarrow> p | None \<Rightarrow> []),
      (case param_string (act_Params a) ''version'' of Some v \<Rightarrow> v | None \<Rightarrow> []))"

definition extractConfigVersion :: "activity \<Rightarrow> int64" where
  "extractConfigVersion a = (case map_of (act_Params a) ''config_version'' of
     Some (VInt v) \<Rightarrow> v
   | Some (VF64 v) \<Rightarrow> int_of_f64 v
   | _ \<Rightarrow> 0)"

definition result_error :: "string \<Rightarrow> activity_result" where
  "result_error m = \<lparr>ar_Status = ResultError, ar_Payload = [], ar_ErrorMsg = m\<rparr>"

definition result_fail :: "string \<Rightarrow> activity_result" where
  "result_fail m = \<lparr>ar_Status = ResultFail, ar_Payload = [], ar_ErrorMsg = m\<rparr>"

definition result_success :: "gmap \<Rightarrow> activity_result" where
  "result_success p = \<lparr>ar_Status = ResultSuccess, ar_Payload = p, ar_ErrorMsg = []\<rparr>"

definition executeReboot :: "client_state \<Rightarrow> client_state \<times> activity_result" where
  "executeReboot s = (let s = s\<lparr>st_PowerState := PowerStateRestarting\<rparr>;
      s = s\<lparr>st_IsCrippled := False\<rparr>; s = s\<lparr>st_CrippleMode := CrippleModeNone\<rparr>;
      s = s\<lparr>st_CrippleRecoveryAttempts := 0\<rparr>; s = s\<lparr>st_PowerState := PowerStateOn\<rparr>
    in (s, result_success []))"

definition executeInstallPackage :: "activity \<Rightarrow> client_state \<Rightarrow> client_state \<times> activity_result" where
  "executeInstallPackage a s = (case extractPackageParams a of (pkg, version) \<Rightarrow>
     if pkg = [] then (s, result_error ''missing package name'')
     else if st_Packages s pkg \<noteq> None then (s, result_fail (''package already installed: '' @ pkg))
     else (let version = (if version = [] then ''latest'' else version) in
       (s\<lparr>st_Packages := (st_Packages s)(pkg \<mapsto> version)\<rparr>,
        result_success [(''package'', VStr pkg), (''version'', VStr version)])))"

definition executeUpgradePackage :: "activity \<Rightarrow> client_state \<Rightarrow> client_state \<times> activity_result" where
  "executeUpgradePackage a s = (case extractPackageParams a of (pkg, version) \<Rightarrow>
     if pkg = [] then (s, result_error ''missing package name'')
     else if st_Packages s pkg = None then (s, result_fail (''package not installed: '' @ pkg))
     else (let version = (if version = [] then ''latest'' else version) in
       (s\<lparr>st_Packages := (st_Packages s)(pkg \<mapsto> version)\<rparr>,
        result_success [(''package'', VStr pkg), (''version'', VStr version)])))"

definition executeRemovePackage :: "activity \<Rightarrow> client_state \<Rightarrow> client_state \<times> activity_result" where
  "executeRemovePackage a s = (case extractPackageParams a of (pkg, _) \<Rightarrow>
     if pkg = [] then (s, result_error ''missing package name'')
     else if st_Packages s pkg = None then (s, result_fail (''package not installed: '' @ pkg))
     else (s\<lparr>st_Packages := (st_Packages s)(pkg := None)\<rparr>,
           result_success [(''package'', VStr pkg)]))"

definition executeApplyConfig :: "activity \<Rightarrow> client_state \<Rightarrow> client_state \<times> activity_result" where
  "executeApplyConfig a s = (let version = extractConfigVersion a in
     (s\<lparr>st_ConfigVersion := version\<rparr>, result_success [(''config_version'', VInt version)]))"

definition executeValidateConfig :: "activity \<Rightarrow> client_state \<Rightarrow> client_state \<times> activity_result" where
  "executeValidateConfig a s = (let expected = extractConfigVersion a in
     if st_ConfigVersion s \<noteq> expected then
       (s, \<lparr>ar_Status = ResultFail,
            ar_Payload = [(''expected'', VInt expected), (''actual'', VInt (st_ConfigVersion s))],
            ar_ErrorMsg = ''config version mismatch''\<rparr>)
     else (s, result_success [(''config_version'', VInt (st_ConfigVersion s))]))"

definition executeRunScript :: "activity \<Rightarrow> client_state \<Rightarrow> client_state \<times> activity_result" where
  "executeRunScript a s =
     (let script = (case param_string (act_Params a) ''script'' of Some t \<Rightarrow> t | None \<Rightarrow> []) in
     (s, result_success [(''exit_code'', VInt 0), (''stdout'', VStr (''script executed: '' @ script)),
        (''stderr'', VStr [])]))"

definition ExecuteActivity :: "activity \<Rightarrow> client_state \<Rightarrow> client_state \<times> activity_result" where
  "ExecuteActivity a s = (let newState = Clone s in
     case act_Type a of
       ActivityReboot \<Rightarrow> executeReboot newState
     | ActivityInstallPackage \<Rightarrow> executeInstallPackage a newState
     | ActivityUpgradePackage \<Rightarrow> executeUpgradePackage a newState
     | ActivityRemovePackage \<Rightarrow> executeRemovePackage a newState
     | ActivityApplyConfig \<Rightarrow> executeApplyConfig a newState
     | ActivityValidateConfig \<Rightarrow> executeValidateConfig a newState
     | ActivityRunScript \<Rightarrow> executeRunScript a newState
     | ActivityOther t \<Rightarrow> (newState, result_error (''unknown activity type: '' @ t)))"

lemmas execute_defs = executeReboot_def executeInstallPackage_def executeUpgradePackage_def
  executeRemovePackage_def executeApplyConfig_def executeValidateConfig_def executeRunScript_def
  result_error_def result_fail_def result_success_def Let_def

section \<open>Facts about one execution\<close>

text \<open>The invariant of a device: it is crippled exactly when it has a cripple mode.\<close>

definition state_wf :: "client_state \<Rightarrow> bool" where
  "state_wf s \<longleftrightarrow> (st_IsCrippled s \<longleftrightarrow> st_CrippleMode s \<noteq> CrippleModeNone)
     \<and> st_PowerState s = PowerStateOn \<and> finite (dom (st_Packages s))"

lemma state_wf_new: "state_wf (ic_State (NewInnerClient c))"
  by (simp add: state_wf_def NewInnerClient_def)

lemma ExecuteActivity_wf: "state_wf s \<Longrightarrow> state_wf (fst (ExecuteActivity a s))"
  by (cases "act_Type a")
    (auto simp: ExecuteActivity_def execute_defs state_wf_def split: prod.splits if_splits)

lemma ExecuteActivity_not_success:
  "ar_Status (snd (ExecuteActivity a s)) \<noteq> ResultSuccess \<Longrightarrow> fst (ExecuteActivity a s) = s"
  by (cases "act_Type a")
    (auto simp: ExecuteActivity_def execute_defs split: prod.splits if_splits)

section \<open>Properties\<close>

definition install_vim :: activity where
  "install_vim = \<lparr>act_Type = ActivityInstallPackage, act_Params = [(''package'', VStr ''vim'')]\<rparr>"

definition fresh_state :: client_state where
  "fresh_state = ic_State (NewInnerClient ''c1'')"

definition package_activities :: "activity_type set" where
  "package_activities = {ActivityInstallPackage, ActivityUpgradePackage, ActivityRemovePackage}"

text \<open>C35. What an activity does to a device, field by field: \<open>reboot\<close> clears the cripple flags and the
  recovery attempts and leaves the power on; a package activity changes at most the one package its
  parameters name, and does so exactly when it succeeds: an install when the package is missing, an
  upgrade or a removal when it is there; \<open>apply_config\<close> changes the configuration version and nothing
  else; \<open>validate_config\<close>, \<open>run_script\<close> and an unknown type change nothing at all. Without a
  \<open>success\<close> status the state is unchanged.\<close>

theorem execute_activity_frame:
  assumes "extractPackageParams a = (pkg, version)" and "ExecuteActivity a s = (s', res)"
  shows "(ar_Status res \<noteq> ResultSuccess \<longrightarrow> s' = s)
   \<and> (act_Type a = ActivityReboot \<longrightarrow> ar_Status res = ResultSuccess
        \<and> s' = s\<lparr>st_PowerState := PowerStateOn, st_IsCrippled := False, st_CrippleMode := CrippleModeNone,
            st_CrippleRecoveryAttempts := 0\<rparr>)
   \<and> (act_Type a \<in> package_activities \<longrightarrow>
        ar_Status res = (if pkg = [] then ResultError
          else if (st_Packages s pkg = None) = (act_Type a = ActivityInstallPackage) then ResultSuccess else ResultFail)
        \<and> (ar_Status res = ResultSuccess \<longrightarrow> s' = s\<lparr>st_Packages := (st_Packages s)(pkg :=
            (if act_Type a = ActivityRemovePackage then None else Some (if version = [] then ''latest'' else version)))\<rparr>))
   \<and> (act_Type a = ActivityApplyConfig \<longrightarrow> ar_Status res = ResultSuccess
        \<and> s' = s\<lparr>st_ConfigVersion := extractConfigVersion a\<rparr>)
   \<and> (act_Type a = ActivityValidateConfig \<longrightarrow> s' = s
        \<and> (ar_Status res = ResultSuccess \<longleftrightarrow> st_ConfigVersion s = extractConfigVersion a))
   \<and> (act_Type a = ActivityRunScript \<longrightarrow> s' = s \<and> ar_Status res = ResultSuccess)
   \<and> (\<not> ActivityType_IsValid (act_Type a) \<longrightarrow> s' = s \<and> ar_Status res = ResultError)"
proof (intro conjI impI)
  show "s' = s" if "ar_Status res \<noteq> ResultSuccess"
    using ExecuteActivity_not_success [of a s] that assms(2) by simp
  show "s' = s" and "ar_Status res = ResultError" if "\<not> ActivityType_IsValid (act_Type a)"
    using that assms(2) by (auto simp: ActivityType_IsValid_iff ExecuteActivity_def execute_defs)
qed (use assms in \<open>auto simp: ExecuteActivity_def execute_defs package_activities_def split: if_splits\<close>)

theorem execute_activity_frame_witness:
  "fst (ExecuteActivity install_vim fresh_state) = fresh_state\<lparr>st_Packages := [''vim'' \<mapsto> ''latest'']\<rparr>"
proof -
  have "extractPackageParams install_vim = (''vim'', [])"
    by (simp add: install_vim_def extractPackageParams_def param_string_def)
  from execute_activity_frame [OF this surjective_pairing, of fresh_state]
  show ?thesis by (simp add: package_activities_def install_vim_def fresh_state_def NewInnerClient_def)
qed

text \<open>Installing a package that was not there and removing it again succeeds and gives back
  the state; validating the configuration that was just applied succeeds.\<close>

theorem install_remove_and_apply_validate_roundtrip:
  assumes "fst (extractPackageParams a) \<noteq> []" and "st_Packages s (fst (extractPackageParams a)) = None"
  shows "fst (ExecuteActivity (a\<lparr>act_Type := ActivityRemovePackage\<rparr>)
      (fst (ExecuteActivity (a\<lparr>act_Type := ActivityInstallPackage\<rparr>) s))) = s
    \<and> ar_Status (snd (ExecuteActivity (a\<lparr>act_Type := ActivityRemovePackage\<rparr>)
      (fst (ExecuteActivity (a\<lparr>act_Type := ActivityInstallPackage\<rparr>) s)))) = ResultSuccess
    \<and> ar_Status (snd (ExecuteActivity (b\<lparr>act_Type := ActivityValidateConfig\<rparr>)
      (fst (ExecuteActivity (b\<lparr>act_Type := ActivityApplyConfig\<rparr>) s)))) = ResultSuccess"
proof -
  have p: "extractPackageParams (a\<lparr>act_Type := t\<rparr>) = extractPackageParams a"
    and c: "extractConfigVersion (b\<lparr>act_Type := t\<rparr>) = extractConfigVersion b" for t
    by (simp_all add: extractPackageParams_def extractConfigVersion_def)
  have "(st_Packages s)(fst (extractPackageParams a) := None) = st_Packages s"
    using assms(2) by auto
  then show ?thesis
    using assms by (auto simp: ExecuteActivity_def execute_defs p c split: prod.splits)
qed

theorem install_remove_and_apply_validate_roundtrip_witness:
  "fst (ExecuteActivity (install_vim\<lparr>act_Type := ActivityRemovePackage\<rparr>)
     (fst (ExecuteActivity (install_vim\<lparr>act_Type := ActivityInstallPackage\<rparr>) fresh_state))) = fresh_state"
proof -
  have "fst (extractPackageParams install_vim) \<noteq> []"
    and "st_Packages fresh_state (fst (extractPackageParams install_vim)) = None"
    by (simp_all add: install_vim_def extractPackageParams_def param_string_def fresh_state_def
        NewInnerClient_def)
  from install_remove_and_apply_validate_roundtrip [OF this] show ?thesis by simp
qed

end
