(* ===== verification/Chaos.thy ===== *)
theory Chaos
  imports Inner_Client
begin

text \<open>
  Chaos injection: the draws of \<open>internal/core/domain/chaos.go\<close> and the executors of
  \<open>internal/adapters/activity\<close>. A \<open>ChaosSource\<close> is an interface; a source here is its two
  methods on a state type of its own, so a theorem holds for every generator that keeps the
  documented range of \<open>Intn\<close>. Go leaves the order in which a map is ranged over open; the
  order the runtime takes is the argument \<open>iter\<close>, any enumeration of the keys.
\<close>

section \<open>Draws\<close>

record 'r chaos_source =
  cs_Float64 :: "'r \<Rightarrow> float64 \<times> 'r"
  cs_Intn :: "int \<Rightarrow> 'r \<Rightarrow> int \<times> 'r"

definition source_ok :: "'r chaos_source \<Rightarrow> bool" where
  "source_ok src \<longleftrightarrow> (\<forall>n r. 0 < n \<longrightarrow> 0 \<le> fst (cs_Intn src n r) \<and> fst (cs_Intn src n r) < n)"

type_synonym map_order = "(string \<rightharpoonup> string) \<Rightarrow> string list"

definition order_ok :: "map_order \<Rightarrow> bool" where
  "order_ok iter \<longleftrightarrow> (\<forall>m. finite (dom m) \<longrightarrow> distinct (iter m) \<and> set (iter m) = dom m)"

definition ShouldActivityFail :: "'r chaos_source \<Rightarrow> 'r \<Rightarrow> bool \<times> 'r" where
  "ShouldActivityFail src r = (case cs_Float64 src r of (x, r) \<Rightarrow> (flt x (to_f64 (10 / 100)), r))"

definition ShouldCrippleClient :: "'r chaos_source \<Rightarrow> bool \<Rightarrow> 'r \<Rightarrow> bool \<times> 'r" where
  "ShouldCrippleClient src didFail r =
     (if \<not> didFail then (False, r)
      else (case cs_Float64 src r of (x, r) \<Rightarrow> (flt x (to_f64 (3 / 100)), r)))"

definition SelectCrippleMode :: "'r chaos_source \<Rightarrow> 'r \<Rightarrow> cripple_mode outcome \<times> 'r" where
  "SelectCrippleMode src r =
     (let modes = [CrippleModeFailPackageOps, CrippleModeFailConfig, CrippleModeSilent]
      in case cs_Intn src (int (length modes)) r of (i, r) \<Rightarrow> (slice_at modes i, r))"

definition ShouldDriftState :: "'r chaos_source \<Rightarrow> 'r \<Rightarrow> bool \<times> 'r" where
  "ShouldDriftState src r = (case cs_Float64 src r of (x, r) \<Rightarrow> (flt x (to_f64 (75 / 1000)), r))"

definition randomDriftPackage :: "'r chaos_source \<Rightarrow> 'r \<Rightarrow> string outcome \<times> 'r" where
  "randomDriftPackage src r =
     (let names = [''curl'', ''wget'', ''vim'', ''jq'', ''htop'', ''tree'', ''tmux'']
      in case cs_Intn src (int (length names)) r of (i, r) \<Rightarrow> (slice_at names i, r))"

definition ApplyDrift ::
  "map_order \<Rightarrow> 'r chaos_source \<Rightarrow> client_state \<Rightarrow> 'r \<Rightarrow> client_state outcome \<times> 'r" where
  "ApplyDrift iter src state r = (let newState = Clone state in
     case cs_Intn src 3 r of (choice, r) \<Rightarrow>
       if choice = 0 then
         (Ret (newState\<lparr>st_ConfigVersion := st_ConfigVersion newState + 1\<rparr>), r)
       else if choice = 1 then
         (case randomDriftPackage src r of (pkg, r) \<Rightarrow>
           (bind_outcome pkg (\<lambda>pkgName.
              Ret (newState\<lparr>st_Packages := (st_Packages newState)(pkgName \<mapsto> ''drifted'')\<rparr>)), r))
       else if choice = 2 then
         (case iter (st_Packages newState) of
            [] \<Rightarrow> (Ret newState, r)
          | pkg # _ \<Rightarrow> (Ret (newState\<lparr>st_Packages := (st_Packages newState)(pkg := None)\<rparr>), r))
       else (Ret newState, r))"

definition IsCrippledForActivity :: "client_state \<Rightarrow> activity_type \<Rightarrow> bool" where
  "IsCrippledForActivity state activityType =
     (if \<not> st_IsCrippled state then False
      else (case st_CrippleMode state of
         CrippleModeFailPackageOps \<Rightarrow> activityType = ActivityInstallPackage
           \<or> activityType = ActivityUpgradePackage \<or> activityType = ActivityRemovePackage
       | CrippleModeFailConfig \<Rightarrow> activityType = ActivityApplyConfig
           \<or> activityType = ActivityValidateConfig
       | CrippleModeSilent \<Rightarrow> True
       | CrippleModeNone \<Rightarrow> False))"

section \<open>Executors\<close>

type_synonym execution = "go_error + (client_state \<times> activity_result)"
type_synonym executor = "string \<Rightarrow> activity \<Rightarrow> client_state \<Rightarrow> execution"

definition StandardExecutor_Execute :: executor where
  "StandardExecutor_Execute clientID a state =
     (if \<not> Activity_IsValid a
      then Inl (ErrWrap [] ErrInvalidActivity ('': '' @ activity_text (act_Type a)))
      else Inr (ExecuteActivity a state))"

definition ChaosExecutor_Execute ::
  "map_order \<Rightarrow> 'r chaos_source \<Rightarrow> executor \<Rightarrow> string \<Rightarrow> activity \<Rightarrow> client_state \<Rightarrow> 'r
     \<Rightarrow> execution outcome \<times> 'r" where
  "ChaosExecutor_Execute iter src inner clientID a state r =
     (if IsCrippledForActivity state (act_Type a) then
        (if st_CrippleMode state = CrippleModeSilent
         then (Ret (Inr (Clone state, result_success [])), r)
         else (Ret (Inr (Clone state,
                 result_fail (''client is crippled: '' @ cripple_text (st_CrippleMode state)))), r))
      else (case ShouldActivityFail src r of
        (True, r) \<Rightarrow>
          (let failedState = Clone state;
               res = result_fail ''chaos: random failure injected'' in
           case ShouldCrippleClient src True r of
             (True, r) \<Rightarrow>
               (case SelectCrippleMode src r of (mode, r) \<Rightarrow>
                 (bind_outcome mode (\<lambda>mode.
                    Ret (Inr (failedState\<lparr>st_IsCrippled := True, st_CrippleMode := mode\<rparr>, res))), r))
           | (False, r) \<Rightarrow> (Ret (Inr (failedState, res)), r))
      | (False, r) \<Rightarrow>
          (case inner clientID a state of
             Inl e \<Rightarrow> (Ret (Inl e), r)
           | Inr (newState, result) \<Rightarrow>
              (case ShouldDriftState src r of
                 (True, r) \<Rightarrow> (case ApplyDrift iter src newState r of (drifted, r) \<Rightarrow>
                    (bind_outcome drifted (\<lambda>newState. Ret (Inr (newState, result))), r))
               | (False, r) \<Rightarrow> (Ret (Inr (newState, result)), r)))))"

section \<open>Facts\<close>

lemma slice_at_in_range: "0 \<le> i \<Longrightarrow> i < int (length xs) \<Longrightarrow> slice_at xs i = Ret (xs ! nat i)"
  by (simp add: slice_at_def)

lemma slice_at_Ret: "slice_at xs i = Ret x \<Longrightarrow> x \<in> set xs"
  by (auto simp: slice_at_def split: if_splits)

lemma SelectCrippleMode_Ret:
  "SelectCrippleMode src r = (Ret m, r') \<Longrightarrow> m \<noteq> CrippleModeNone"
  by (auto simp: SelectCrippleMode_def Let_def dest!: slice_at_Ret split: prod.splits)

lemma SelectCrippleMode_no_panic:
  assumes "source_ok src"
  shows "\<not> panics (fst (SelectCrippleMode src r))"
proof -
  obtain i r' where i: "cs_Intn src 3 r = (i, r')" by fastforce
  then have "0 \<le> i \<and> i < 3"
    using assms unfolding source_ok_def by (metis fst_conv zero_less_numeral)
  with i show ?thesis by (simp add: SelectCrippleMode_def slice_at_def)
qed

lemma randomDriftPackage_no_panic:
  assumes "source_ok src"
  shows "\<not> panics (fst (randomDriftPackage src r))"
proof -
  obtain i r' where i: "cs_Intn src 7 r = (i, r')" by fastforce
  then have "0 \<le> i \<and> i < 7"
    using assms unfolding source_ok_def by (metis fst_conv zero_less_numeral)
  with i show ?thesis by (simp add: randomDriftPackage_def slice_at_def)
qed

lemma not_panics_bind: "\<not> panics x \<Longrightarrow> (\<And>a. \<not> panics (f a)) \<Longrightarrow> \<not> panics (bind_outcome x f)"
  by (cases x) auto

lemma ApplyDrift_no_panic:
  assumes "source_ok src"
  shows "\<not> panics (fst (ApplyDrift iter src s r))"
proof -
  obtain ch r1 where ch: "cs_Intn src 3 r = (ch, r1)" by fastforce
  obtain p r2 where p: "randomDriftPackage src r1 = (p, r2)" by fastforce
  have "\<not> panics p" using randomDriftPackage_no_panic [OF assms, of r1] p by simp
  then show ?thesis
    by (simp add: ApplyDrift_def ch p not_panics_bind split: list.split)
qed

text \<open>The branches of the chaos executor.\<close>

lemma ChaosExecutor_cases:
  assumes "ChaosExecutor_Execute iter src inner c a s r = (out, r')"
  obtains (silent) "IsCrippledForActivity s (act_Type a)" "st_CrippleMode s = CrippleModeSilent"
      "out = Ret (Inr (s, result_success []))" "r' = r"
  | (crippled) "IsCrippledForActivity s (act_Type a)" "st_CrippleMode s \<noteq> CrippleModeSilent"
      "out = Ret (Inr (s, result_fail (''client is crippled: '' @ cripple_text (st_CrippleMode s))))"
      "r' = r"
  | (failed) "\<not> IsCrippledForActivity s (act_Type a)" "fst (ShouldActivityFail src r)"
      "out = Ret (Inr (s, result_fail ''chaos: random failure injected''))"
  | (newly_crippled) r1 mode where "\<not> IsCrippledForActivity s (act_Type a)"
      "fst (ShouldActivityFail src r)" "SelectCrippleMode src r1 = (mode, r')"
      "out = bind_outcome mode (\<lambda>mode. Ret (Inr (s\<lparr>st_IsCrippled := True, st_CrippleMode := mode\<rparr>,
         result_fail ''chaos: random failure injected'')))"
  | (inner_error) e where "\<not> IsCrippledForActivity s (act_Type a)"
      "\<not> fst (ShouldActivityFail src r)" "inner c a s = Inl e" "out = Ret (Inl e)"
  | (ran) t res where "\<not> IsCrippledForActivity s (act_Type a)"
      "\<not> fst (ShouldActivityFail src r)" "inner c a s = Inr (t, res)" "out = Ret (Inr (t, res))"
  | (drifted) t res d r1 where "\<not> IsCrippledForActivity s (act_Type a)"
      "\<not> fst (ShouldActivityFail src r)" "inner c a s = Inr (t, res)"
      "ApplyDrift iter src t r1 = (d, r')"
      "out = bind_outcome d (\<lambda>t. Ret (Inr (t, res)))"
proof (cases "IsCrippledForActivity s (act_Type a)")
  case True
  show ?thesis
  proof (cases "st_CrippleMode s = CrippleModeSilent")
    case silent_mode: True
    with True assms show ?thesis by (intro silent) (simp_all add: ChaosExecutor_Execute_def)
  next
    case False
    with True assms show ?thesis by (intro crippled) (simp_all add: ChaosExecutor_Execute_def)
  qed
next
  case False
  obtain b r1 where b: "ShouldActivityFail src r = (b, r1)" by fastforce
  show ?thesis
  proof (cases b)
    case True
    obtain cr r2 where cr: "ShouldCrippleClient src True r1 = (cr, r2)" by fastforce
    obtain m r3 where m: "SelectCrippleMode src r2 = (m, r3)" by fastforce
    show ?thesis
    proof (cases cr)
      case cr_True: True
      with False b True cr m assms show ?thesis
        by (intro newly_crippled [of r2 m]) (simp_all add: ChaosExecutor_Execute_def)
    next
      case cr_False: False
      with False b True cr m assms show ?thesis
        by (intro failed) (simp_all add: ChaosExecutor_Execute_def)
    qed
  next
    case b_False: False
    show ?thesis
    proof (cases "inner c a s")
      case (Inl e)
      with False b b_False assms show ?thesis
        by (intro inner_error [of e]) (simp_all add: ChaosExecutor_Execute_def)
    next
      case (Inr tr)
      obtain t res where tr: "tr = (t, res)" by fastforce
      obtain dr r2 where dr: "ShouldDriftState src r1 = (dr, r2)" by fastforce
      obtain d r3 where d: "ApplyDrift iter src t r2 = (d, r3)" by fastforce
      show ?thesis
      proof (cases dr)
        case dr_True: True
        with False b b_False Inr tr dr d assms show ?thesis
          by (intro drifted [of t res r2 d]) (simp_all add: ChaosExecutor_Execute_def)
      next
        case dr_False: False
        with False b b_False Inr tr dr assms show ?thesis
          by (intro ran [of t res]) (simp_all add: ChaosExecutor_Execute_def)
      qed
    qed
  qed
qed

lemma ChaosExecutor_no_panic:
  assumes "source_ok src" and "ChaosExecutor_Execute iter src inner c a s r = (out, r')"
  shows "\<not> panics out"
  using assms(2)
proof (cases rule: ChaosExecutor_cases)
  case (newly_crippled r1 mode)
  with SelectCrippleMode_no_panic [OF assms(1), of r1] show ?thesis
    by (simp add: not_panics_bind)
next
  case (drifted t res d r1)
  with ApplyDrift_no_panic [OF assms(1), of iter t r1] show ?thesis
    by (simp add: not_panics_bind)
qed simp_all

lemma ApplyDrift_wf:
  assumes "ApplyDrift iter src s r = (Ret s', r')" and "state_wf s"
  shows "state_wf s' \<and> st_IsCrippled s' = st_IsCrippled s \<and> st_CrippleMode s' = st_CrippleMode s"
proof -
  obtain ch r1 where ch: "cs_Intn src 3 r = (ch, r1)" by fastforce
  obtain p r2 where p: "randomDriftPackage src r1 = (p, r2)" by fastforce
  show ?thesis
    using assms by (auto simp: ApplyDrift_def ch p state_wf_def bind_outcome_Ret_iff
        split: list.splits if_splits)
qed

lemma ChaosExecutor_wf:
  assumes "ChaosExecutor_Execute iter src inner c a s r = (Ret (Inr (s', res)), r')" and "state_wf s"
    and "\<And>t res. inner c a s = Inr (t, res) \<Longrightarrow> state_wf t"
  shows "state_wf s'"
  using assms(1)
proof (cases rule: ChaosExecutor_cases)
  case (newly_crippled r1 mode)
  then obtain m where "mode = Ret m" "s' = s\<lparr>st_IsCrippled := True, st_CrippleMode := m\<rparr>"
    by (cases mode) auto
  with newly_crippled SelectCrippleMode_Ret [of src r1 m r'] assms(2) show ?thesis
    by (simp add: state_wf_def)
next
  case (drifted t res' d r1)
  then have "d = Ret s'" by (cases d) auto
  with drifted assms(3) show ?thesis by (blast dest: ApplyDrift_wf)
qed (use assms in auto)

lemma StandardExecutor_wf:
  "StandardExecutor_Execute c a s = Inr (t, res) \<Longrightarrow> state_wf s \<Longrightarrow> state_wf t"
  using ExecuteActivity_wf [of s a]
  by (auto simp: StandardExecutor_Execute_def split: if_splits)

section \<open>Properties\<close>

text \<open>A source that replays a list of draws: the seeded source of the repository's tests.\<close>

definition replay :: "(float64 list \<times> int list) chaos_source" where
  "replay = \<lparr>cs_Float64 = (\<lambda>(fs, is). case fs of [] \<Rightarrow> (FFin 0, ([], is)) | f # fs \<Rightarrow> (f, (fs, is))),
     cs_Intn = (\<lambda>n (fs, is). case is of [] \<Rightarrow> (0, (fs, [])) | i # is \<Rightarrow> (i mod n, (fs, is)))\<rparr>"

lemma replay_ok: "source_ok replay"
  by (auto simp: source_ok_def replay_def split: list.splits)

definition reboot :: activity where
  "reboot = \<lparr>act_Type = ActivityReboot, act_Params = []\<rparr>"

definition silent_state :: client_state where
  "silent_state = fresh_state\<lparr>st_IsCrippled := True, st_CrippleMode := CrippleModeSilent\<rparr>"

text \<open>C36. The silent cripple mode is absorbing: whatever the activity, a reboot included, a
  silently crippled client reports success, its state does not change, and no chaos is drawn.
  So the documented recovery by reboot never happens for that mode.\<close>

theorem silent_cripple_absorbs_every_activity:
  assumes "st_IsCrippled s" and "st_CrippleMode s = CrippleModeSilent"
  shows "ChaosExecutor_Execute iter src inner clientID a s r
    = (Ret (Inr (s, result_success [])), r)"
  using assms by (simp add: ChaosExecutor_Execute_def IsCrippledForActivity_def)

theorem silent_cripple_absorbs_every_activity_witness:
  "ChaosExecutor_Execute (\<lambda>_. []) replay StandardExecutor_Execute ''c1'' reboot silent_state ([], [])
   = (Ret (Inr (silent_state, result_success [])), ([], []))"
  by (rule silent_cripple_absorbs_every_activity) (simp_all add: silent_state_def)

text \<open>For every other mode the recovery works: when no random failure is drawn, a reboot of a
  client crippled for packages or configuration succeeds and clears the cripple flags, whatever
  drift follows.\<close>

theorem reboot_recovers_other_modes:
  assumes "st_CrippleMode s \<noteq> CrippleModeSilent" and "state_wf s" and "source_ok src"
    and "\<not> fst (ShouldActivityFail src r)" and "act_Type a = ActivityReboot"
  shows "\<exists>s' r'. ChaosExecutor_Execute iter src StandardExecutor_Execute clientID a s r
      = (Ret (Inr (s', result_success [])), r')
    \<and> \<not> st_IsCrippled s' \<and> st_CrippleMode s' = CrippleModeNone"
proof -
  obtain out r' where run: "ChaosExecutor_Execute iter src StandardExecutor_Execute clientID a s r = (out, r')"
    by fastforce
  have free: "\<not> IsCrippledForActivity s (act_Type a)"
    using assms(1,5) by (simp add: IsCrippledForActivity_def split: cripple_mode.splits)
  have std: "StandardExecutor_Execute clientID a s = Inr (fst (executeReboot s), result_success [])"
    using assms(5) by (simp add: StandardExecutor_Execute_def Activity_IsValid_def
        ActivityType_IsValid_iff ExecuteActivity_def executeReboot_def Let_def)
  have wf: "state_wf (fst (executeReboot s))"
    and flags: "\<not> st_IsCrippled (fst (executeReboot s))"
      "st_CrippleMode (fst (executeReboot s)) = CrippleModeNone"
    using assms(2) by (simp_all add: executeReboot_def state_wf_def)
  from run show ?thesis
  proof (cases rule: ChaosExecutor_cases)
    case (drifted t res d r1)
    then obtain t' where t': "d = Ret t'"
      using ApplyDrift_no_panic [OF assms(3), of iter t r1] by (cases d) auto
    with drifted std wf flags ApplyDrift_wf [of iter src t r1 t' r'] run show ?thesis by auto
  qed (use free assms(4) std flags run in auto)
qed

theorem reboot_recovers_other_modes_witness:
  "\<exists>s' r'. ChaosExecutor_Execute (\<lambda>_. []) replay StandardExecutor_Execute ''c1'' reboot
      (fresh_state\<lparr>st_IsCrippled := True, st_CrippleMode := CrippleModeFailConfig\<rparr>) ([FFin 1], [])
      = (Ret (Inr (s', result_success [])), r')
    \<and> \<not> st_IsCrippled s' \<and> st_CrippleMode s' = CrippleModeNone"
proof (rule reboot_recovers_other_modes)
  have "to_f64 (10 / 100) = FFin (rnd (1 / 10))" and "rnd (1 / 10) \<le> (1 :: rat)"
    using to_f64_between [of 0 1 "1 / 10"] by simp_all
  then show "\<not> fst (ShouldActivityFail replay ([FFin 1], []))"
    by (simp add: ShouldActivityFail_def replay_def)
qed (simp_all add: replay_ok reboot_def state_wf_def fresh_state_def NewInnerClient_def)

text \<open>C34. With a source that keeps the range of \<open>Intn\<close>, the chaos executor never panics, and an
  execution through it keeps a device well formed: crippled exactly when it has a cripple mode,
  powered on, with finitely many packages.\<close>

theorem chaos_execution_safe:
  assumes "source_ok src" and "state_wf s"
    and "ChaosExecutor_Execute iter src StandardExecutor_Execute clientID a s r = (out, r')"
  shows "\<not> panics out \<and> (\<forall>s' res. out = Ret (Inr (s', res)) \<longrightarrow> state_wf s')"
proof -
  have "state_wf t" if "StandardExecutor_Execute clientID a s = Inr (t, res)" for t res
    using StandardExecutor_wf [OF that assms(2)] .
  then show ?thesis
    using ChaosExecutor_no_panic [OF assms(1,3)] ChaosExecutor_wf [of iter src StandardExecutor_Execute
      clientID a s r] assms(2,3) by blast
qed

theorem chaos_execution_safe_witness:
  "\<not> panics (fst (ChaosExecutor_Execute (\<lambda>_. []) replay StandardExecutor_Execute ''c1'' reboot
      fresh_state ([], [])))"
proof -
  have "state_wf fresh_state" by (simp add: state_wf_new fresh_state_def)
  from chaos_execution_safe [OF replay_ok this surjective_pairing] show ?thesis ..
qed

end
