(* ===== verification/Tables.thy ===== *)
theory Tables
  imports Go_Values
begin

text \<open>
  What the stores of the program have in common. Every repository that saves a row under a key
  and reads it back keeps the contract \<open>keyed_table\<close>; the client, workflow, health and circuit
  tables of \<open>internal/adapters/repository\<close> and the in-memory store of
  \<open>internal/adapters/storage\<close> interpret it. The second part is what storing a map as JSON text
  does to its values.
\<close>

section \<open>Tables with a key\<close>

locale keyed_table =
  fixes key :: "'r \<Rightarrow> 'k"
    and save :: "'r \<Rightarrow> 'db \<Rightarrow> 'db"
    and get :: "'k \<Rightarrow> 'db \<Rightarrow> 'r option"
    and stored :: "'r \<Rightarrow> 'db \<Rightarrow> 'r"
    and ready :: "'db \<Rightarrow> bool"
  assumes get_save: "ready db \<Longrightarrow>
      get k (save r db) = (if k = key r then Some (stored r db) else get k db)"
    and ready_save: "ready db \<Longrightarrow> ready (save r db)"
begin

lemma get_save_same: "ready db \<Longrightarrow> get (key r) (save r db) = Some (stored r db)"
  by (simp add: get_save)

lemma get_save_other: "ready db \<Longrightarrow> k \<noteq> key r \<Longrightarrow> get k (save r db) = get k db"
  by (simp add: get_save)

lemma ready_run: "ready db \<Longrightarrow> ready (fold save rs db)"
  by (induction rs arbitrary: db) (auto simp: ready_save)

lemma get_run_other:
  "ready db \<Longrightarrow> k \<notin> key ` set rs \<Longrightarrow> get k (fold save rs db) = get k db"
  by (induction rs arbitrary: db) (auto simp: get_save ready_save)

lemma get_run_last:
  assumes "ready db" and "key r \<notin> key ` set rs"
  shows "\<exists>db'. get (key r) (fold save (r # rs) db) = Some (stored r db')"
proof -
  have "get (key r) (fold save (r # rs) db) = get (key r) (save r db)"
    using get_run_other [OF ready_save [OF assms(1)] assms(2), of r] by simp
  also have "\<dots> = Some (stored r db)"
    by (rule get_save_same) (rule assms(1))
  finally show ?thesis by blast
qed

lemma get_run_present:
  "ready db \<Longrightarrow> k \<in> key ` set rs \<Longrightarrow> get k (fold save rs db) \<noteq> None"
proof (induction rs arbitrary: db)
  case (Cons r rs)
  show ?case
  proof (cases "k \<in> key ` set rs")
    case True
    with Cons show ?thesis by (simp add: ready_save)
  next
    case False
    with Cons.prems have "k = key r" by simp
    with get_run_other [OF ready_save [OF Cons.prems(1)] False, of r] get_save_same [OF Cons.prems(1)]
    show ?thesis by simp
  qed
qed simp

end

section \<open>Maps stored as JSON\<close>

text \<open>
  \<open>json.Marshal\<close> followed by \<open>json.Unmarshal\<close> into an \<open>interface{}\<close>: every number comes back
  as a \<open>float64\<close>, every map as a \<open>map[string]interface{}\<close>, every slice as an
  \<open>[]interface{}\<close>. An infinity or a NaN makes \<open>json.Marshal\<close> fail. (No code puts a
  \<open>float32\<close> into such a map.)
\<close>

fun json_norm :: "gval \<Rightarrow> gval" where
  "json_norm (VInt n) = VF64 (f64_of_int (sint n))"
| "json_norm (VInt32 n) = VF64 (f64_of_int (sint n))"
| "json_norm (VInt64 n) = VF64 (f64_of_int (sint n))"
| "json_norm (VUint n) = VF64 (f64_of_int (uint n))"
| "json_norm (VUint64 n) = VF64 (f64_of_int (uint n))"
| "json_norm (VF32 x) = VF64 x"
| "json_norm (VList vs) = VList (map json_norm vs)"
| "json_norm (VStrs ss) = VList (map VStr ss)"
| "json_norm (VMap kvs) = VMap (map (\<lambda>(k, v). (k, json_norm v)) kvs)"
| "json_norm (VStrMap kvs) = VMap (map (\<lambda>(k, s). (k, VStr s)) kvs)"
| "json_norm v = v"

fun is_finite_f64 :: "float64 \<Rightarrow> bool" where
  "is_finite_f64 (FFin _) = True"
| "is_finite_f64 _ = False"

fun json_ok :: "gval \<Rightarrow> bool" where
  "json_ok (VF32 x) = is_finite_f64 x"
| "json_ok (VF64 x) = is_finite_f64 x"
| "json_ok (VList vs) = list_all json_ok vs"
| "json_ok (VMap kvs) = list_all (\<lambda>(k, v). json_ok v) kvs"
| "json_ok v = True"

text \<open>A column written with \<open>text, _ := json.Marshal(m)\<close> and read back with
  \<open>_ = json.Unmarshal(text, &m)\<close>: when encoding fails the text is empty and the map read is
  the empty one.\<close>

definition json_column :: "gmap \<Rightarrow> gmap" where
  "json_column m = (if list_all (\<lambda>(k, v). json_ok v) m
     then map (\<lambda>(k, v). (k, json_norm v)) m else [])"

lemma json_norm_idem [simp]: "json_norm (json_norm v) = json_norm v"
  by (induction v rule: json_norm.induct) (auto simp: o_def)

lemma f64_of_int_finite:
  assumes "\<bar>n\<bar> \<le> 2 ^ 64"
  shows "is_finite_f64 (f64_of_int n)"
proof -
  have top: "rnd (2 ^ 64 :: rat) = 2 ^ 64"
    using rnd_representable_pos [of 1 64] by simp
  have "rnd (of_int n :: rat) \<le> rnd (of_int (2 ^ 64))" and "rnd (of_int (- (2 ^ 64))) \<le> rnd (of_int n :: rat)"
    using assms by (auto intro!: rnd_mono simp only: of_int_le_iff)
  then have "rnd (of_int n :: rat) \<le> 2 ^ 64" and "- (2 ^ 64) \<le> rnd (of_int n :: rat)"
    using top by (simp_all add: rnd_minus)
  moreover have "(2 ^ 64 :: rat) \<le> max_float64" by (simp add: max_float64_def)
  ultimately show ?thesis by (simp add: f64_of_int_def to_f64_def Let_def)
qed

lemma sint64_small: "\<bar>sint (w :: int64)\<bar> \<le> 2 ^ 64"
  using sint_int64_bounds [of w] by (simp add: min_int64_def max_int64_def)

lemma json_ok_norm: "json_ok v \<Longrightarrow> json_ok (json_norm v)"
proof (induction v rule: json_norm.induct)
  case (2 n)
  have "\<bar>sint n\<bar> \<le> 2 ^ 64"
    using sint_ge [of n] sint_lt [of n] by simp
  then show ?case by (simp add: f64_of_int_finite)
next
  case (4 n)
  have "\<bar>uint n\<bar> \<le> 2 ^ 64" using uint_bounded [of n] by simp
  then show ?case by (simp add: f64_of_int_finite)
next
  case (5 n)
  have "\<bar>uint n\<bar> \<le> 2 ^ 64" using uint_bounded [of n] by simp
  then show ?case by (simp add: f64_of_int_finite)
qed (auto simp: list_all_iff intro!: f64_of_int_finite sint64_small)

text \<open>Storing what was read from a column changes nothing any more.\<close>

lemma json_column_idem [simp]: "json_column (json_column m) = json_column m"
  by (auto simp: json_column_def list_all_iff json_ok_norm split: if_splits)

lemma json_column_Nil [simp]: "json_column [] = []"
  by (simp add: json_column_def)

end
