(* ===== verification/Clients.thy ===== *)
theory Clients
  imports Tables
begin

text \<open>
  Client metadata and its field paths (\<open>internal/core/domain/client.go\<close>), and the
  \<open>clients\<close> table (\<open>internal/adapters/repository/client_repo.go\<close>).
\<close>

section \<open>Metadata and field paths\<close>

record client_metadata =
  cm_ClientID :: string
  cm_OS :: string
  cm_Labels :: "(string \<times> string) list"
  cm_InnerState :: gmap
  cm_Active :: bool
  cm_LastSeenAt :: time

fun navigateMap :: "gmap \<Rightarrow> string list \<Rightarrow> go_error + gval" where
  "navigateMap m [] = Inr (VMap m)"
| "navigateMap m (p # ps) = (case map_of m p of
     None \<Rightarrow> Inl ErrUnknownField
   | Some v \<Rightarrow> if ps = [] then Inr v
       else (case v of VMap sub \<Rightarrow> navigateMap sub ps | _ \<Rightarrow> Inl ErrUnknownField))"

definition GetField :: "client_metadata \<Rightarrow> string \<Rightarrow> go_error + gval" where
  "GetField c path = (case split_on CHR ''.'' path of
     [] \<Rightarrow> Inl ErrUnknownField
   | p # ps \<Rightarrow>
       if p = ''client_id'' \<or> p = ''id'' then Inr (VStr (cm_ClientID c))
       else if p = ''os'' then Inr (VStr (cm_OS c))
       else if p = ''active'' then Inr (VBool (cm_Active c))
       else if p = ''labels'' then
         (case ps of [] \<Rightarrow> Inr (VStrMap (cm_Labels c))
          | l # _ \<Rightarrow> (case map_of (cm_Labels c) l of
              None \<Rightarrow> Inl ErrUnknownField | Some v \<Rightarrow> Inr (VStr v)))
       else if p = ''state'' \<or> p = ''inner_state'' then
         (case ps of [] \<Rightarrow> Inr (VMap (cm_InnerState c)) | _ \<Rightarrow> navigateMap (cm_InnerState c) ps)
       else Inl ErrUnknownField)"

lemma navigateMap_error: "navigateMap m ps = Inl e \<Longrightarrow> e = ErrUnknownField"
proof (induction ps arbitrary: m)
  case (Cons p ps)
  show ?case
  proof (cases "map_of m p")
    case (Some v)
    with Cons.prems Cons.IH show ?thesis by (cases "ps = []"; cases v) simp_all
  qed (use Cons.prems in simp)
qed simp

lemma GetField_error:
  assumes "GetField c path = Inl e"
  shows "e = ErrUnknownField"
proof (cases "split_on CHR ''.'' path")
  case (Cons p ps)
  show ?thesis
  proof (cases "p = ''labels''")
    case True
    with assms Cons show ?thesis by (cases ps) (auto simp: GetField_def split: option.splits)
  next
    case False
    with assms Cons navigateMap_error [of "cm_InnerState c" ps e] show ?thesis
      unfolding GetField_def by (cases ps) (simp_all split: if_split_asm)
  qed
qed simp

text \<open>The map that holds \<open>v\<close> at the end of a path of keys, beside the entries of \<open>m\<close>.\<close>

fun put_path :: "string \<Rightarrow> string list \<Rightarrow> gval \<Rightarrow> gmap \<Rightarrow> gmap" where
  "put_path k [] v m = (k, v) # m"
| "put_path k (l # ks) v m =
     (k, VMap (put_path l ks v (case map_of m k of Some (VMap sub) \<Rightarrow> sub | _ \<Rightarrow> []))) # m"

lemma navigate_put_path: "navigateMap (put_path k ks v m) (k # ks) = Inr v"
  by (induction k ks v m rule: put_path.induct) auto

lemma split_on_join:
  assumes "\<forall>k \<in> set ks. CHR ''.'' \<notin> set k" and "ks \<noteq> []"
  shows "split_on CHR ''.'' (join_with ''.'' ks) = ks"
  using assms
proof (induction ks)
  case (Cons k ks)
  then show ?case by (cases ks) (auto simp: split_on_append split_on_no_sep)
qed simp

section \<open>The clients table\<close>

record client_db =
  cd_rows :: "client_metadata list"
  cd_faults :: faults

text \<open>The columns of an inserted row, and the row read back from them.\<close>

definition client_row :: "env \<Rightarrow> client_metadata \<Rightarrow> client_metadata" where
  "client_row E c = c\<lparr>cm_InnerState := json_column (cm_InnerState c),
     cm_LastSeenAt := (if IsZero (cm_LastSeenAt c) then env_now E else cm_LastSeenAt c)\<rparr>"

definition SaveClient :: "env \<Rightarrow> client_metadata \<Rightarrow> client_db \<Rightarrow> (go_error + unit) \<times> client_db" where
  "SaveClient E c db = (case cd_faults db ''SaveClient'' of
     Some e \<Rightarrow> (Inl e, db)
   | None \<Rightarrow>
      (let row = client_row E c in
       (Inr (), db\<lparr>cd_rows := upsert cm_ClientID
          (\<lambda>old. old\<lparr>cm_OS := cm_OS row, cm_Labels := cm_Labels row,
             cm_InnerState := cm_InnerState row, cm_Active := cm_Active row,
             cm_LastSeenAt := cm_LastSeenAt row\<rparr>) row (cd_rows db)\<rparr>)))"

definition GetClientByID :: "string \<Rightarrow> client_db \<Rightarrow> go_error + client_metadata" where
  "GetClientByID cid db = (case cd_faults db ''GetClientByID'' of
     Some e \<Rightarrow> Inl e
   | None \<Rightarrow> (case lookup_row cm_ClientID cid (cd_rows db) of
       None \<Rightarrow> Inl ErrClientNotFound | Some c \<Rightarrow> Inr c))"

definition ListClients :: "client_db \<Rightarrow> go_error + client_metadata list" where
  "ListClients db = (case cd_faults db ''ListClients'' of
     Some e \<Rightarrow> Inl e | None \<Rightarrow> Inr (cd_rows db))"

definition GetClientsByIDs :: "string list \<Rightarrow> client_db \<Rightarrow> go_error + client_metadata list" where
  "GetClientsByIDs ids db =
     (if ids = [] then Inr []
      else (case cd_faults db ''GetClientsByIDs'' of
         Some e \<Rightarrow> Inl e
       | None \<Rightarrow> Inr (filter (\<lambda>c. cm_ClientID c \<in> set ids) (cd_rows db))))"

definition clients_ready :: "client_db \<Rightarrow> bool" where
  "clients_ready db \<longleftrightarrow> cd_faults db = no_faults \<and> distinct (map cm_ClientID (cd_rows db))"

lemma client_row_id [simp]: "cm_ClientID (client_row E c) = cm_ClientID c"
  by (simp add: client_row_def)

lemma SaveClient_faults [simp, frame]: "cd_faults (snd (SaveClient E c db)) = cd_faults db"
  by (simp add: SaveClient_def Let_def split: option.splits)

lemma SaveClient_distinct:
  "distinct (map cm_ClientID (cd_rows db))
     \<Longrightarrow> distinct (map cm_ClientID (cd_rows (snd (SaveClient E c db))))"
  by (auto simp: SaveClient_def Let_def intro!: distinct_upsert split: option.splits)

lemma client_same: "cm_ClientID (r :: client_metadata) = cm_ClientID row \<Longrightarrow>
   r\<lparr>cm_OS := cm_OS row, cm_Labels := cm_Labels row, cm_InnerState := cm_InnerState row,
     cm_Active := cm_Active row, cm_LastSeenAt := cm_LastSeenAt row\<rparr> = row"
  by (cases r; cases row) simp

lemma lookup_SaveClient:
  assumes "cd_faults db = no_faults"
  shows "lookup_row cm_ClientID k (cd_rows (snd (SaveClient E c db))) =
    (if k = cm_ClientID c then Some (client_row E c) else lookup_row cm_ClientID k (cd_rows db))"
  using assms
  by (auto simp: SaveClient_def Let_def lookup_row_upsert client_same
      dest!: lookup_row_SomeD split: option.splits)

interpretation client_table: keyed_table cm_ClientID
  "\<lambda>c db. snd (SaveClient E c db)"
  "\<lambda>k db. case GetClientByID k db of Inr c \<Rightarrow> Some c | Inl _ \<Rightarrow> None"
  "\<lambda>c db. client_row E c"
  clients_ready
  for E
  by unfold_locales
    (auto simp: GetClientByID_def lookup_SaveClient clients_ready_def SaveClient_distinct
      split: option.splits)

section \<open>Properties\<close>

text \<open>Saving clients and reading one back: after any sequence of saves on a healthy table a
  client saved last under its identifier is read back exactly, with its state as JSON stores it
  and a zero last-seen time replaced by the clock; a client no save names is unchanged; and the
  table still has one row per client.\<close>

theorem saved_client_is_read_back:
  assumes "clients_ready db" and "cm_ClientID c \<notin> cm_ClientID ` set later"
    and "db' = fold (\<lambda>c db. snd (SaveClient E c db)) (c # later) db"
  shows "GetClientByID (cm_ClientID c) db' = Inr (client_row E c)
    \<and> (\<forall>k. k \<notin> cm_ClientID ` set (c # later) \<longrightarrow> GetClientByID k db' = GetClientByID k db)
    \<and> distinct (map cm_ClientID (cd_rows db'))"
proof -
  have ready: "clients_ready db'"
    unfolding assms(3) using assms(1) by (rule client_table.ready_run)
  have get: "(case GetClientByID (cm_ClientID c) db' of Inr c \<Rightarrow> Some c | Inl _ \<Rightarrow> None)
      = Some (client_row E c)"
    unfolding assms(3) using client_table.get_run_last [where E = E, OF assms(1,2)] by blast
  have "GetClientByID k db' = GetClientByID k db" if "k \<notin> cm_ClientID ` set (c # later)" for k
    using client_table.get_run_other [where E = E, OF assms(1) that] ready assms(1)
    unfolding assms(3) [symmetric]
    by (auto simp: clients_ready_def GetClientByID_def split: option.splits)
  with ready get show ?thesis by (auto simp: clients_ready_def split: sum.splits)
qed

definition sample_client :: client_metadata where
  "sample_client = \<lparr>cm_ClientID = ''client-0001'', cm_OS = ''ubuntu'', cm_Labels = [(''role'', ''db'')],
     cm_InnerState = [(''config_version'', VInt 1)], cm_Active = True, cm_LastSeenAt = 0\<rparr>"

theorem saved_client_is_read_back_witness:
  "GetClientByID ''client-0001'' (snd (SaveClient \<lparr>env_now = 7, env_uuid = \<lambda>_. []\<rparr> sample_client
      \<lparr>cd_rows = [], cd_faults = no_faults\<rparr>))
    = Inr (client_row \<lparr>env_now = 7, env_uuid = \<lambda>_. []\<rparr> sample_client)"
  using saved_client_is_read_back [of "\<lparr>cd_rows = [], cd_faults = no_faults\<rparr>" sample_client "[]"
      _ "\<lparr>env_now = 7, env_uuid = \<lambda>_. []\<rparr>", OF _ _ refl]
  by (simp add: clients_ready_def sample_client_def)

text \<open>A filter path reaches exactly what it spells: whatever else the state holds, the path
  \<open>state.k1.k2...\<close> (keys without dots) reads the value stored at the end of that chain of nested
  maps, and a first key that is absent is the unknown-field error.\<close>

theorem field_path_reaches_nested_value:
  assumes "\<forall>l \<in> set (k # ks). CHR ''.'' \<notin> set l"
  shows "GetField (c\<lparr>cm_InnerState := put_path k ks v (cm_InnerState c)\<rparr>)
      (join_with ''.'' (''state'' # k # ks)) = Inr v
    \<and> (map_of (cm_InnerState c) k = None
        \<longrightarrow> GetField c (join_with ''.'' (''state'' # k # ks)) = Inl ErrUnknownField)"
proof -
  have "split_on CHR ''.'' (join_with ''.'' (''state'' # k # ks)) = ''state'' # k # ks"
    using assms by (intro split_on_join) auto
  moreover have "navigateMap (put_path k ks v (cm_InnerState c)) (k # ks) = Inr v"
    by (rule navigate_put_path)
  moreover have "map_of (cm_InnerState c) k = None
      \<Longrightarrow> navigateMap (cm_InnerState c) (k # ks) = Inl ErrUnknownField"
    by simp
  ultimately show ?thesis
    by (simp add: GetField_def del: join_with.simps navigateMap.simps)
qed

theorem field_path_reaches_nested_value_witness:
  "GetField (sample_client\<lparr>cm_InnerState :=
      [(''packages'', VMap [(''vim'', VStr ''9''), (''jq'', VStr ''1'')])]\<rparr>) ''state.packages.vim''
    = Inr (VStr ''9'')"
  using field_path_reaches_nested_value [where k = "''packages''" and ks = "[''vim'']" and v = "VStr ''9''"
      and c = "sample_client\<lparr>cm_InnerState := [(''packages'', VMap [(''jq'', VStr ''1'')])]\<rparr>"]
  by (simp add: GetField_def)

end
