(* ===== verification/Super_Client.thy ===== *)
theory Super_Client
  imports Chaos Clients "HOL-Library.Multiset"
begin

text \<open>
  The super-client: the in-memory state store (\<open>internal/adapters/storage/memory_store.go\<close>), the
  dispatch handler, the state orchestrator, the result collector and the client pool
  (\<open>dispatch.go\<close>, \<open>state_orchestrator.go\<close>, \<open>result_collector.go\<close> and \<open>client_pool.go\<close> of
  \<open>internal/core/services\<close>), and the publishing half of \<open>internal/adapters/messaging/nats_broker.go\<close>.
  The NATS connection is not part of the repository: a connection here is the list of what was
  sent and, for the \<open>n\<close>-th publication, the error it meets, if any.
\<close>

section \<open>Messages\<close>

record dispatch_message =
  dm_RunID :: string
  dm_WfID :: string
  dm_ClientID :: string
  dm_Activity :: activity

record result_message =
  rm_RunID :: string
  rm_WfID :: string
  rm_ClientID :: string
  rm_Status :: result_status
  rm_InnerState :: client_state
  rm_ErrorMsg :: string
  rm_Payload :: gmap

section \<open>The state store\<close>

type_synonym memory_store = "string \<rightharpoonup> client_state"

definition NewMemoryStore :: memory_store where
  "NewMemoryStore = Map.empty"

definition GetState :: "string \<Rightarrow> memory_store \<Rightarrow> go_error + client_state" where
  "GetState clientID m = (case m clientID of
     None \<Rightarrow> Inl (ErrWrap [] ErrInnerClientNotFound ('': '' @ clientID))
   | Some st \<Rightarrow> Inr (Clone st))"

definition UpdateState ::
  "string \<Rightarrow> client_state option \<Rightarrow> memory_store \<Rightarrow> (go_error + unit) \<times> memory_store" where
  "UpdateState clientID state m = (case state of
     None \<Rightarrow> (Inl (ErrMsg (''nil state for client '' @ clientID)), m)
   | Some st \<Rightarrow> (Inr (), m(clientID \<mapsto> Clone st)))"

definition GetAllStates :: "memory_store \<Rightarrow> (string \<rightharpoonup> client_state)" where
  "GetAllStates m = (\<lambda>k. case m k of None \<Rightarrow> None | Some v \<Rightarrow> Some (Clone v))"

text \<open>The ids come in the order \<open>iter\<close> in which the runtime ranges over the map.\<close>

definition ListClientIDs :: "(memory_store \<Rightarrow> string list) \<Rightarrow> memory_store \<Rightarrow> string list" where
  "ListClientIDs iter m = iter m"

interpretation memory: keyed_table fst
  "\<lambda>(c, st) m. snd (UpdateState c (Some st) m)"
  "\<lambda>c m. case GetState c m of Inr st \<Rightarrow> Some (c, st) | Inl _ \<Rightarrow> None"
  "\<lambda>(c, st) m. (c, st)" "\<lambda>_. True"
  by unfold_locales (auto simp: GetState_def UpdateState_def)

section \<open>The broker\<close>

datatype wire_message = WireResult result_message | WireRegister client_metadata

record broker =
  bk_attempts :: nat
  bk_fail :: "nat \<Rightarrow> go_error option"
  bk_sent :: "(string \<times> wire_message) list"
  bk_closed :: bool

text \<open>\<open>conn.Publish\<close>: a closed connection refuses.\<close>

definition Publish_conn :: "string \<Rightarrow> wire_message \<Rightarrow> broker \<Rightarrow> go_error option \<times> broker" where
  "Publish_conn subject msg b = (let b' = b\<lparr>bk_attempts := bk_attempts b + 1\<rparr> in
     if bk_closed b then (Some (ErrMsg ''nats: connection closed''), b')
     else (case bk_fail b (bk_attempts b) of
       Some e \<Rightarrow> (Some e, b')
     | None \<Rightarrow> (None, b'\<lparr>bk_sent := bk_sent b @ [(subject, msg)]\<rparr>)))"

text \<open>A value that cannot be encoded is refused before it reaches the connection.\<close>

definition PublishResult :: "result_message \<Rightarrow> broker \<Rightarrow> go_error option \<times> broker" where
  "PublishResult res b =
     (if \<not> list_all (\<lambda>(k, v). json_ok v) (rm_Payload res)
      then (Some (ErrWrap ''marshal result: '' (ErrMsg ''json: unsupported value'') []), b)
      else (case Publish_conn (''result.'' @ rm_ClientID res) (WireResult res) b of
         (Some e, b) \<Rightarrow> (Some (ErrWrap ''publish result: '' e []), b)
       | (None, b) \<Rightarrow> (None, b)))"

definition RegisterClient :: "client_metadata \<Rightarrow> broker \<Rightarrow> go_error option \<times> broker" where
  "RegisterClient c b =
     (if \<not> list_all (\<lambda>(k, v). json_ok v) (cm_InnerState c)
      then (Some (ErrWrap ''marshal registration: '' (ErrMsg ''json: unsupported value'') []), b)
      else Publish_conn ''client.register'' (WireRegister c) b)"

definition Broker_Close :: "broker \<Rightarrow> go_error option \<times> broker" where
  "Broker_Close b = (None, b\<lparr>bk_closed := True\<rparr>)"

section \<open>The dispatch handler\<close>

type_synonym 'r exec = "string \<Rightarrow> activity \<Rightarrow> client_state \<Rightarrow> 'r \<Rightarrow> execution outcome \<times> 'r"

definition ValidateDispatch :: "dispatch_message \<Rightarrow> go_error option" where
  "ValidateDispatch d =
     (if dm_RunID d = [] then Some (ErrMsg ''missing run_id'')
      else if dm_WfID d = [] then Some (ErrMsg ''missing wf_id'')
      else if dm_ClientID d = [] then Some (ErrMsg ''missing client_id'')
      else if \<not> Activity_IsValid (dm_Activity d)
        then Some (ErrWrap [] ErrInvalidActivity ('': '' @ activity_text (act_Type (dm_Activity d))))
      else None)"

definition Handle ::
  "'r exec \<Rightarrow> dispatch_message \<Rightarrow> memory_store \<Rightarrow> 'r \<Rightarrow> execution outcome \<times> 'r" where
  "Handle exec dispatch store r = (case ValidateDispatch dispatch of
     Some e \<Rightarrow> (Ret (Inl (ErrWrap ''invalid dispatch: '' e [])), r)
   | None \<Rightarrow> (case GetState (dm_ClientID dispatch) store of
       Inl e \<Rightarrow> (Ret (Inl (ErrWrap (''get state for '' @ dm_ClientID dispatch @ '': '') e [])), r)
     | Inr state \<Rightarrow> (case exec (dm_ClientID dispatch) (dm_Activity dispatch) state r of
         (Panic m, r) \<Rightarrow> (Panic m, r)
       | (Ret (Inl e), r) \<Rightarrow> (Ret (Inl (ErrWrap ''execute activity: '' e [])), r)
       | (Ret (Inr (newState, result)), r) \<Rightarrow> (Ret (Inr (newState, result)), r))))"

section \<open>The state orchestrator\<close>

definition ApplyActivityResult ::
  "string \<Rightarrow> client_state \<Rightarrow> memory_store \<Rightarrow> (go_error + unit) \<times> memory_store" where
  "ApplyActivityResult clientID newState store = (case UpdateState clientID (Some newState) store of
     (Inl e, store) \<Rightarrow> (Inl (ErrWrap ''update state: '' e []), store)
   | (Inr _, store) \<Rightarrow> (Inr (), store))"

definition ApplyDriftIfNeeded ::
  "map_order \<Rightarrow> 'r chaos_source \<Rightarrow> string \<Rightarrow> memory_store \<Rightarrow> 'r
     \<Rightarrow> (go_error + bool) outcome \<times> memory_store \<times> 'r" where
  "ApplyDriftIfNeeded iter src clientID store r = (case ShouldDriftState src r of
     (False, r) \<Rightarrow> (Ret (Inr False), store, r)
   | (True, r) \<Rightarrow> (case GetState clientID store of
       Inl e \<Rightarrow> (Ret (Inl (ErrWrap ''get state: '' e [])), store, r)
     | Inr state \<Rightarrow> (case ApplyDrift iter src state r of
         (Panic m, r) \<Rightarrow> (Panic m, store, r)
       | (Ret drifted, r) \<Rightarrow> (case UpdateState clientID (Some drifted) store of
           (Inl e, store) \<Rightarrow> (Ret (Inl (ErrWrap ''update drift state: '' e [])), store, r)
         | (Inr _, store) \<Rightarrow> (Ret (Inr True), store, r)))))"

definition CheckRecoveryFromCripple :: "client_state \<Rightarrow> client_state \<Rightarrow> activity \<Rightarrow> bool" where
  "CheckRecoveryFromCripple prevState newState a =
     (if act_Type a \<noteq> ActivityReboot then False
      else st_IsCrippled prevState \<and> \<not> st_IsCrippled newState)"

section \<open>The result collector\<close>

definition Collect ::
  "string \<Rightarrow> string \<Rightarrow> string \<Rightarrow> activity_result \<Rightarrow> client_state \<Rightarrow> result_message list
     \<Rightarrow> go_error option \<times> result_message list" where
  "Collect runID wfID clientID result state pending =
     (if runID = [] then (Some (ErrMsg ''empty run_id''), pending)
      else if wfID = [] then (Some (ErrMsg ''empty wf_id''), pending)
      else if clientID = [] then (Some (ErrMsg ''empty client_id''), pending)
      else (None, pending @ [\<lparr>rm_RunID = runID, rm_WfID = wfID, rm_ClientID = clientID,
        rm_Status = ar_Status result, rm_InnerState = state, rm_ErrorMsg = ar_ErrorMsg result,
        rm_Payload = ar_Payload result\<rparr>]))"

fun flush_loop ::
  "result_message list \<Rightarrow> broker \<Rightarrow> go_error option \<Rightarrow> result_message list
     \<Rightarrow> go_error option \<times> result_message list \<times> broker" where
  "flush_loop [] b firstErr failed = (firstErr, failed, b)"
| "flush_loop (p # ps) b firstErr failed = (case PublishResult p b of
     (Some e, b) \<Rightarrow> flush_loop ps b (if firstErr = None then Some e else firstErr) (failed @ [p])
   | (None, b) \<Rightarrow> flush_loop ps b firstErr failed)"

definition FlushResults ::
  "result_message list \<Rightarrow> broker \<Rightarrow> go_error option \<times> result_message list \<times> broker" where
  "FlushResults pending b = (let toFlush = pending; pending = [] in
     case flush_loop toFlush b None [] of (firstErr, failed, b) \<Rightarrow>
       (firstErr, (if failed \<noteq> [] then failed @ pending else pending), b))"

definition GetPendingCount :: "result_message list \<Rightarrow> nat" where
  "GetPendingCount pending = length pending"

section \<open>The client pool\<close>

record 'r pool =
  pl_store :: memory_store
  pl_broker :: broker
  pl_pending :: "result_message list"
  pl_random :: 'r
  pl_prefix :: string
  pl_clientIDs :: "string list"

text \<open>\<open>fmt.Sprintf("%s-%04d", prefix, n)\<close>.\<close>

definition pad4 :: "nat \<Rightarrow> string" where
  "pad4 n = replicate (4 - length (show_nat n)) CHR ''0'' @ show_nat n"

definition pool_client_id :: "string \<Rightarrow> nat \<Rightarrow> string" where
  "pool_client_id prefix n = prefix @ ''-'' @ pad4 n"

text \<open>A Go map as the entries \<open>json.Marshal\<close> writes: in key order.\<close>

definition sorted_entries :: "(string \<rightharpoonup> string) \<Rightarrow> (string \<times> string) list" where
  "sorted_entries m = map (\<lambda>k. (k, case m k of Some v \<Rightarrow> v | None \<Rightarrow> []))
     (sorted_list_of_set (dom m))"

fun power_text :: "power_state \<Rightarrow> string" where
  "power_text PowerStateOn = ''on''"
| "power_text PowerStateOff = ''off''"
| "power_text PowerStateRestarting = ''restarting''"

definition registration :: "string \<Rightarrow> client_state \<Rightarrow> client_metadata" where
  "registration clientID st = \<lparr>cm_ClientID = clientID, cm_OS = ''ubuntu'', cm_Labels = [],
     cm_InnerState = [(''packages'', VStrMap (sorted_entries (st_Packages st))),
       (''config_version'', VInt (st_ConfigVersion st)),
       (''power_state'', VStr (power_text (st_PowerState st)))],
     cm_Active = True, cm_LastSeenAt = 0\<rparr>"

text \<open>The loop of \<open>Initialize\<close> from index \<open>i\<close> with \<open>n\<close> clients still to make. A failed
  registration is only logged.\<close>

fun init_loop :: "nat \<Rightarrow> nat \<Rightarrow> 'r pool \<Rightarrow> (go_error + unit) \<times> 'r pool" where
  "init_loop i 0 P = (Inr (), P)"
| "init_loop i (Suc n) P =
     (let clientID = pool_client_id (pl_prefix P) (i + 1); client = NewInnerClient clientID in
      case UpdateState clientID (Some (ic_State client)) (pl_store P) of
        (Inl e, store) \<Rightarrow> (Inl (ErrWrap (''initialize client '' @ clientID @ '': '') e []),
          P\<lparr>pl_store := store\<rparr>)
      | (Inr _, store) \<Rightarrow>
          init_loop (i + 1) n (P\<lparr>pl_store := store, pl_clientIDs := pl_clientIDs P @ [clientID],
            pl_broker := snd (RegisterClient (registration clientID (ic_State client)) (pl_broker P))\<rparr>))"

definition Initialize :: "int64 \<Rightarrow> 'r pool \<Rightarrow> (go_error + unit) \<times> 'r pool" where
  "Initialize poolSize P =
     (if sint poolSize \<le> 0
      then (Inl (ErrMsg (''pool size must be positive, got '' @ show_int (sint poolSize))), P)
      else init_loop 0 (nat (sint poolSize)) (P\<lparr>pl_clientIDs := []\<rparr>))"

definition ClientIDs :: "'r pool \<Rightarrow> string list" where
  "ClientIDs P = pl_clientIDs P"

definition HandleDispatch ::
  "'r exec \<Rightarrow> dispatch_message \<Rightarrow> 'r pool \<Rightarrow> (go_error + unit) outcome \<times> 'r pool" where
  "HandleDispatch exec dispatch P = (case GetState (dm_ClientID dispatch) (pl_store P) of
     Inl e \<Rightarrow> (Ret (Inl (ErrWrap ''get state before dispatch: '' e [])), P)
   | Inr prevState \<Rightarrow> (case Handle exec dispatch (pl_store P) (pl_random P) of
       (Panic m, r) \<Rightarrow> (Panic m, P\<lparr>pl_random := r\<rparr>)
     | (Ret (Inl err), r) \<Rightarrow>
         (case Collect (dm_RunID dispatch) (dm_WfID dispatch) (dm_ClientID dispatch)
             (result_error (error_text err)) prevState (pl_pending P) of
           (_, pending) \<Rightarrow> (Ret (Inl (ErrWrap ''dispatch handle: '' err [])),
              P\<lparr>pl_random := r, pl_pending := pending\<rparr>))
     | (Ret (Inr (newState, result)), r) \<Rightarrow>
         (case ApplyActivityResult (dm_ClientID dispatch) newState (pl_store P) of
           (Inl e, store) \<Rightarrow> (Ret (Inl (ErrWrap ''apply activity result: '' e [])),
              P\<lparr>pl_random := r, pl_store := store\<rparr>)
         | (Inr _, store) \<Rightarrow>
             (case Collect (dm_RunID dispatch) (dm_WfID dispatch) (dm_ClientID dispatch)
                 result newState (pl_pending P) of
               (Some e, pending) \<Rightarrow> (Ret (Inl (ErrWrap ''collect result: '' e [])),
                  P\<lparr>pl_random := r, pl_store := store, pl_pending := pending\<rparr>)
             | (None, pending) \<Rightarrow> (Ret (Inr ()),
                  P\<lparr>pl_random := r, pl_store := store, pl_pending := pending\<rparr>)))))"

text \<open>What the \<open>select\<close> of \<open>Run\<close> takes next: the cancelled context, a message, or the closed
  channel. With no event left the loop is waiting, and \<open>None\<close> says it has not returned.\<close>

datatype run_event = CtxDone | Dispatched dispatch_message | ChannelClosed

definition Flush_pool :: "'r pool \<Rightarrow> go_error option \<times> 'r pool" where
  "Flush_pool P = (case FlushResults (pl_pending P) (pl_broker P) of
     (e, pending, b) \<Rightarrow> (e, P\<lparr>pl_pending := pending, pl_broker := b\<rparr>))"

fun run_loop ::
  "'r exec \<Rightarrow> run_event list \<Rightarrow> 'r pool \<Rightarrow> (go_error + unit) option outcome \<times> 'r pool" where
  "run_loop exec [] P = (Ret None, P)"
| "run_loop exec (CtxDone # es) P = (Ret (Some (Inr ())), snd (Flush_pool P))"
| "run_loop exec (ChannelClosed # es) P = (Ret (Some (Inr ())), P)"
| "run_loop exec (Dispatched msg # es) P = (case HandleDispatch exec msg P of
     (Panic m, P) \<Rightarrow> (Panic m, P)
   | (Ret _, P) \<Rightarrow> run_loop exec es (snd (Flush_pool P)))"

text \<open>\<open>subscribed\<close> is the outcome of \<open>SubscribeDispatch\<close>.\<close>

definition Run_pool ::
  "'r exec \<Rightarrow> go_error option \<Rightarrow> run_event list \<Rightarrow> 'r pool
     \<Rightarrow> (go_error + unit) option outcome \<times> 'r pool" where
  "Run_pool exec subscribed es P = (case subscribed of
     Some e \<Rightarrow> (Ret (Some (Inl (ErrWrap ''subscribe dispatch: '' e []))), P)
   | None \<Rightarrow> run_loop exec es P)"

definition GetClientState :: "string \<Rightarrow> 'r pool \<Rightarrow> go_error + client_state" where
  "GetClientState clientID P = GetState clientID (pl_store P)"

definition Shutdown :: "'r pool \<Rightarrow> go_error option \<times> 'r pool" where
  "Shutdown P = (let P = snd (Flush_pool P) in
     case Broker_Close (pl_broker P) of (e, b) \<Rightarrow> (e, P\<lparr>pl_broker := b\<rparr>))"

text \<open>\<open>App.Start\<close> of \<open>internal/app/app.go\<close>.\<close>

definition Start ::
  "'r exec \<Rightarrow> go_error option \<Rightarrow> int64 \<Rightarrow> run_event list \<Rightarrow> 'r pool
     \<Rightarrow> (go_error + unit) option outcome \<times> 'r pool" where
  "Start exec subscribed poolSize es P = (case Initialize poolSize P of
     (Inl e, P) \<Rightarrow> (Ret (Some (Inl (ErrWrap ''initialize pool: '' e []))), P)
   | (Inr _, P) \<Rightarrow> Run_pool exec subscribed es P)"

section \<open>What one dispatch does\<close>

text \<open>A dispatch is answered when the pool holds its client and it names its run and workflow.\<close>

definition answerable :: "memory_store \<Rightarrow> dispatch_message \<Rightarrow> bool" where
  "answerable store d \<longleftrightarrow> store (dm_ClientID d) \<noteq> None \<and> dm_RunID d \<noteq> [] \<and> dm_WfID d \<noteq> []
     \<and> dm_ClientID d \<noteq> []"

definition answers :: "result_message \<Rightarrow> dispatch_message \<Rightarrow> bool" where
  "answers m d \<longleftrightarrow> rm_RunID m = dm_RunID d \<and> rm_WfID m = dm_WfID d \<and> rm_ClientID m = dm_ClientID d"

lemma ValidateDispatch_None:
  "ValidateDispatch d = None \<longleftrightarrow> dm_RunID d \<noteq> [] \<and> dm_WfID d \<noteq> [] \<and> dm_ClientID d \<noteq> []
     \<and> Activity_IsValid (dm_Activity d)"
  by (simp add: ValidateDispatch_def)

lemma Handle_cases:
  assumes "Handle exec d store r = (out, r')"
  obtains (invalid) e where "ValidateDispatch d = Some e"
      "out = Ret (Inl (ErrWrap ''invalid dispatch: '' e []))" "r' = r"
  | (unknown) e where "GetState (dm_ClientID d) store = Inl e"
      "out = Ret (Inl (ErrWrap (''get state for '' @ dm_ClientID d @ '': '') e []))" "r' = r"
  | (executed) s x where "ValidateDispatch d = None" "store (dm_ClientID d) = Some s"
      "exec (dm_ClientID d) (dm_Activity d) s r = (x, r')"
      "out = (case x of Ret (Inl e) \<Rightarrow> Ret (Inl (ErrWrap ''execute activity: '' e [])) | _ \<Rightarrow> x)"
proof (cases "ValidateDispatch d")
  case (Some e)
  with assms show ?thesis by (intro invalid [of e]) (auto simp: Handle_def)
next
  case None
  show ?thesis
  proof (cases "store (dm_ClientID d)")
    case no_client: None
    with None assms show ?thesis
      by (intro unknown) (auto simp: Handle_def GetState_def)
  next
    case (Some s)
    obtain x r1 where "exec (dm_ClientID d) (dm_Activity d) s r = (x, r1)" by fastforce
    with None Some assms show ?thesis
      by (intro executed [of s x])
        (auto simp: Handle_def GetState_def split: outcome.splits sum.splits)
  qed
qed

text \<open>The effect of a dispatch on the pool, on every path that does not panic.\<close>

lemma HandleDispatch_effect:
  assumes "HandleDispatch exec d P = (Ret out, P')"
  shows "pl_broker P' = pl_broker P \<and> dom (pl_store P') = dom (pl_store P)
    \<and> (\<forall>c. c \<noteq> dm_ClientID d \<longrightarrow> pl_store P' c = pl_store P c)
    \<and> (if answerable (pl_store P) d then
         (\<exists>m. pl_pending P' = pl_pending P @ [m] \<and> answers m d
            \<and> pl_store P' (dm_ClientID d) = Some (rm_InnerState m)
            \<and> (out \<noteq> Inr () \<longrightarrow> rm_Status m = ResultError \<and> pl_store P' = pl_store P))
       else P' = P)"
proof (cases "pl_store P (dm_ClientID d)")
  case None
  with assms show ?thesis by (simp add: HandleDispatch_def GetState_def answerable_def)
next
  case (Some s)
  obtain x r' where h: "Handle exec d (pl_store P) (pl_random P) = (x, r')" by fastforce
  show ?thesis
  proof (cases x)
    case (Panic m)
    with assms Some h show ?thesis by (simp add: HandleDispatch_def GetState_def)
  next
    case (Ret y)
    show ?thesis
    proof (cases y)
      case (Inl e)
      with assms Some h Ret have eff: "out \<noteq> Inr ()" "P' = P\<lparr>pl_random := r', pl_pending :=
          snd (Collect (dm_RunID d) (dm_WfID d) (dm_ClientID d) (result_error (error_text e)) s
            (pl_pending P))\<rparr>"
        by (auto simp: HandleDispatch_def GetState_def split: prod.splits)
      have "\<not> answerable (pl_store P) d \<Longrightarrow> r' = pl_random P"
        using h Ret Inl Some by (cases rule: Handle_cases)
          (auto simp: answerable_def ValidateDispatch_None)
      with eff Some show ?thesis
        by (auto simp: Collect_def answers_def answerable_def result_error_def)
    next
      case (Inr tr)
      obtain t res where tr: "tr = (t, res)" by fastforce
      have "ValidateDispatch d = None"
        using h Ret Inr by (cases rule: Handle_cases) auto
      with assms Some h Ret Inr tr show ?thesis
        by (auto simp: HandleDispatch_def GetState_def ApplyActivityResult_def UpdateState_def
            Collect_def answers_def answerable_def ValidateDispatch_None split: if_splits)
    qed
  qed
qed

section \<open>What a flush does\<close>

definition result_wire :: "result_message \<Rightarrow> string \<times> wire_message" where
  "result_wire m = (''result.'' @ rm_ClientID m, WireResult m)"

definition healthy :: "broker \<Rightarrow> bool" where
  "healthy b \<longleftrightarrow> bk_fail b = (\<lambda>_. None) \<and> \<not> bk_closed b"

definition encodable :: "result_message \<Rightarrow> bool" where
  "encodable m \<longleftrightarrow> list_all (\<lambda>(k, v). json_ok v) (rm_Payload m)"

lemma PublishResult_sent:
  assumes "PublishResult m b = (e, b')"
  shows "bk_sent b' = bk_sent b @ (if e = None then [result_wire m] else [])
    \<and> bk_fail b' = bk_fail b \<and> bk_closed b' = bk_closed b
    \<and> (healthy b \<and> encodable m \<longrightarrow> e = None)"
  using assms
  by (auto simp: PublishResult_def Publish_conn_def result_wire_def healthy_def encodable_def Let_def
      split: if_splits option.splits prod.splits)

text \<open>A flush splits the queue into what was sent and what stays, both in queue order.\<close>

lemma flush_loop_effect:
  assumes "flush_loop ps b fe failed = (fe', failed', b')"
  shows "\<exists>us fs. ps \<in> shuffles us fs \<and> failed' = failed @ fs
    \<and> bk_sent b' = bk_sent b @ map result_wire us \<and> bk_fail b' = bk_fail b \<and> bk_closed b' = bk_closed b
    \<and> (fe' \<noteq> None \<longleftrightarrow> fe \<noteq> None \<or> fs \<noteq> []) \<and> (healthy b \<and> list_all encodable ps \<longrightarrow> fs = [])"
  using assms
proof (induction ps b fe failed rule: flush_loop.induct)
  case (2 p ps b fe failed)
  obtain e b1 where p: "PublishResult p b = (e, b1)" by fastforce
  note sent = PublishResult_sent [OF p]
  show ?case
  proof (cases e)
    case None
    then have "flush_loop ps b1 fe failed = (fe', failed', b')" using 2(3) p by simp
    from 2(1) [OF p [symmetric] None this] obtain us fs where
      *: "ps \<in> shuffles us fs" "failed' = failed @ fs" "bk_sent b' = bk_sent b1 @ map result_wire us"
         "bk_fail b' = bk_fail b1" "bk_closed b' = bk_closed b1" "fe' \<noteq> None \<longleftrightarrow> fe \<noteq> None \<or> fs \<noteq> []"
         "healthy b1 \<and> list_all encodable ps \<longrightarrow> fs = []"
      by (elim exE conjE)
    from * sent None show ?thesis
      by (intro exI [of _ "p # us"] exI [of _ fs])
        (auto simp: healthy_def intro: Cons_in_shuffles_leftI)
  next
    case (Some x)
    then have "flush_loop ps b1 (if fe = None then Some x else fe) (failed @ [p]) = (fe', failed', b')"
      using 2(3) p by simp
    from 2(2) [OF p [symmetric] Some this] obtain us fs where
      *: "ps \<in> shuffles us fs" "failed' = (failed @ [p]) @ fs"
         "bk_sent b' = bk_sent b1 @ map result_wire us"
         "bk_fail b' = bk_fail b1" "bk_closed b' = bk_closed b1"
         "fe' \<noteq> None \<longleftrightarrow> (if fe = None then Some x else fe) \<noteq> None \<or> fs \<noteq> []"
      by (elim exE conjE)
    from * sent Some show ?thesis
      by (intro exI [of _ us] exI [of _ "p # fs"])
        (auto intro: Cons_in_shuffles_rightI split: if_splits)
  qed
qed auto

lemma FlushResults_effect:
  assumes "FlushResults pending b = (e, pending', b')"
  shows "\<exists>us. pending \<in> shuffles us pending' \<and> bk_sent b' = bk_sent b @ map result_wire us
    \<and> bk_fail b' = bk_fail b \<and> bk_closed b' = bk_closed b \<and> (e = None \<longleftrightarrow> pending' = [])
    \<and> (healthy b \<and> list_all encodable pending \<longrightarrow> pending' = [])"
proof -
  obtain fe failed b1 where f: "flush_loop pending b None [] = (fe, failed, b1)" by (metis prod_cases3)
  with assms have "fe = e" "failed = pending'" "b1 = b'" by (auto simp: FlushResults_def Let_def split: if_splits)
  with flush_loop_effect [OF f] show ?thesis by auto
qed

section \<open>The contract of an executor\<close>

text \<open>The invariant of a pool: every device well formed, every queued result encodable.\<close>

definition states_ok :: "'r pool \<Rightarrow> bool" where
  "states_ok P \<longleftrightarrow> (\<forall>c s. pl_store P c = Some s \<longrightarrow> state_wf s) \<and> list_all encodable (pl_pending P)"

text \<open>What the pool relies on when it runs an \<open>ActivityExecutor\<close>: it does not panic, a device stays
  well formed, and the payload of a result can be encoded.\<close>

locale activity_executor =
  fixes exec :: "string \<Rightarrow> activity \<Rightarrow> client_state \<Rightarrow> 'r \<Rightarrow> execution outcome \<times> 'r"
  assumes no_panic: "\<not> panics (fst (exec c a s r))"
    and keeps_wf: "exec c a s r = (Ret (Inr (s', res)), r') \<Longrightarrow> state_wf s \<Longrightarrow> state_wf s'"
    and payload_ok: "exec c a s r = (Ret (Inr (s', res)), r')
      \<Longrightarrow> list_all (\<lambda>(k, v). json_ok v) (ar_Payload res)"
begin

lemma Handle_returns: "\<exists>x r'. Handle exec d store r = (Ret x, r')"
proof -
  obtain out r' where h: "Handle exec d store r = (out, r')" by fastforce
  then show ?thesis
  proof (cases rule: Handle_cases)
    case (executed s x)
    with no_panic [of "dm_ClientID d" "dm_Activity d" s r] have "\<not> panics x" by simp
    with executed h show ?thesis by (cases x) (auto split: sum.splits)
  qed (use h in auto)
qed

lemma HandleDispatch_returns: "\<exists>out P'. HandleDispatch exec d P = (Ret out, P')"
  using Handle_returns [of d "pl_store P" "pl_random P"]
  by (auto simp: HandleDispatch_def split: sum.splits prod.splits option.splits)

lemma HandleDispatch_keeps_ok:
  assumes "HandleDispatch exec d P = (Ret out, P')" and "states_ok P"
  shows "states_ok P'"
proof (cases "pl_store P (dm_ClientID d)")
  case None
  with assms show ?thesis by (auto simp: HandleDispatch_def GetState_def)
next
  case (Some s)
  obtain x r' where h: "Handle exec d (pl_store P) (pl_random P) = (Ret x, r')"
    using Handle_returns by blast
  show ?thesis
  proof (cases x)
    case (Inl e)
    with assms Some h show ?thesis
      by (auto simp: HandleDispatch_def GetState_def Collect_def states_ok_def encodable_def
          result_error_def split: if_splits)
  next
    case (Inr tr)
    obtain t res where tr: "tr = (t, res)" by fastforce
    from h have "exec (dm_ClientID d) (dm_Activity d) s (pl_random P) = (Ret (Inr (t, res)), r')"
      using Inr tr Some by (cases rule: Handle_cases) (auto split: outcome.splits sum.splits)
    from keeps_wf [OF this] payload_ok [OF this] assms Some h Inr tr show ?thesis
      by (auto simp: HandleDispatch_def GetState_def ApplyActivityResult_def UpdateState_def
          Collect_def states_ok_def encodable_def split: if_splits)
  qed
qed

end

lemma payload_ExecuteActivity: "list_all (\<lambda>(k, v). json_ok v) (ar_Payload (snd (ExecuteActivity a s)))"
  by (cases "act_Type a")
    (auto simp: ExecuteActivity_def execute_defs split: prod.splits)

lemma payload_StandardExecutor:
  "StandardExecutor_Execute c a s = Inr (t, res) \<Longrightarrow> list_all (\<lambda>(k, v). json_ok v) (ar_Payload res)"
  using payload_ExecuteActivity [of a s] by (auto simp: StandardExecutor_Execute_def split: if_splits)

lemma payload_ChaosExecutor:
  assumes "ChaosExecutor_Execute iter src StandardExecutor_Execute c a s r = (Ret (Inr (t, res)), r')"
  shows "list_all (\<lambda>(k, v). json_ok v) (ar_Payload res)"
  using assms
proof (cases rule: ChaosExecutor_cases)
  case (newly_crippled r1 mode)
  then show ?thesis by (cases mode) (auto simp: result_fail_def)
next
  case (drifted t res d r1)
  then show ?thesis by (cases d) (auto dest: payload_StandardExecutor)
qed (auto simp: result_fail_def result_success_def dest: payload_StandardExecutor)

text \<open>Both executors of the program keep the contract, the chaos executor for every source that
  keeps the range of \<open>Intn\<close>.\<close>

interpretation standard: activity_executor "\<lambda>c a s r. (Ret (StandardExecutor_Execute c a s), r)"
  by unfold_locales (auto intro: StandardExecutor_wf payload_StandardExecutor)

locale ranged_source =
  fixes iter :: "(string \<rightharpoonup> string) \<Rightarrow> string list" and src :: "'r chaos_source"
  assumes in_range: "source_ok src"

sublocale ranged_source \<subseteq> chaos: activity_executor
  "ChaosExecutor_Execute iter src StandardExecutor_Execute"
proof unfold_locales
  fix c a s r
  obtain out r' where run: "ChaosExecutor_Execute iter src StandardExecutor_Execute c a s r = (out, r')"
    by fastforce
  show "\<not> panics (fst (ChaosExecutor_Execute iter src StandardExecutor_Execute c a s r))"
    using ChaosExecutor_no_panic [OF in_range run] run by simp
next
  fix c a s r s' res r'
  assume run: "ChaosExecutor_Execute iter src StandardExecutor_Execute c a s r = (Ret (Inr (s', res)), r')"
  show "list_all (\<lambda>(k, v). json_ok v) (ar_Payload res)" by (rule payload_ChaosExecutor) (rule run)
  assume wf: "state_wf s"
  from run wf StandardExecutor_wf [OF _ wf] show "state_wf s'" by (rule ChaosExecutor_wf)
qed

interpretation replayed: ranged_source "\<lambda>m. sorted_list_of_set (dom m)" replay
  by unfold_locales (rule replay_ok)

section \<open>The dispatch loop\<close>

fun published_of :: "string \<times> wire_message \<Rightarrow> result_message list" where
  "published_of (subject, WireResult m) = [m]"
| "published_of (subject, WireRegister c) = []"

definition published :: "broker \<Rightarrow> result_message list" where
  "published b = concat (map published_of (bk_sent b))"

lemma published_result_wire [simp]: "concat (map (published_of \<circ> result_wire) ms) = ms"
  by (induction ms) (auto simp: result_wire_def)

lemma answerable_cong: "dom store = dom store' \<Longrightarrow> answerable store d = answerable store' d"
  by (auto simp: answerable_def domIff)

lemma Flush_pool_effect:
  assumes "Flush_pool P = (e, P')"
  shows "\<exists>us. pl_pending P \<in> shuffles us (pl_pending P')
    \<and> bk_sent (pl_broker P') = bk_sent (pl_broker P) @ map result_wire us
    \<and> bk_fail (pl_broker P') = bk_fail (pl_broker P) \<and> bk_closed (pl_broker P') = bk_closed (pl_broker P)
    \<and> (healthy (pl_broker P) \<and> list_all encodable (pl_pending P) \<longrightarrow> pl_pending P' = [])
    \<and> pl_store P' = pl_store P \<and> pl_random P' = pl_random P"
proof -
  obtain pending b where f: "FlushResults (pl_pending P) (pl_broker P) = (e, pending, b)"
    using assms by (auto simp: Flush_pool_def split: prod.splits)
  with assms have "P' = P\<lparr>pl_pending := pending, pl_broker := b\<rparr>"
    by (simp add: Flush_pool_def)
  with FlushResults_effect [OF f] show ?thesis by auto
qed

lemma published_flush:
  "pending \<in> shuffles us pending' \<Longrightarrow> bk_sent b' = bk_sent b @ map result_wire us \<Longrightarrow>
   mset (published b') + mset pending' = mset (published b) + mset pending"
  by (simp add: published_def mset_shuffles)

lemma states_ok_flush:
  assumes "Flush_pool P = (e, P')" and "states_ok P"
  shows "states_ok P'"
proof -
  obtain us where "pl_pending P \<in> shuffles us (pl_pending P')" and "pl_store P' = pl_store P"
    using Flush_pool_effect [OF assms(1)] by blast
  then have "set (pl_pending P') \<subseteq> set (pl_pending P)" using set_shuffles by fastforce
  with \<open>pl_store P' = pl_store P\<close> assms(2) show ?thesis by (auto simp: states_ok_def list_all_iff)
qed

text \<open>What a loop over messages keeps and adds; \<open>ms\<close> are the results it produced, in order.\<close>

definition loop_effect ::
  "dispatch_message list \<Rightarrow> 'r pool \<Rightarrow> 'r pool \<Rightarrow> result_message list \<Rightarrow> bool" where
  "loop_effect ds P P' ms \<longleftrightarrow>
     list_all2 answers ms (filter (answerable (pl_store P)) ds)
     \<and> dom (pl_store P') = dom (pl_store P)
     \<and> (\<forall>c. c \<notin> dm_ClientID ` set ds \<longrightarrow> pl_store P' c = pl_store P c)
     \<and> mset (published (pl_broker P')) + mset (pl_pending P')
         = mset (published (pl_broker P)) + mset (pl_pending P) + mset ms
     \<and> bk_fail (pl_broker P') = bk_fail (pl_broker P) \<and> bk_closed (pl_broker P') = bk_closed (pl_broker P)
     \<and> (healthy (pl_broker P) \<and> states_ok P \<and> pl_pending P = [] \<longrightarrow> pl_pending P' = []
         \<and> bk_sent (pl_broker P') = bk_sent (pl_broker P) @ map result_wire ms)
     \<and> (states_ok P \<longrightarrow> states_ok P')"

lemma loop_effect_Nil: "loop_effect [] P P []"
  by (simp add: loop_effect_def)

lemma loop_effect_trans:
  assumes "loop_effect ds P Q ms" and "loop_effect es Q R ns"
  shows "loop_effect (ds @ es) P R (ms @ ns)"
proof -
  have "dom (pl_store Q) = dom (pl_store P)" using assms(1) by (simp add: loop_effect_def)
  then have "filter (answerable (pl_store Q)) es = filter (answerable (pl_store P)) es"
    by (intro filter_cong refl answerable_cong)
  then have "list_all2 answers (ms @ ns) (filter (answerable (pl_store P)) (ds @ es))"
    using assms by (simp add: loop_effect_def list_all2_appendI)
  moreover have "mset (published (pl_broker R)) + mset (pl_pending R)
      = mset (published (pl_broker P)) + mset (pl_pending P) + mset (ms @ ns)"
    using assms by (simp add: loop_effect_def)
  moreover have "\<forall>c. c \<notin> dm_ClientID ` set (ds @ es) \<longrightarrow> pl_store R c = pl_store P c"
    using assms by (simp add: loop_effect_def image_Un)
  moreover have "healthy (pl_broker P) \<and> states_ok P \<and> pl_pending P = [] \<longrightarrow> pl_pending R = []
      \<and> bk_sent (pl_broker R) = bk_sent (pl_broker P) @ map result_wire (ms @ ns)"
    using assms by (simp add: loop_effect_def healthy_def)
  moreover have "states_ok P \<longrightarrow> states_ok R" using assms by (simp add: loop_effect_def)
  moreover have "dom (pl_store R) = dom (pl_store P)"
    and "bk_fail (pl_broker R) = bk_fail (pl_broker P)"
    and "bk_closed (pl_broker R) = bk_closed (pl_broker P)"
    using assms by (simp_all add: loop_effect_def)
  ultimately show ?thesis unfolding loop_effect_def by blast
qed

context activity_executor
begin

lemma one_message_effect:
  assumes "HandleDispatch exec d P = (Ret out, Q)" and "Flush_pool Q = (e, R)"
  shows "\<exists>ms. loop_effect [d] P R ms"
proof -
  note handled = HandleDispatch_effect [OF assms(1)]
  obtain us where flush: "pl_pending Q \<in> shuffles us (pl_pending R)"
    "bk_sent (pl_broker R) = bk_sent (pl_broker Q) @ map result_wire us"
    "bk_fail (pl_broker R) = bk_fail (pl_broker Q)" "bk_closed (pl_broker R) = bk_closed (pl_broker Q)"
    "healthy (pl_broker Q) \<and> list_all encodable (pl_pending Q) \<longrightarrow> pl_pending R = []"
    "pl_store R = pl_store Q"
    using Flush_pool_effect [OF assms(2)] by blast
  have ok: "states_ok P \<Longrightarrow> states_ok Q" "states_ok Q \<Longrightarrow> states_ok R"
    using HandleDispatch_keeps_ok [OF assms(1)] states_ok_flush [OF assms(2)] by blast+
  obtain ms where ms: "pl_pending Q = pl_pending P @ ms"
    "list_all2 answers ms (filter (answerable (pl_store P)) [d])"
    using handled by (cases "answerable (pl_store P) d") auto
  have quiet: "pl_pending R = [] \<and> us = ms"
    if "healthy (pl_broker P)" "states_ok P" "pl_pending P = []"
  proof -
    have "healthy (pl_broker Q)" using handled that(1) by simp
    moreover have "list_all encodable (pl_pending Q)" using ok(1) [OF that(2)] by (simp add: states_ok_def)
    ultimately have "pl_pending R = []" using flush(5) by blast
    with flush(1) ms(1) that(3) show ?thesis by simp
  qed
  have counts: "mset (published (pl_broker R)) + mset (pl_pending R)
      = mset (published (pl_broker P)) + mset (pl_pending P) + mset ms"
    using published_flush [OF flush(1,2)] ms(1) handled by simp
  have "loop_effect [d] P R ms"
    unfolding loop_effect_def
    using ms(2) counts quiet ok flush(2-4,6) handled by simp
  then show ?thesis ..
qed

lemma run_loop_effect:
  "\<exists>P' ms. run_loop exec (map Dispatched ds @ es) P = run_loop exec es P' \<and> loop_effect ds P P' ms"
proof (induction ds arbitrary: P)
  case Nil
  show ?case using loop_effect_Nil by fastforce
next
  case (Cons d ds)
  obtain out Q where h: "HandleDispatch exec d P = (Ret out, Q)"
    using HandleDispatch_returns by blast
  obtain e R where f: "Flush_pool Q = (e, R)" by fastforce
  obtain ms where ms: "loop_effect [d] P R ms" using one_message_effect [OF h f] by blast
  obtain P' ns where "run_loop exec (map Dispatched ds @ es) R = run_loop exec es P'"
    "loop_effect ds R P' ns"
    using Cons.IH by blast
  with h f loop_effect_trans [OF ms, of ds P' ns] show ?case by auto
qed

end

context ranged_source
begin

lemma contract: "activity_executor (ChaosExecutor_Execute iter src StandardExecutor_Execute)"
  by (rule chaos.activity_executor_axioms)

end

lemma chaos_executor_contract:
  "source_ok src \<Longrightarrow> activity_executor (ChaosExecutor_Execute iter src StandardExecutor_Execute)"
  by (rule ranged_source.contract) (rule ranged_source.intro)

lemma run_loop_chaos:
  assumes "source_ok src"
    and "run_loop (ChaosExecutor_Execute iter src StandardExecutor_Execute) (map Dispatched ds @ es) P
      = (out, P')"
  shows "\<exists>Q ms. loop_effect ds P Q ms
    \<and> run_loop (ChaosExecutor_Execute iter src StandardExecutor_Execute) es Q = (out, P')"
  using activity_executor.run_loop_effect [OF chaos_executor_contract [OF assms(1)],
    where ds = ds and es = es and P = P and iter1 = iter] assms(2)
  by fastforce

section \<open>Making the pool\<close>

lemma nat_of_digits_zeros: "nat_of_digits (replicate n CHR ''0'' @ s) = nat_of_digits s"
  by (induction n) (auto simp: nat_of_digits_def digit_val_def ch_def)

lemma pool_client_id_inj: "pool_client_id p m = pool_client_id p n \<Longrightarrow> m = n"
proof -
  assume "pool_client_id p m = pool_client_id p n"
  then have "nat_of_digits (pad4 m) = nat_of_digits (pad4 n)" by (simp add: pool_client_id_def)
  then show "m = n" by (simp add: pad4_def nat_of_digits_zeros)
qed

lemma UpdateState_Some [simp]: "UpdateState c (Some st) m = (Inr (), m(c \<mapsto> st))"
  by (simp add: UpdateState_def)

lemma RegisterClient_healthy:
  assumes "healthy b" and "list_all (\<lambda>(k, v). json_ok v) (cm_InnerState c)"
  shows "bk_sent (snd (RegisterClient c b)) = bk_sent b @ [(''client.register'', WireRegister c)]
    \<and> healthy (snd (RegisterClient c b))"
  using assms by (simp add: RegisterClient_def Publish_conn_def healthy_def Let_def)

definition new_client :: "string \<Rightarrow> nat \<Rightarrow> string \<times> client_state" where
  "new_client prefix n = (let c = pool_client_id prefix n in (c, ic_State (NewInnerClient c)))"

definition put_client :: "string \<times> client_state \<Rightarrow> memory_store \<Rightarrow> memory_store" where
  "put_client x m = m(fst x \<mapsto> snd x)"

lemma put_client_pair [simp]: "put_client (c, st) m = m(c \<mapsto> st)"
  by (simp add: put_client_def)

lemma init_loop_effect:
  "\<exists>P'. init_loop i n P = (Inr (), P') \<and> pl_pending P' = pl_pending P
    \<and> pl_clientIDs P' = pl_clientIDs P @ map (\<lambda>k. pool_client_id (pl_prefix P) (k + 1)) [i..<i + n]
    \<and> pl_store P' = fold put_client
        (map (\<lambda>k. new_client (pl_prefix P) (k + 1)) [i..<i + n]) (pl_store P)
    \<and> (healthy (pl_broker P) \<longrightarrow> healthy (pl_broker P') \<and> bk_sent (pl_broker P') = bk_sent (pl_broker P)
        @ map (\<lambda>k. (''client.register'', WireRegister (case_prod registration
            (new_client (pl_prefix P) (k + 1))))) [i..<i + n])"
proof (induction n arbitrary: i P)
  case (Suc n)
  let ?c = "pool_client_id (pl_prefix P) (i + 1)"
  let ?Q = "P\<lparr>pl_store := (pl_store P)(?c \<mapsto> ic_State (NewInnerClient ?c)),
    pl_clientIDs := pl_clientIDs P @ [?c],
    pl_broker := snd (RegisterClient (registration ?c (ic_State (NewInnerClient ?c))) (pl_broker P))\<rparr>"
  have step: "init_loop i (Suc n) P = init_loop (Suc i) n ?Q" by (simp add: Let_def)
  have upt: "[i..<i + Suc n] = i # [Suc i..<Suc i + n]" by (simp add: upt_rec [of i])
  have "list_all (\<lambda>(k, v). json_ok v) (cm_InnerState (registration c st))" for c st
    by (simp add: registration_def)
  note reg = RegisterClient_healthy [OF _ this]
  from Suc.IH [of "Suc i" ?Q] obtain P' where
    P': "init_loop (Suc i) n ?Q = (Inr (), P')" "pl_pending P' = pl_pending ?Q"
      "pl_clientIDs P' = pl_clientIDs ?Q @ map (\<lambda>k. pool_client_id (pl_prefix ?Q) (k + 1)) [Suc i..<Suc i + n]"
      "pl_store P' = fold put_client
        (map (\<lambda>k. new_client (pl_prefix ?Q) (k + 1)) [Suc i..<Suc i + n]) (pl_store ?Q)"
      "healthy (pl_broker ?Q) \<longrightarrow> healthy (pl_broker P') \<and> bk_sent (pl_broker P') = bk_sent (pl_broker ?Q)
        @ map (\<lambda>k. (''client.register'', WireRegister (case_prod registration
            (new_client (pl_prefix ?Q) (k + 1))))) [Suc i..<Suc i + n]"
    by (elim exE conjE)
  show ?case
    unfolding step upt
    using P' reg [of "pl_broker P"]
    by (intro exI [of _ P']) (simp add: new_client_def Let_def del: upt_Suc upt.simps)
qed simp

lemma fold_new_clients:
  assumes "k \<in> set ns"
  shows "fold put_client (map (new_client p) ns) m (pool_client_id p k)
    = Some (snd (new_client p k))"
  using assms
proof (induction ns arbitrary: m)
  case (Cons n ns)
  have other: "fold put_client (map (new_client p) ns) m (pool_client_id p k)
      = m (pool_client_id p k)" if "k \<notin> set ns" for m
    using that by (induction ns arbitrary: m)
      (auto simp: new_client_def Let_def dest!: pool_client_id_inj)
  show ?case
  proof (cases "k \<in> set ns")
    case False
    with Cons.prems have "k = n" by simp
    with other [OF False] show ?thesis by (simp add: new_client_def [of p n] Let_def)
  qed (use Cons in auto)
qed simp

section \<open>Properties\<close>

definition empty_pool :: "(float64 list \<times> int list) pool" where
  "empty_pool = \<lparr>pl_store = NewMemoryStore,
     pl_broker = \<lparr>bk_attempts = 0, bk_fail = \<lambda>_. None, bk_sent = [], bk_closed = False\<rparr>,
     pl_pending = [], pl_random = ([], []), pl_prefix = ''client'', pl_clientIDs = []\<rparr>"

definition sample_pool :: "(float64 list \<times> int list) pool" where
  "sample_pool = empty_pool\<lparr>pl_store := [''c1'' \<mapsto> fresh_state], pl_clientIDs := [''c1'']\<rparr>"

definition sample_dispatch :: dispatch_message where
  "sample_dispatch = \<lparr>dm_RunID = ''r1'', dm_WfID = ''w1'', dm_ClientID = ''c1'', dm_Activity = reboot\<rparr>"

lemma sample_pool_ok: "states_ok sample_pool" "healthy (pl_broker sample_pool)" "pl_pending sample_pool = []"
  by (simp_all add: states_ok_def sample_pool_def empty_pool_def healthy_def fresh_state_def state_wf_new)

lemma sample_answerable: "answerable (pl_store sample_pool) sample_dispatch"
  by (simp add: answerable_def sample_pool_def sample_dispatch_def)

text \<open>C8. Exactly one result per dispatch: on a healthy connection the loop processes any list of
  messages without panicking, publishes for each dispatch that names a run, a workflow and a
  client of the pool exactly one result with those identifiers, in the order of the dispatches,
  publishes nothing else, and leaves the queue empty.\<close>

theorem every_dispatch_answered_once:
  assumes "source_ok src" and "states_ok P" and "healthy (pl_broker P)" and "pl_pending P = []"
    and "run_loop (ChaosExecutor_Execute iter src StandardExecutor_Execute) (map Dispatched ds) P
      = (out, P')"
  shows "out = Ret None \<and> pl_pending P' = []
    \<and> (\<exists>ms. bk_sent (pl_broker P') = bk_sent (pl_broker P) @ map result_wire ms
        \<and> list_all2 answers ms (filter (answerable (pl_store P)) ds))"
proof -
  obtain Q ms where "loop_effect ds P Q ms"
    "run_loop (ChaosExecutor_Execute iter src StandardExecutor_Execute) [] Q = (out, P')"
    using run_loop_chaos [OF assms(1), of iter ds "[]" P out P'] assms(5) by auto
  then show ?thesis using assms(2-4) by (auto simp: loop_effect_def)
qed

theorem every_dispatch_answered_once_witness:
  "\<exists>m. bk_sent (pl_broker (snd (run_loop (ChaosExecutor_Execute (\<lambda>_. []) replay StandardExecutor_Execute)
      [Dispatched sample_dispatch] sample_pool))) = [result_wire m] \<and> answers m sample_dispatch"
proof -
  have "bk_sent (pl_broker sample_pool) = []" by (simp add: sample_pool_def empty_pool_def)
  with every_dispatch_answered_once [where ds = "[sample_dispatch]", OF replay_ok sample_pool_ok surjective_pairing]
  show ?thesis by (fastforce simp: sample_answerable list_all2_Cons2)
qed

text \<open>C9. No result is lost or duplicated while the connection fails: whatever publications the
  broker refuses and whenever, the results published so far and those still queued are together
  exactly the earlier ones and one result per answerable dispatch; cancellation only adds a last
  attempt to send them.\<close>

theorem no_result_lost_or_duplicated:
  assumes "source_ok src"
    and "es = [] \<or> es = [CtxDone] \<or> es = [ChannelClosed]"
    and "run_loop (ChaosExecutor_Execute iter src StandardExecutor_Execute) (map Dispatched ds @ es) P
      = (out, P')"
  shows "\<not> panics out \<and> (\<exists>ms. list_all2 answers ms (filter (answerable (pl_store P)) ds)
    \<and> mset (published (pl_broker P')) + mset (pl_pending P')
      = mset (published (pl_broker P)) + mset (pl_pending P) + mset ms)"
proof -
  obtain Q ms where Q: "loop_effect ds P Q ms"
    "run_loop (ChaosExecutor_Execute iter src StandardExecutor_Execute) es Q = (out, P')"
    using run_loop_chaos [OF assms(1,3)] by blast
  obtain e R where f: "Flush_pool Q = (e, R)" by fastforce
  have "mset (published (pl_broker R)) + mset (pl_pending R)
      = mset (published (pl_broker Q)) + mset (pl_pending Q)"
    using Flush_pool_effect [OF f] published_flush by blast
  with Q f assms(2) show ?thesis by (auto simp: loop_effect_def)
qed

theorem no_result_lost_or_duplicated_witness:
  "size (pl_pending (snd (run_loop (ChaosExecutor_Execute (\<lambda>_. []) replay StandardExecutor_Execute)
      [Dispatched sample_dispatch] (sample_pool\<lparr>pl_broker := (pl_broker sample_pool)\<lparr>bk_closed := True\<rparr>\<rparr>))))
   + size (published (pl_broker (snd (run_loop (ChaosExecutor_Execute (\<lambda>_. []) replay StandardExecutor_Execute)
      [Dispatched sample_dispatch] (sample_pool\<lparr>pl_broker := (pl_broker sample_pool)\<lparr>bk_closed := True\<rparr>\<rparr>))))) = 1"
proof -
  let ?P = "sample_pool\<lparr>pl_broker := (pl_broker sample_pool)\<lparr>bk_closed := True\<rparr>\<rparr>"
  let ?P' = "snd (run_loop (ChaosExecutor_Execute (\<lambda>_. []) replay StandardExecutor_Execute)
      [Dispatched sample_dispatch] ?P)"
  have ans: "answerable (pl_store ?P) sample_dispatch" using sample_answerable by simp
  have "published (pl_broker ?P) = []" "pl_pending ?P = []"
    by (simp_all add: sample_pool_def empty_pool_def published_def)
  then obtain ms where "list_all2 answers ms [sample_dispatch]"
    and "mset (published (pl_broker ?P')) + mset (pl_pending ?P') = mset ms"
    using no_result_lost_or_duplicated [where ds = "[sample_dispatch]" and es = "[]" and P = ?P,
      OF replay_ok _ surjective_pairing] ans by auto
  then have "length ms = 1" and "size (mset (published (pl_broker ?P')) + mset (pl_pending ?P')) = length ms"
    by (auto dest: list_all2_lengthD)
  then show ?thesis by simp
qed

text \<open>C29. Devices are isolated and stay consistent: a dispatch to one client changes the state of no
  other, adds and removes no device, keeps every device well formed, and the state its result
  reports is the state stored; a dispatch that returns an error has not changed the store and,
  when answered, is answered with status \<open>error\<close>.\<close>

theorem dispatch_touches_only_its_client:
  assumes "source_ok src" and "states_ok P"
    and "HandleDispatch (ChaosExecutor_Execute iter src StandardExecutor_Execute) d P = (Ret out, P')"
  shows "states_ok P' \<and> dom (pl_store P') = dom (pl_store P)
    \<and> (\<forall>c. c \<noteq> dm_ClientID d \<longrightarrow> GetClientState c P' = GetClientState c P)
    \<and> (out \<noteq> Inr () \<longrightarrow> pl_store P' = pl_store P)
    \<and> (answerable (pl_store P) d \<longrightarrow> (\<exists>m. pl_pending P' = pl_pending P @ [m] \<and> answers m d
         \<and> GetClientState (dm_ClientID d) P' = Inr (rm_InnerState m)
         \<and> (out \<noteq> Inr () \<longrightarrow> rm_Status m = ResultError)))"
proof -
  have "states_ok P'"
    using activity_executor.HandleDispatch_keeps_ok [OF chaos_executor_contract [OF assms(1)] assms(3,2)] .
  with HandleDispatch_effect [OF assms(3)] show ?thesis
    by (auto simp: GetClientState_def GetState_def split: if_splits)
qed

theorem dispatch_touches_only_its_client_witness:
  "GetClientState ''c1'' (snd (HandleDispatch (ChaosExecutor_Execute (\<lambda>_. []) replay StandardExecutor_Execute)
      (sample_dispatch\<lparr>dm_ClientID := ''c2''\<rparr>) sample_pool)) = Inr fresh_state"
proof -
  let ?exec = "ChaosExecutor_Execute (\<lambda>_. []) replay StandardExecutor_Execute"
  let ?d = "sample_dispatch\<lparr>dm_ClientID := ''c2''\<rparr>"
  obtain out P' where run: "HandleDispatch ?exec ?d sample_pool = (Ret out, P')"
    using activity_executor.HandleDispatch_returns [OF chaos_executor_contract [OF replay_ok]] by blast
  have "GetClientState ''c1'' sample_pool = Inr fresh_state"
    by (simp add: GetClientState_def GetState_def sample_pool_def)
  with dispatch_touches_only_its_client [OF replay_ok sample_pool_ok(1) run] run show ?thesis
    by (simp add: sample_dispatch_def)
qed

text \<open>Initialising a pool of \<open>n\<close> clients makes \<open>n\<close> distinct identifiers, puts the default state
  under each, and on a healthy connection registers each of them, once and in order; a size that
  is not positive is refused and changes nothing.\<close>

theorem initialize_makes_distinct_clients:
  assumes "Initialize n P = (res, P')"
  shows "(sint n \<le> 0 \<longrightarrow> (\<exists>e. res = Inl e) \<and> P' = P)
    \<and> (0 < sint n \<longrightarrow> res = Inr () \<and> length (ClientIDs P') = nat (sint n) \<and> distinct (ClientIDs P')
      \<and> (\<forall>c \<in> set (ClientIDs P'). GetClientState c P' = Inr (ic_State (NewInnerClient c)))
      \<and> (healthy (pl_broker P) \<longrightarrow> bk_sent (pl_broker P') = bk_sent (pl_broker P)
          @ map (\<lambda>c. (''client.register'', WireRegister (registration c (ic_State (NewInnerClient c)))))
              (ClientIDs P')))"
proof -
  let ?ns = "map Suc [0..<nat (sint n)]"
  have fold: "map (\<lambda>k. new_client p (k + 1)) [0..<k] = map (new_client p) (map Suc [0..<k])" for p k
    by simp
  have "res = Inr () \<and> pl_clientIDs P' = map (pool_client_id (pl_prefix P)) ?ns
      \<and> pl_store P' = fold put_client (map (new_client (pl_prefix P)) ?ns) (pl_store P)
      \<and> (healthy (pl_broker P) \<longrightarrow> bk_sent (pl_broker P') = bk_sent (pl_broker P)
        @ map (\<lambda>k. (''client.register'', WireRegister (case_prod registration (new_client (pl_prefix P) k)))) ?ns)"
    if "0 < sint n"
    using init_loop_effect [of 0 "nat (sint n)" "P\<lparr>pl_clientIDs := []\<rparr>"] assms that
    unfolding fold by (auto simp: Initialize_def o_def)
  moreover have "distinct (map (pool_client_id (pl_prefix P)) ?ns)"
    by (auto simp: distinct_map inj_on_def dest: pool_client_id_inj)
  moreover have "snd (new_client p k) = ic_State (NewInnerClient (pool_client_id p k))" for p k
    by (simp add: new_client_def Let_def)
  ultimately show ?thesis
    using assms fold_new_clients [of _ ?ns "pl_prefix P" "pl_store P"]
    by (auto simp: Initialize_def ClientIDs_def GetClientState_def GetState_def new_client_def Let_def
        split: if_splits)
qed

theorem initialize_makes_distinct_clients_witness:
  "length (ClientIDs (snd (Initialize 3 empty_pool))) = 3
   \<and> distinct (ClientIDs (snd (Initialize 3 empty_pool)))"
  using initialize_makes_distinct_clients [OF surjective_pairing, of 3 empty_pool] by simp

end
