(* ===== verification/Alerts.thy ===== *)
theory Alerts
  imports Go_Values
begin

text \<open>
  Alerts: \<open>internal/core/domain/alerts.go\<close> and the only publisher,
  \<open>internal/adapters/alert/stdout_publisher.go\<close>, whose state is the list of alerts it
  has kept (printing them is output and is left out).
\<close>

datatype alert_severity = SeverityInfo | SeverityWarning | SeverityCritical

datatype alert_kind =
    AlertLoopDetected
  | AlertClientBanned
  | AlertClientUnbanned
  | AlertCircuitOpened
  | AlertCircuitClosed
  | AlertWorkflowDeactivated
  | AlertWorkflowActivated

record alert =
  al_ID :: string
  al_Kind :: alert_kind
  al_Severity :: alert_severity
  al_Message :: string
  al_Details :: gmap
  al_Timestamp :: time

text \<open>\<open>k\<close> is the number of the uuid the call draws from the environment.\<close>

definition NewAlert :: "env \<Rightarrow> nat \<Rightarrow> alert_kind \<Rightarrow> alert_severity \<Rightarrow> string \<Rightarrow> alert" where
  "NewAlert E k kind severity message =
     \<lparr>al_ID = env_uuid E k, al_Kind = kind, al_Severity = severity, al_Message = message,
      al_Details = [], al_Timestamp = env_now E\<rparr>"

type_synonym publisher = "alert list"

text \<open>\<open>PublishAlert\<close> never fails; a nil alert is ignored.\<close>

definition PublishAlert :: "alert option \<Rightarrow> publisher \<Rightarrow> publisher" where
  "PublishAlert a pub = (case a of None \<Rightarrow> pub | Some a \<Rightarrow> pub @ [a])"

definition Snapshot :: "publisher \<Rightarrow> alert list" where
  "Snapshot pub = pub"

definition GetAlerts :: "publisher \<Rightarrow> alert list" where
  "GetAlerts pub = Snapshot pub"

lemma GetAlerts_PublishAlert [simp]: "GetAlerts (PublishAlert (Some a) pub) = GetAlerts pub @ [a]"
  by (simp add: GetAlerts_def Snapshot_def PublishAlert_def)

end
