(* ===== verification/Bans.thy ===== *)
theory Bans
  imports Alerts
begin

text \<open>
  Bans: the record, the ban manager and the loop detector of
  \<open>internal/core/domain/ban.go\<close>, and the \<open>bans\<close> table behind
  \<open>internal/adapters/repository/ban_repo.go\<close>.
\<close>

section \<open>Ban records\<close>

datatype ban_reason =
    ReasonLoopDetected | ReasonManual | ReasonAdminUnbanFail | ReasonOther string

fun ban_reason_text :: "ban_reason \<Rightarrow> string" where
  "ban_reason_text ReasonLoopDetected = ''loop_detected''"
| "ban_reason_text ReasonManual = ''manual''"
| "ban_reason_text ReasonAdminUnbanFail = ''admin_unban_failed''"
| "ban_reason_text (ReasonOther s) = s"

record ban_record =
  ban_ID :: int
  ban_ClientID :: string
  ban_WorkflowType :: string
  ban_RunIDEvidence :: string
  ban_ResultEvidence :: string
  ban_BannedAt :: time
  ban_BannedUntil :: "time option"
  ban_Reason :: ban_reason
  ban_BannedBy :: string
  ban_Active :: bool

definition BanRecord_IsActive :: "time \<Rightarrow> ban_record \<Rightarrow> bool" where
  "BanRecord_IsActive now b =
     (if \<not> ban_Active b then False
      else (case ban_BannedUntil b of None \<Rightarrow> True | Some t \<Rightarrow> now < t))"

definition BanRecord_IsPermanent :: "ban_record \<Rightarrow> bool" where
  "BanRecord_IsPermanent b \<longleftrightarrow> ban_BannedUntil b = None"

definition BanRecord_CanUnban :: "ban_record \<Rightarrow> bool" where
  "BanRecord_CanUnban b = ban_Active b"

section \<open>The ban manager\<close>

fun CanDispatchToClient :: "time \<Rightarrow> string \<Rightarrow> string \<Rightarrow> ban_record list \<Rightarrow> bool" where
  "CanDispatchToClient now clientID workflowType [] = True"
| "CanDispatchToClient now clientID workflowType (b # bans) =
     (if ban_ClientID b \<noteq> clientID then CanDispatchToClient now clientID workflowType bans
      else if ban_WorkflowType b \<noteq> '''' \<and> ban_WorkflowType b \<noteq> workflowType
        then CanDispatchToClient now clientID workflowType bans
      else if BanRecord_IsActive now b then False
      else CanDispatchToClient now clientID workflowType bans)"

definition ApplyBan ::
  "env \<Rightarrow> string \<Rightarrow> string \<Rightarrow> string \<Rightarrow> string \<Rightarrow> ban_reason \<Rightarrow> ban_record" where
  "ApplyBan E clientID workflowType runID evidence reason =
     \<lparr>ban_ID = 0, ban_ClientID = clientID, ban_WorkflowType = workflowType,
      ban_RunIDEvidence = runID, ban_ResultEvidence = evidence, ban_BannedAt = env_now E,
      ban_BannedUntil = None, ban_Reason = reason, ban_BannedBy = ''system'', ban_Active = True\<rparr>"

text \<open>A ban record covers a client and workflow type when it names the client and either the
  type or, with the empty string, every type.\<close>

definition covers :: "ban_record \<Rightarrow> string \<Rightarrow> string \<Rightarrow> bool" where
  "covers b clientID workflowType \<longleftrightarrow>
     ban_ClientID b = clientID \<and> (ban_WorkflowType b = '''' \<or> ban_WorkflowType b = workflowType)"

lemma CanDispatchToClient_iff:
  "CanDispatchToClient now c t bans \<longleftrightarrow> (\<forall>b \<in> set bans. \<not> (covers b c t \<and> BanRecord_IsActive now b))"
  by (induction bans) (auto simp: covers_def)

section \<open>Loop detection\<close>

record loop_record =
  lr_ClientID :: string
  lr_WorkflowType :: string
  lr_CurrentRunID :: string
  lr_PreviousRunID :: string
  lr_DetectedAt :: time
  lr_ResultEvidence :: string
  lr_TimeBetween :: duration

definition LoopDetectionRecord_IsValid :: "loop_record \<Rightarrow> bool" where
  "LoopDetectionRecord_IsValid r \<longleftrightarrow>
     lr_ClientID r \<noteq> '''' \<and> lr_WorkflowType r \<noteq> '''' \<and> lr_CurrentRunID r \<noteq> ''''"

text \<open>A \<open>LoopDetector\<close> is its default threshold.\<close>

definition NewLoopDetector :: "duration \<Rightarrow> duration" where
  "NewLoopDetector defaultThreshold =
     (if sint defaultThreshold \<le> 0 then 5 * Second else defaultThreshold)"

definition DetectLoop ::
  "duration \<Rightarrow> env \<Rightarrow> string \<Rightarrow> string \<Rightarrow> string \<Rightarrow> time \<Rightarrow> string \<Rightarrow> time \<Rightarrow> duration \<Rightarrow> string
     \<Rightarrow> loop_record option" where
  "DetectLoop dflt E clientID workflowType currentRunID currentRunTime prevRunID prevRunTime
      threshold evidence =
     (let threshold = (if sint threshold \<le> 0 then dflt else threshold) in
      if prevRunID = '''' \<or> prevRunID = currentRunID then None
      else if currentRunTime < prevRunTime then None
      else (let delta = Time_Sub currentRunTime prevRunTime in
        if sint threshold < sint delta then None
        else Some \<lparr>lr_ClientID = clientID, lr_WorkflowType = workflowType,
          lr_CurrentRunID = currentRunID, lr_PreviousRunID = prevRunID,
          lr_DetectedAt = env_now E, lr_ResultEvidence = evidence, lr_TimeBetween = delta\<rparr>))"

lemma DetectLoop_iff:
  assumes "0 < sint threshold" and "prevRunID \<noteq> ''''"
  shows "DetectLoop dflt E c t cur ct prevRunID pt threshold ev \<noteq> None \<longleftrightarrow>
    prevRunID \<noteq> cur \<and> pt \<le> ct \<and> min max_int64 (ct - pt) \<le> sint threshold"
  using assms sint_int64_bounds [of threshold]
  by (auto simp: DetectLoop_def Let_def sint_Time_Sub min_def max_def min_int64_def max_int64_def)

section \<open>The bans table\<close>

record ban_db =
  bd_rows :: "ban_record list"
  bd_next :: int
  bd_faults :: faults

definition SaveBan :: "env \<Rightarrow> ban_record \<Rightarrow> ban_db \<Rightarrow> (go_error + ban_record) \<times> ban_db" where
  "SaveBan E b db = (case bd_faults db ''SaveBan'' of
     Some e \<Rightarrow> (Inl e, db)
   | None \<Rightarrow>
      (let b = (if IsZero (ban_BannedAt b) then b\<lparr>ban_BannedAt := env_now E\<rparr> else b);
           row = b\<lparr>ban_ID := bd_next db\<rparr>
       in (Inr row, db\<lparr>bd_rows := bd_rows db @ [row], bd_next := bd_next db + 1\<rparr>)))"

definition GetBans :: "string \<Rightarrow> ban_db \<Rightarrow> go_error + ban_record list" where
  "GetBans clientID db = (case bd_faults db ''GetBans'' of
     Some e \<Rightarrow> Inl e
   | None \<Rightarrow> Inr (order_desc ban_BannedAt (filter (\<lambda>b. ban_ClientID b = clientID) (bd_rows db))))"

text \<open>The SQL condition \<open>active=1 AND (banned_until IS NULL OR banned_until > ?)\<close>.\<close>

definition row_active :: "time \<Rightarrow> ban_record \<Rightarrow> bool" where
  "row_active now b \<longleftrightarrow> ban_Active b \<and>
     (case ban_BannedUntil b of None \<Rightarrow> True | Some t \<Rightarrow> now < t)"

definition GetActiveBans :: "env \<Rightarrow> string \<Rightarrow> ban_db \<Rightarrow> go_error + ban_record list" where
  "GetActiveBans E clientID db = (case bd_faults db ''GetActiveBans'' of
     Some e \<Rightarrow> Inl e
   | None \<Rightarrow> Inr (filter (\<lambda>b. ban_ClientID b = clientID \<and> row_active (env_now E) b) (bd_rows db)))"

definition GetActiveBansByWorkflowType ::
  "env \<Rightarrow> string \<Rightarrow> ban_db \<Rightarrow> go_error + ban_record list" where
  "GetActiveBansByWorkflowType E workflowType db =
     (case bd_faults db ''GetActiveBansByWorkflowType'' of
       Some e \<Rightarrow> Inl e
     | None \<Rightarrow> Inr (filter (\<lambda>b. ban_WorkflowType b = workflowType \<and> row_active (env_now E) b)
         (bd_rows db)))"

text \<open>\<open>UPDATE bans SET active=0 WHERE client_id=? AND workflow_type=? AND active=1\<close>.\<close>

definition Repo_UnbanClient :: "string \<Rightarrow> string \<Rightarrow> ban_db \<Rightarrow> (go_error + unit) \<times> ban_db" where
  "Repo_UnbanClient clientID workflowType db = (case bd_faults db ''UnbanClient'' of
     Some e \<Rightarrow> (Inl e, db)
   | None \<Rightarrow>
      (let hit = (\<lambda>b. ban_ClientID b = clientID \<and> ban_WorkflowType b = workflowType \<and> ban_Active b)
       in (if filter hit (bd_rows db) = [] then Inl ErrBanNotFound else Inr (),
           db\<lparr>bd_rows := map (\<lambda>b. if hit b then b\<lparr>ban_Active := False\<rparr> else b) (bd_rows db)\<rparr>)))"

definition ListAllBans :: "ban_db \<Rightarrow> go_error + ban_record list" where
  "ListAllBans db = (case bd_faults db ''ListAllBans'' of
     Some e \<Rightarrow> Inl e
   | None \<Rightarrow> Inr (order_desc ban_BannedAt (bd_rows db)))"

text \<open>What the table says: the (client, type) pairs with a ban in force at \<open>now\<close>.\<close>

definition row_keys :: "time \<Rightarrow> ban_record list \<Rightarrow> (string \<times> string) set" where
  "row_keys now rows =
     (\<lambda>b. (ban_ClientID b, ban_WorkflowType b)) ` set (filter (row_active now) rows)"

definition table_keys :: "time \<Rightarrow> ban_db \<Rightarrow> (string \<times> string) set" where
  "table_keys now db = row_keys now (bd_rows db)"

text \<open>The bans this program writes have no expiry (\<open>ApplyBan\<close> leaves \<open>BannedUntil\<close> nil).\<close>

definition all_permanent :: "ban_db \<Rightarrow> bool" where
  "all_permanent db \<longleftrightarrow> list_all BanRecord_IsPermanent (bd_rows db)"

lemma row_active_iff: "row_active now b \<longleftrightarrow> BanRecord_IsActive now b"
  by (simp add: row_active_def BanRecord_IsActive_def)

lemma row_active_permanent: "BanRecord_IsPermanent b \<Longrightarrow> row_active now b = ban_Active b"
  by (simp add: row_active_def BanRecord_IsPermanent_def)

lemma row_keys_simps [simp]:
  "row_keys now [] = {}"
  "row_keys now (b # rows) =
     (if row_active now b then insert (ban_ClientID b, ban_WorkflowType b) else id) (row_keys now rows)"
  "row_keys now (rows @ rows') = row_keys now rows \<union> row_keys now rows'"
  by (auto simp: row_keys_def)

lemma row_active_update [simp]:
  "row_active now (b\<lparr>ban_ID := i\<rparr>) = row_active now b"
  "row_active now (b\<lparr>ban_BannedAt := t\<rparr>) = row_active now b"
  "\<not> row_active now (b\<lparr>ban_Active := False\<rparr>)"
  by (simp_all add: row_active_def)

lemma row_keys_deactivate:
  "row_keys now (map (\<lambda>b. if ban_ClientID b = c \<and> ban_WorkflowType b = t \<and> ban_Active b
     then b\<lparr>ban_Active := False\<rparr> else b) rows) = row_keys now rows - {(c, t)}"
  by (induction rows) (auto simp: row_active_def)

lemma table_keys_iff:
  "(c, t) \<in> table_keys now db \<longleftrightarrow>
     (\<exists>b \<in> set (bd_rows db). ban_ClientID b = c \<and> ban_WorkflowType b = t \<and> row_active now b)"
  by (auto simp: table_keys_def row_keys_def)

lemma table_keys_permanent:
  "all_permanent db \<Longrightarrow> table_keys now db = table_keys now' db"
  by (auto simp: table_keys_def row_keys_def all_permanent_def list_all_iff row_active_permanent)

lemma table_keys_SaveBan:
  assumes "bd_faults db ''SaveBan'' = None"
  shows "table_keys now (snd (SaveBan E b db)) =
    table_keys now db \<union> (if row_active now b then {(ban_ClientID b, ban_WorkflowType b)} else {})"
  using assms by (simp add: SaveBan_def Let_def table_keys_def)

lemma table_keys_unban:
  assumes "bd_faults db ''UnbanClient'' = None"
  shows "table_keys now (snd (Repo_UnbanClient c t db)) = table_keys now db - {(c, t)}"
  using assms by (simp add: Repo_UnbanClient_def Let_def table_keys_def row_keys_deactivate)

lemma all_permanent_SaveBan:
  "all_permanent db \<Longrightarrow> BanRecord_IsPermanent b \<Longrightarrow> all_permanent (snd (SaveBan E b db))"
  by (auto simp: all_permanent_def SaveBan_def Let_def BanRecord_IsPermanent_def split: option.splits)

lemma all_permanent_unban:
  "all_permanent db \<Longrightarrow> all_permanent (snd (Repo_UnbanClient c t db))"
  by (auto simp: all_permanent_def Repo_UnbanClient_def Let_def BanRecord_IsPermanent_def
      list_all_iff split: option.splits)

lemma faults_SaveBan [simp]: "bd_faults (snd (SaveBan E b db)) = bd_faults db"
  by (simp add: SaveBan_def Let_def split: option.splits)

lemma faults_unban [simp]: "bd_faults (snd (Repo_UnbanClient c t db)) = bd_faults db"
  by (simp add: Repo_UnbanClient_def Let_def split: option.splits)

lemma table_lookup:
  assumes "GetActiveBans E c db = Inr bans"
  shows "\<not> CanDispatchToClient (env_now E) c t bans \<longleftrightarrow>
    (c, t) \<in> table_keys (env_now E) db \<or> (c, '''') \<in> table_keys (env_now E) db"
  using assms
  by (auto simp: GetActiveBans_def CanDispatchToClient_iff covers_def table_keys_iff row_active_iff
      split: option.splits)

end
