(* ===== verification/Ban_Enforcement.thy ===== *)
theory Ban_Enforcement
  imports Bans
begin

text \<open>
  Ban enforcement: the in-memory cache of \<open>internal/adapters/enforcement/blocker.go\<close>,
  the service of \<open>internal/core/services/ban_enforcement.go\<close> that keeps it beside the
  bans table, and the dispatch filter of \<open>dispatch_filter.go\<close>. The contract of
  anything that answers "is this client banned from this type" is the locale
  \<open>ban_registry\<close>; the cache, the table and the service are its interpretations.
\<close>

section \<open>The contract: a set of banned (client, type) pairs\<close>

datatype ban_op = Ban string string | Unban string string

fun spec_step :: "ban_op \<Rightarrow> (string \<times> string) set \<Rightarrow> (string \<times> string) set" where
  "spec_step (Ban c t) K = insert (c, t) K"
| "spec_step (Unban c t) K = K - {(c, t)}"

definition spec_blocked :: "(string \<times> string) set \<Rightarrow> string \<Rightarrow> string \<Rightarrow> bool" where
  "spec_blocked K c t \<longleftrightarrow> (c, t) \<in> K \<or> (c, '''') \<in> K"

fun run_ban_op ::
  "(string \<Rightarrow> string \<Rightarrow> 's \<Rightarrow> 's) \<Rightarrow> (string \<Rightarrow> string \<Rightarrow> 's \<Rightarrow> 's) \<Rightarrow> ban_op \<Rightarrow> 's \<Rightarrow> 's" where
  "run_ban_op add remove (Ban c t) s = add c t s"
| "run_ban_op add remove (Unban c t) s = remove c t s"

locale ban_registry =
  fixes keys :: "'s \<Rightarrow> (string \<times> string) set"
    and add :: "string \<Rightarrow> string \<Rightarrow> 's \<Rightarrow> 's"
    and remove :: "string \<Rightarrow> string \<Rightarrow> 's \<Rightarrow> 's"
    and blocked :: "'s \<Rightarrow> string \<Rightarrow> string \<Rightarrow> bool"
    and invar :: "'s \<Rightarrow> bool"
  assumes blocked_iff: "invar s \<Longrightarrow> blocked s c t \<longleftrightarrow> spec_blocked (keys s) c t"
    and keys_add: "invar s \<Longrightarrow> keys (add c t s) = insert (c, t) (keys s)"
    and keys_remove: "invar s \<Longrightarrow> keys (remove c t s) = keys s - {(c, t)}"
    and invar_add: "invar s \<Longrightarrow> invar (add c t s)"
    and invar_remove: "invar s \<Longrightarrow> invar (remove c t s)"
begin

lemma step_refines:
  assumes "invar s"
  shows "invar (run_ban_op add remove x s) \<and> keys (run_ban_op add remove x s) = spec_step x (keys s)"
  using assms by (cases x) (auto simp: keys_add keys_remove invar_add invar_remove)

lemma run_refines:
  assumes "invar s"
  shows "invar (fold (run_ban_op add remove) xs s)
    \<and> keys (fold (run_ban_op add remove) xs s) = fold spec_step xs (keys s)"
  using assms by (induction xs arbitrary: s) (auto simp: step_refines)

lemma blocked_after_run:
  assumes "invar s"
  shows "blocked (fold (run_ban_op add remove) xs s) c t
    \<longleftrightarrow> spec_blocked (fold spec_step xs (keys s)) c t"
  using run_refines [OF assms, of xs] blocked_iff by simp

lemma blocked_add: "invar s \<Longrightarrow> blocked (add c t s) c t"
  by (simp add: blocked_iff invar_add keys_add spec_blocked_def)

lemma blocked_add_global: "invar s \<Longrightarrow> blocked (add c '''' s) c t"
  by (simp add: blocked_iff invar_add keys_add spec_blocked_def)

lemma not_blocked_remove:
  "invar s \<Longrightarrow> (c, '''') \<notin> keys s \<Longrightarrow> \<not> blocked (remove c t s) c t"
  by (simp add: blocked_iff invar_remove keys_remove spec_blocked_def)

lemma blocked_other_client:
  "invar s \<Longrightarrow> c' \<noteq> c \<Longrightarrow> blocked (run_ban_op add remove (Ban c t) s) c' t' = blocked s c' t'"
  "invar s \<Longrightarrow> c' \<noteq> c \<Longrightarrow> blocked (run_ban_op add remove (Unban c t) s) c' t' = blocked s c' t'"
  by (auto simp: blocked_iff invar_add invar_remove keys_add keys_remove spec_blocked_def)

end

section \<open>The in-memory cache\<close>

type_synonym blocker = "string \<rightharpoonup> string set"

definition NewInMemoryDispatchBlocker :: blocker where
  "NewInMemoryDispatchBlocker = Map.empty"

definition ShouldBlockDispatch :: "blocker \<Rightarrow> string \<Rightarrow> string \<Rightarrow> bool" where
  "ShouldBlockDispatch b clientID workflowType =
     (if (case b workflowType of Some m \<Rightarrow> clientID \<in> m | None \<Rightarrow> False) then True
      else (case b '''' of Some m \<Rightarrow> clientID \<in> m | None \<Rightarrow> False))"

definition Blocker_Add :: "time \<Rightarrow> ban_record option \<Rightarrow> blocker \<Rightarrow> blocker" where
  "Blocker_Add now ban b = (case ban of None \<Rightarrow> b | Some r \<Rightarrow>
     if \<not> BanRecord_IsActive now r then b
     else (let b' = (case b (ban_WorkflowType r) of None \<Rightarrow> b(ban_WorkflowType r \<mapsto> {}) | Some _ \<Rightarrow> b);
               m = (case b' (ban_WorkflowType r) of None \<Rightarrow> {} | Some m \<Rightarrow> m)
           in b'(ban_WorkflowType r \<mapsto> insert (ban_ClientID r) m)))"

definition Blocker_Remove :: "string \<Rightarrow> string \<Rightarrow> blocker \<Rightarrow> blocker" where
  "Blocker_Remove clientID workflowType b = (case b workflowType of
     Some m \<Rightarrow> b(workflowType \<mapsto> m - {clientID}) | None \<Rightarrow> b)"

definition blocker_keys :: "blocker \<Rightarrow> (string \<times> string) set" where
  "blocker_keys b = {(c, t). \<exists>m. b t = Some m \<and> c \<in> m}"

lemma blocker_keys_new [simp]: "blocker_keys NewInMemoryDispatchBlocker = {}"
  by (simp add: blocker_keys_def NewInMemoryDispatchBlocker_def)

lemma ShouldBlockDispatch_iff:
  "ShouldBlockDispatch b c t \<longleftrightarrow> spec_blocked (blocker_keys b) c t"
  by (auto simp: ShouldBlockDispatch_def spec_blocked_def blocker_keys_def split: option.splits)

lemma blocker_keys_Add:
  "blocker_keys (Blocker_Add now (Some r) b) = blocker_keys b \<union>
     (if BanRecord_IsActive now r then {(ban_ClientID r, ban_WorkflowType r)} else {})"
  by (auto simp: Blocker_Add_def blocker_keys_def Let_def split: option.splits if_splits)

lemma blocker_keys_Remove: "blocker_keys (Blocker_Remove c t b) = blocker_keys b - {(c, t)}"
  by (auto simp: Blocker_Remove_def blocker_keys_def split: option.splits if_splits)

lemma ApplyBan_simps [simp]:
  "ban_ClientID (ApplyBan E c t r ev rs) = c"
  "ban_WorkflowType (ApplyBan E c t r ev rs) = t"
  "BanRecord_IsActive now (ApplyBan E c t r ev rs)"
  "BanRecord_IsPermanent (ApplyBan E c t r ev rs)"
  "row_active now (ApplyBan E c t r ev rs)"
  by (simp_all add: ApplyBan_def BanRecord_IsActive_def BanRecord_IsPermanent_def row_active_def)

interpretation cache: ban_registry blocker_keys
  "\<lambda>c t. Blocker_Add (env_now E) (Some (ApplyBan E c t run ev rs))"
  Blocker_Remove ShouldBlockDispatch "\<lambda>_. True"
  for E run ev rs
  by unfold_locales (auto simp: ShouldBlockDispatch_iff blocker_keys_Add blocker_keys_Remove)

interpretation table: ban_registry "table_keys 0"
  "\<lambda>c t db. snd (SaveBan E (ApplyBan E c t run ev rs) db)"
  "\<lambda>c t db. snd (Repo_UnbanClient c t db)"
  "\<lambda>db c t. case GetActiveBans E c db of Inr bans \<Rightarrow> \<not> CanDispatchToClient (env_now E) c t bans
     | Inl _ \<Rightarrow> False"
  "\<lambda>db. all_permanent db \<and> bd_faults db = no_faults"
  for E run ev rs
proof unfold_locales
  fix db c t
  assume "all_permanent db \<and> bd_faults db = no_faults"
  moreover from this obtain bans where "GetActiveBans E c db = Inr bans"
    by (simp add: GetActiveBans_def)
  ultimately show "(case GetActiveBans E c db of Inr bans \<Rightarrow>
      \<not> CanDispatchToClient (env_now E) c t bans | Inl _ \<Rightarrow> False)
    = spec_blocked (table_keys 0 db) c t"
    using table_lookup [of E c db bans t] table_keys_permanent [of db 0 "env_now E"]
    by (simp add: spec_blocked_def)
qed (auto simp: table_keys_SaveBan table_keys_unban all_permanent_SaveBan all_permanent_unban)

section \<open>The service\<close>

text \<open>The blocker and the alert publisher may be nil.\<close>

record enforcement =
  en_bans :: ban_db
  en_blocker :: "blocker option"
  en_alerts :: "publisher option"

definition BanClient ::
  "env \<Rightarrow> string \<Rightarrow> string \<Rightarrow> string \<Rightarrow> string \<Rightarrow> ban_reason \<Rightarrow> enforcement
     \<Rightarrow> (go_error + ban_record) \<times> enforcement" where
  "BanClient E clientID workflowType runID evidence reason S =
     (let ban = ApplyBan E clientID workflowType runID evidence reason in
      case SaveBan E ban (en_bans S) of
        (Inl e, db) \<Rightarrow> (Inl e, S\<lparr>en_bans := db\<rparr>)
      | (Inr ban, db) \<Rightarrow>
          (let alert = (NewAlert E 0 AlertClientBanned SeverityCritical
                 (''client '' @ clientID @ '' banned from '' @ workflowType))
               \<lparr>al_Details := [(''client_id'', VStr clientID), (''workflow_type'', VStr workflowType),
                  (''run_id_evidence'', VStr runID), (''reason'', VStr (ban_reason_text reason))]\<rparr>
           in (Inr ban, S\<lparr>en_bans := db,
                 en_blocker := map_option (Blocker_Add (env_now E) (Some ban)) (en_blocker S),
                 en_alerts := map_option (PublishAlert (Some alert)) (en_alerts S)\<rparr>)))"

definition UnbanClient ::
  "env \<Rightarrow> string \<Rightarrow> string \<Rightarrow> string \<Rightarrow> string \<Rightarrow> enforcement \<Rightarrow> (go_error + unit) \<times> enforcement" where
  "UnbanClient E clientID workflowType adminID reason S =
     (case Repo_UnbanClient clientID workflowType (en_bans S) of
        (Inl e, db) \<Rightarrow> (Inl e, S\<lparr>en_bans := db\<rparr>)
      | (Inr _, db) \<Rightarrow>
          (let alert = (NewAlert E 0 AlertClientUnbanned SeverityInfo
                 (''client '' @ clientID @ '' unbanned from '' @ workflowType @ '' by '' @ adminID))
               \<lparr>al_Details := [(''client_id'', VStr clientID), (''workflow_type'', VStr workflowType),
                  (''admin_id'', VStr adminID), (''reason'', VStr reason)]\<rparr>
           in (Inr (), S\<lparr>en_bans := db,
                 en_blocker := map_option (Blocker_Remove clientID workflowType) (en_blocker S),
                 en_alerts := map_option (PublishAlert (Some alert)) (en_alerts S)\<rparr>)))"

definition IsBanned :: "env \<Rightarrow> enforcement \<Rightarrow> string \<Rightarrow> string \<Rightarrow> go_error + bool" where
  "IsBanned E S clientID workflowType =
     (if (case en_blocker S of Some b \<Rightarrow> ShouldBlockDispatch b clientID workflowType | None \<Rightarrow> False)
      then Inr True
      else (case GetActiveBans E clientID (en_bans S) of
        Inl e \<Rightarrow> Inl e
      | Inr bans \<Rightarrow> Inr (\<not> CanDispatchToClient (env_now E) clientID workflowType bans)))"

fun warm_loop :: "time \<Rightarrow> ban_record list \<Rightarrow> blocker \<Rightarrow> blocker" where
  "warm_loop now [] b = b"
| "warm_loop now (r # rs) b =
     warm_loop now rs (if BanRecord_IsActive now r then Blocker_Add now (Some r) b else b)"

definition WarmCache :: "env \<Rightarrow> enforcement \<Rightarrow> (go_error + unit) \<times> enforcement" where
  "WarmCache E S = (case en_blocker S of
     None \<Rightarrow> (Inr (), S)
   | Some b \<Rightarrow> (case ListAllBans (en_bans S) of
       Inl e \<Rightarrow> (Inl e, S)
     | Inr bans \<Rightarrow> (Inr (), S\<lparr>en_blocker := Some (warm_loop (env_now E) bans b)\<rparr>)))"

section \<open>The dispatch filter\<close>

text \<open>\<open>FilterDispatchList\<close>: the loop with its two result slices; the first lookup error ends it.\<close>

fun filter_loop ::
  "env \<Rightarrow> enforcement \<Rightarrow> string \<Rightarrow> string list \<Rightarrow> string list \<Rightarrow> string list
     \<Rightarrow> go_error + string list \<times> string list" where
  "filter_loop E S workflowType [] allowed filtered = Inr (allowed, filtered)"
| "filter_loop E S workflowType (cid # cids) allowed filtered =
     (case IsBanned E S cid workflowType of
        Inl e \<Rightarrow> Inl e
      | Inr blocked \<Rightarrow>
          if blocked then filter_loop E S workflowType cids allowed (filtered @ [cid])
          else filter_loop E S workflowType cids (allowed @ [cid]) filtered)"

definition FilterDispatchList ::
  "env \<Rightarrow> enforcement \<Rightarrow> string \<Rightarrow> string list \<Rightarrow> go_error + string list \<times> string list" where
  "FilterDispatchList E S workflowType clientIDs = filter_loop E S workflowType clientIDs [] []"

section \<open>The cache agrees with the table\<close>

definition cached :: "enforcement \<Rightarrow> (string \<times> string) set" where
  "cached S = (case en_blocker S of None \<Rightarrow> {} | Some b \<Rightarrow> blocker_keys b)"

definition banned_keys :: "enforcement \<Rightarrow> (string \<times> string) set" where
  "banned_keys S = table_keys 0 (en_bans S)"

text \<open>Soundness of the cache is what lookups need; a warm cache also holds every ban.\<close>

definition cache_sound :: "enforcement \<Rightarrow> bool" where
  "cache_sound S \<longleftrightarrow> all_permanent (en_bans S) \<and> cached S \<subseteq> banned_keys S"

definition cache_warm :: "enforcement \<Rightarrow> bool" where
  "cache_warm S \<longleftrightarrow> all_permanent (en_bans S) \<and> (\<exists>b. en_blocker S = Some b) \<and> cached S = banned_keys S"

definition healthy :: "enforcement \<Rightarrow> bool" where
  "healthy S \<longleftrightarrow> bd_faults (en_bans S) = no_faults"

lemma cache_warm_sound: "cache_warm S \<Longrightarrow> cache_sound S"
  by (simp add: cache_warm_def cache_sound_def)

lemma SaveBan_ok:
  assumes "SaveBan E b db = (Inr r, db')"
  shows "bd_faults db ''SaveBan'' = None \<and> ban_ClientID r = ban_ClientID b
    \<and> ban_WorkflowType r = ban_WorkflowType b \<and> BanRecord_IsActive now r = BanRecord_IsActive now b"
  using assms
  by (auto simp: SaveBan_def Let_def BanRecord_IsActive_def split: option.splits if_splits)

lemma SaveBan_error: "SaveBan E b db = (Inl e, db') \<Longrightarrow> db' = db"
  by (auto simp: SaveBan_def Let_def split: option.splits)

lemma Repo_UnbanClient_error: "Repo_UnbanClient c t db = (Inl e, db') \<Longrightarrow> db' = db"
proof -
  assume err: "Repo_UnbanClient c t db = (Inl e, db')"
  show "db' = db"
  proof (cases "bd_faults db ''UnbanClient''")
    case None
    let ?hit = "\<lambda>b. ban_ClientID b = c \<and> ban_WorkflowType b = t \<and> ban_Active b"
    from err None have "filter ?hit (bd_rows db) = []"
      by (auto simp: Repo_UnbanClient_def Let_def split: if_splits)
    then have "map (\<lambda>b. if ?hit b then b\<lparr>ban_Active := False\<rparr> else b) (bd_rows db) = bd_rows db"
      by (intro map_idI) (auto simp: filter_empty_conv)
    with err None show ?thesis by (auto simp: Repo_UnbanClient_def Let_def)
  qed (use err in \<open>simp add: Repo_UnbanClient_def\<close>)
qed

text \<open>What a ban and an unban do to the table's and the cache's keys, errors included.\<close>

lemma BanClient_cases:
  obtains (error) e where "fst (BanClient E c t run ev rs S) = Inl e"
      "snd (BanClient E c t run ev rs S) = S" "bd_faults (en_bans S) ''SaveBan'' = Some e"
  | (ok) r S' where "BanClient E c t run ev rs S = (Inr r, S')"
      "banned_keys S' = insert (c, t) (banned_keys S)"
      "cached S' = (if en_blocker S = None then {} else insert (c, t) (cached S))"
      "en_bans S' = snd (SaveBan E (ApplyBan E c t run ev rs) (en_bans S))"
proof (cases "SaveBan E (ApplyBan E c t run ev rs) (en_bans S)")
  case (Pair x db)
  show ?thesis
  proof (cases x)
    case (Inl e)
    with Pair have "db = en_bans S" by (simp add: SaveBan_error)
    moreover have "bd_faults (en_bans S) ''SaveBan'' = Some e"
      using Pair Inl by (auto simp: SaveBan_def Let_def split: option.splits)
    ultimately show ?thesis
      using Pair Inl by (intro error [of e]) (auto simp: BanClient_def)
  next
    case (Inr r)
    with Pair have r: "bd_faults (en_bans S) ''SaveBan'' = None" "ban_ClientID r = c"
      "ban_WorkflowType r = t" "\<And>now. BanRecord_IsActive now r"
      using SaveBan_ok [of E "ApplyBan E c t run ev rs" "en_bans S" r db] by auto
    have "table_keys 0 db = insert (c, t) (banned_keys S)"
      using table_keys_SaveBan [OF r(1), of 0 E "ApplyBan E c t run ev rs"] Pair
      by (simp add: banned_keys_def)
    then show ?thesis
      using Pair Inr r
      by (intro ok [of r "snd (BanClient E c t run ev rs S)"])
        (auto simp: BanClient_def Let_def banned_keys_def cached_def blocker_keys_Add split: option.splits)
  qed
qed

lemma UnbanClient_cases:
  obtains (error) e where "fst (UnbanClient E c t admin rs S) = Inl e"
      "snd (UnbanClient E c t admin rs S) = S"
  | (ok) S' where "UnbanClient E c t admin rs S = (Inr (), S')"
      "banned_keys S' = banned_keys S - {(c, t)}" "cached S' = cached S - {(c, t)}"
      "en_bans S' = snd (Repo_UnbanClient c t (en_bans S))"
proof (cases "Repo_UnbanClient c t (en_bans S)")
  case (Pair x db)
  show ?thesis
  proof (cases x)
    case (Inl e)
    with Pair have "db = en_bans S" by (simp add: Repo_UnbanClient_error)
    then show ?thesis
      using Pair Inl by (intro error [of e]) (auto simp: UnbanClient_def)
  next
    case (Inr u)
    with Pair have "bd_faults (en_bans S) ''UnbanClient'' = None"
      by (auto simp: Repo_UnbanClient_def split: option.splits)
    from table_keys_unban [OF this, of 0 c t] Pair
    have "table_keys 0 db = banned_keys S - {(c, t)}"
      by (simp add: banned_keys_def)
    then show ?thesis
      using Pair Inr
      by (intro ok [of "snd (UnbanClient E c t admin rs S)"])
        (auto simp: UnbanClient_def Let_def banned_keys_def cached_def blocker_keys_Remove split: option.splits)
  qed
qed

lemma BanClient_error:
  assumes "BanClient E c t run ev rs S = (Inl e, S')"
  shows "S' = S"
  by (rule BanClient_cases [of E c t run ev rs S]) (use assms in simp_all)

lemma UnbanClient_error:
  assumes "UnbanClient E c t admin rs S = (Inl e, S')"
  shows "S' = S"
  by (rule UnbanClient_cases [of E c t admin rs S]) (use assms in simp_all)

lemma set_ListAllBans: "ListAllBans db = Inr bans \<Longrightarrow> set bans = set (bd_rows db)"
  by (auto simp: ListAllBans_def split: option.splits)

lemma blocker_keys_warm_loop:
  "blocker_keys (warm_loop now rs b) = blocker_keys b \<union> row_keys now rs"
  by (induction rs arbitrary: b) (auto simp: blocker_keys_Add row_active_iff)

lemma row_keys_cong: "set rows = set rows' \<Longrightarrow> row_keys now rows = row_keys now rows'"
  by (simp add: row_keys_def)

lemma WarmCache_cached:
  assumes "WarmCache E S = (Inr u, S')" and "en_blocker S = Some b"
  shows "cached S' = cached S \<union> table_keys (env_now E) (en_bans S)" "en_bans S' = en_bans S"
    "en_alerts S' = en_alerts S" "\<exists>b'. en_blocker S' = Some b'"
proof -
  from assms obtain bans where bans: "ListAllBans (en_bans S) = Inr bans"
      and S': "S' = S\<lparr>en_blocker := Some (warm_loop (env_now E) bans b)\<rparr>"
    by (auto simp: WarmCache_def split: sum.splits)
  have "row_keys (env_now E) bans = table_keys (env_now E) (en_bans S)"
    unfolding table_keys_def by (rule row_keys_cong) (rule set_ListAllBans [OF bans])
  then show "cached S' = cached S \<union> table_keys (env_now E) (en_bans S)" "en_bans S' = en_bans S"
    "en_alerts S' = en_alerts S" "\<exists>b'. en_blocker S' = Some b'"
    using assms(2) by (auto simp: S' cached_def blocker_keys_warm_loop)
qed

lemma WarmCache_error: "WarmCache E S = (Inl e, S') \<Longrightarrow> S' = S"
  by (auto simp: WarmCache_def split: option.splits sum.splits)

lemma cache_sound_BanClient: "cache_sound S \<Longrightarrow> cache_sound (snd (BanClient E c t run ev rs S))"
  by (rule BanClient_cases [of E c t run ev rs S]) (auto simp: cache_sound_def all_permanent_SaveBan)

lemma cache_sound_UnbanClient: "cache_sound S \<Longrightarrow> cache_sound (snd (UnbanClient E c t admin rs S))"
  by (rule UnbanClient_cases [of E c t admin rs S]) (auto simp: cache_sound_def all_permanent_unban)

lemma cache_sound_WarmCache:
  assumes "cache_sound S"
  shows "cache_sound (snd (WarmCache E S))"
proof (cases "WarmCache E S")
  case (Pair r S')
  show ?thesis
  proof (cases r)
    case (Inl e)
    with Pair assms show ?thesis by (auto dest: WarmCache_error)
  next
    case (Inr u)
    show ?thesis
    proof (cases "en_blocker S")
      case None
      with assms show ?thesis by (simp add: WarmCache_def)
    next
      case (Some b)
      note w = WarmCache_cached [OF Pair [unfolded Inr] Some]
      show ?thesis
        using assms w table_keys_permanent [of "en_bans S" 0 "env_now E"]
        by (simp add: cache_sound_def banned_keys_def Pair)
    qed
  qed
qed

lemma IsBanned_iff:
  assumes "cache_sound S" and "IsBanned E S c t = Inr b"
  shows "b \<longleftrightarrow> spec_blocked (banned_keys S) c t"
proof (cases "case en_blocker S of Some b \<Rightarrow> ShouldBlockDispatch b c t | None \<Rightarrow> False")
  case True
  with assms(2) have "b" by (simp add: IsBanned_def)
  moreover from True have "spec_blocked (cached S) c t"
    by (auto simp: cached_def ShouldBlockDispatch_iff split: option.splits)
  ultimately show ?thesis using assms(1) by (auto simp: cache_sound_def spec_blocked_def)
next
  case False
  with assms(2) obtain bans where bans: "GetActiveBans E c (en_bans S) = Inr bans"
      and b: "b = (\<not> CanDispatchToClient (env_now E) c t bans)"
    by (auto simp: IsBanned_def split: sum.splits)
  have "table_keys (env_now E) (en_bans S) = banned_keys S"
    using assms(1) unfolding cache_sound_def banned_keys_def by (metis table_keys_permanent)
  then show ?thesis
    unfolding b table_lookup [OF bans] by (simp add: spec_blocked_def)
qed

lemma IsBanned_healthy:
  assumes "cache_sound S" and "healthy S"
  shows "IsBanned E S c t = Inr (spec_blocked (banned_keys S) c t)"
proof -
  have "\<exists>b. IsBanned E S c t = Inr b"
    using assms(2) by (auto simp: IsBanned_def GetActiveBans_def healthy_def)
  then obtain b where b: "IsBanned E S c t = Inr b" ..
  with IsBanned_iff [OF assms(1) b] show ?thesis by simp
qed

lemma healthy_BanClient [simp]: "healthy (snd (BanClient E c t run ev rs S)) = healthy S"
  by (rule BanClient_cases [of E c t run ev rs S]) (auto simp: healthy_def)

lemma healthy_UnbanClient [simp]: "healthy (snd (UnbanClient E c t admin rs S)) = healthy S"
  by (rule UnbanClient_cases [of E c t admin rs S]) (auto simp: healthy_def)

lemma banned_keys_BanClient:
  assumes "healthy S"
  shows "banned_keys (snd (BanClient E c t run ev rs S)) = insert (c, t) (banned_keys S)"
  using assms by (rule_tac BanClient_cases [of E c t run ev rs S]) (auto simp: healthy_def)

lemma banned_keys_UnbanClient:
  assumes "healthy S"
  shows "banned_keys (snd (UnbanClient E c t admin rs S)) = banned_keys S - {(c, t)}"
proof (rule UnbanClient_cases [of E c t admin rs S])
  fix e
  assume same: "snd (UnbanClient E c t admin rs S) = S"
  have "table_keys 0 (snd (Repo_UnbanClient c t (en_bans S))) = banned_keys S - {(c, t)}"
    using assms table_keys_unban [of "en_bans S" 0 c t] by (simp add: healthy_def banned_keys_def)
  moreover have "en_bans (snd (UnbanClient E c t admin rs S)) = snd (Repo_UnbanClient c t (en_bans S))"
    by (simp add: UnbanClient_def Let_def split: prod.splits sum.splits)
  ultimately show ?thesis by (simp add: banned_keys_def)
qed auto

interpretation service: ban_registry banned_keys
  "\<lambda>c t S. snd (BanClient E c t run ev rs S)"
  "\<lambda>c t S. snd (UnbanClient E c t admin why S)"
  "\<lambda>S c t. IsBanned E S c t = Inr True"
  "\<lambda>S. cache_sound S \<and> healthy S"
  for E run ev rs admin why
  by unfold_locales
    (auto simp: IsBanned_healthy banned_keys_BanClient banned_keys_UnbanClient
      cache_sound_BanClient cache_sound_UnbanClient)

section \<open>Reachable states\<close>

text \<open>
  The life of the service: bans and unbans, a warm-up of the cache, a restart with an
  empty cache, and a database whose methods start or stop failing at any time.
\<close>

inductive ban_step :: "enforcement \<Rightarrow> enforcement \<Rightarrow> bool" where
  ban: "ban_step S (snd (BanClient E c t run ev rs S))"
| unban: "ban_step S (snd (UnbanClient E c t admin why S))"
| warm: "ban_step S (snd (WarmCache E S))"
| restart: "ban_step S (S\<lparr>en_blocker := Some NewInMemoryDispatchBlocker\<rparr>)"
| db_health: "ban_step S (S\<lparr>en_bans := (en_bans S)\<lparr>bd_faults := f\<rparr>\<rparr>)"

inductive_cases ban_stepE: "ban_step S S'"

definition empty_ban_db :: ban_db where
  "empty_ban_db = \<lparr>bd_rows = [], bd_next = 1, bd_faults = no_faults\<rparr>"

definition init_enforcement :: enforcement where
  "init_enforcement = \<lparr>en_bans = empty_ban_db, en_blocker = Some NewInMemoryDispatchBlocker,
     en_alerts = Some []\<rparr>"

inductive ban_reachable :: "enforcement \<Rightarrow> bool" where
  init: "ban_reachable init_enforcement"
| step: "ban_reachable S \<Longrightarrow> ban_step S S' \<Longrightarrow> ban_reachable S'"

lemma cache_sound_init: "cache_sound init_enforcement"
  by (simp add: cache_sound_def init_enforcement_def empty_ban_db_def all_permanent_def cached_def)

lemma cache_sound_step:
  assumes "ban_step S S'" and "cache_sound S"
  shows "cache_sound S'"
  using assms(1)
proof (cases rule: ban_step.cases)
  case restart
  then show ?thesis using assms(2) by (simp add: cache_sound_def cached_def)
next
  case (db_health f)
  then show ?thesis
    using assms(2) by (simp add: cache_sound_def cached_def banned_keys_def table_keys_def all_permanent_def)
qed (simp_all add: assms(2) cache_sound_BanClient cache_sound_UnbanClient cache_sound_WarmCache)

lemma ban_reachable_sound: "ban_reachable S \<Longrightarrow> cache_sound S"
  by (induction rule: ban_reachable.induct) (auto intro: cache_sound_init cache_sound_step)

section \<open>The filter is a partition\<close>

lemma filter_loop_healthy:
  assumes "cache_sound S" and "healthy S"
  shows "filter_loop E S t ids allowed filtered =
    Inr (allowed @ filter (\<lambda>c. \<not> spec_blocked (banned_keys S) c t) ids,
         filtered @ filter (\<lambda>c. spec_blocked (banned_keys S) c t) ids)"
  by (induction ids arbitrary: allowed filtered) (auto simp: IsBanned_healthy [OF assms])

lemma filter_loop_sound:
  assumes "cache_sound S" and "filter_loop E S t ids allowed filtered = Inr (a, f)"
  shows "a = allowed @ filter (\<lambda>c. \<not> spec_blocked (banned_keys S) c t) ids
    \<and> f = filtered @ filter (\<lambda>c. spec_blocked (banned_keys S) c t) ids"
  using assms(2)
proof (induction ids arbitrary: allowed filtered)
  case (Cons c ids)
  then obtain b where b: "IsBanned E S c t = Inr b"
    by (auto split: sum.splits)
  from IsBanned_iff [OF assms(1) b] Cons.prems b show ?case
    by (auto dest!: Cons.IH split: if_splits)
qed simp

section \<open>Properties\<close>

definition sample_env :: env where
  "sample_env = \<lparr>env_now = 1000, env_uuid = (\<lambda>k. ''u'' @ show_nat k)\<rparr>"

definition one_ban :: enforcement where
  "one_ban = snd (BanClient sample_env ''c1'' ''upgrade'' ''r1'' ''ev'' ReasonLoopDetected init_enforcement)"

lemma one_ban_reachable: "ban_reachable one_ban"
  unfolding one_ban_def by (rule ban_reachable.step [OF ban_reachable.init ban_step.ban])

lemma one_ban_eval:
  "bd_faults (en_bans one_ban) = no_faults"
  "banned_keys one_ban = {(''c1'', ''upgrade'')}"
  "IsBanned sample_env one_ban ''c1'' ''upgrade'' = Inr True"
  "IsBanned sample_env one_ban ''c2'' ''upgrade'' = Inr False"
  by (simp_all add: one_ban_def init_enforcement_def empty_ban_db_def BanClient_def SaveBan_def
      ApplyBan_def Let_def sample_env_def IsZero_def banned_keys_def table_keys_def row_active_def
      IsBanned_def Blocker_Add_def ShouldBlockDispatch_def NewInMemoryDispatchBlocker_def
      BanRecord_IsActive_def GetActiveBans_def)

text \<open>C6. However the service got to its state (bans, unbans, warm-ups, restarts with an empty
  cache, and database methods that start and stop failing, in any order), an answer of
  \<open>IsBanned\<close> is what the bans table says: a ban in force on the client for that workflow
  type or for every type. The cache never adds or hides a ban.\<close>

theorem is_banned_agrees_with_table:
  assumes "ban_reachable S" and "IsBanned E S clientID workflowType = Inr b"
  shows "b \<longleftrightarrow> (\<exists>r \<in> set (bd_rows (en_bans S)).
      covers r clientID workflowType \<and> BanRecord_IsActive (env_now E) r)"
proof -
  have sound: "cache_sound S" by (rule ban_reachable_sound) (rule assms)
  then have "table_keys 0 (en_bans S) = table_keys (env_now E) (en_bans S)"
    unfolding cache_sound_def by (metis table_keys_permanent)
  with IsBanned_iff [OF sound assms(2)] show ?thesis
    by (auto simp: spec_blocked_def banned_keys_def table_keys_iff covers_def row_active_iff)
qed

theorem is_banned_agrees_with_table_witness:
  "ban_reachable one_ban \<and> IsBanned sample_env one_ban ''c1'' ''upgrade'' = Inr True
   \<and> (\<exists>r \<in> set (bd_rows (en_bans one_ban)).
        covers r ''c1'' ''upgrade'' \<and> BanRecord_IsActive (env_now sample_env) r)"
  using is_banned_agrees_with_table [OF one_ban_reachable one_ban_eval(3)] one_ban_reachable
    one_ban_eval(3) by simp

text \<open>C21. Refinement: on a healthy database, after any sequence of \<open>BanClient\<close> and
  \<open>UnbanClient\<close> calls the service answers as the abstract set of (client, type) pairs does
  after the same inserts and deletes, where the empty type covers every type.\<close>

theorem ban_service_refines_set:
  assumes "cache_sound S" and "healthy S"
  shows "IsBanned E (fold (run_ban_op (\<lambda>c t S. snd (BanClient E' c t run ev rs S))
        (\<lambda>c t S. snd (UnbanClient E' c t admin why S))) ops S) clientID workflowType
    = Inr (spec_blocked (fold spec_step ops (banned_keys S)) clientID workflowType)"
proof -
  let ?S = "fold (run_ban_op (\<lambda>c t S. snd (BanClient E' c t run ev rs S))
        (\<lambda>c t S. snd (UnbanClient E' c t admin why S))) ops S"
  have "(cache_sound ?S \<and> healthy ?S) \<and> banned_keys ?S = fold spec_step ops (banned_keys S)"
    by (rule service.run_refines) (simp add: assms)
  then show ?thesis by (simp add: IsBanned_healthy)
qed

theorem ban_service_refines_set_witness:
  "IsBanned sample_env (fold (run_ban_op
       (\<lambda>c t S. snd (BanClient sample_env c t ''r'' ''ev'' ReasonManual S))
       (\<lambda>c t S. snd (UnbanClient sample_env c t ''ops'' ''ok'' S)))
     [Ban ''c1'' ''upgrade'', Ban ''c2'' [], Unban ''c1'' ''upgrade''] init_enforcement) ''c2'' ''x''
   = Inr True"
proof -
  have "cache_sound init_enforcement" and "healthy init_enforcement"
    by (rule cache_sound_init, simp add: healthy_def init_enforcement_def empty_ban_db_def)
  from ban_service_refines_set [OF this, of sample_env sample_env "''r''" "''ev''" ReasonManual
      "''ops''" "''ok''" "[Ban ''c1'' ''upgrade'', Ban ''c2'' [], Unban ''c1'' ''upgrade'']"]
  show ?thesis by (simp add: spec_blocked_def)
qed

text \<open>The dispatch filter never lets a banned client through and drops no other: when it
  returns, the allowed list is exactly the unbanned clients and the filtered list exactly the
  banned ones, both in the order they came.\<close>

theorem filter_dispatch_list_partition:
  assumes "ban_reachable S" and "FilterDispatchList E S workflowType ids = Inr (allowed, filtered)"
  shows "allowed = filter (\<lambda>c. \<not> spec_blocked (banned_keys S) c workflowType) ids
    \<and> filtered = filter (\<lambda>c. spec_blocked (banned_keys S) c workflowType) ids"
  using filter_loop_sound [OF ban_reachable_sound [OF assms(1)], of E workflowType ids "[]" "[]"]
    assms(2) by (simp add: FilterDispatchList_def)

theorem filter_dispatch_list_partition_witness:
  "FilterDispatchList sample_env one_ban ''upgrade'' [''c1'', ''c2''] = Inr ([''c2''], [''c1''])
   \<and> [''c2''] = filter (\<lambda>c. \<not> spec_blocked (banned_keys one_ban) c ''upgrade'') [''c1'', ''c2'']"
proof -
  have run: "FilterDispatchList sample_env one_ban ''upgrade'' [''c1'', ''c2''] = Inr ([''c2''], [''c1''])"
    by (simp add: FilterDispatchList_def one_ban_eval)
  from filter_dispatch_list_partition [OF one_ban_reachable run] run show ?thesis by simp
qed

text \<open>A ban or an unban that reports an error (a database failure, or no ban to lift) has
  changed nothing: not the table, not the cache, and no alert was published.\<close>

theorem failed_ban_operations_change_nothing:
  "(BanClient E c t run ev rs S = (Inl e, S') \<longrightarrow> S' = S)
   \<and> (UnbanClient E c t admin why S = (Inl e, S') \<longrightarrow> S' = S)"
  using BanClient_error [of E c t run ev rs S e S'] UnbanClient_error [of E c t admin why S e S']
  by blast

theorem failed_ban_operations_change_nothing_witness:
  "UnbanClient sample_env ''c9'' ''upgrade'' ''ops'' ''ok'' one_ban = (Inl ErrBanNotFound, one_ban)"
proof -
  have "fst (UnbanClient sample_env ''c9'' ''upgrade'' ''ops'' ''ok'' one_ban) = Inl ErrBanNotFound"
    by (simp add: one_ban_def init_enforcement_def empty_ban_db_def BanClient_def SaveBan_def
        ApplyBan_def Let_def sample_env_def IsZero_def UnbanClient_def Repo_UnbanClient_def)
  then have run: "UnbanClient sample_env ''c9'' ''upgrade'' ''ops'' ''ok'' one_ban
      = (Inl ErrBanNotFound, snd (UnbanClient sample_env ''c9'' ''upgrade'' ''ops'' ''ok'' one_ban))"
    by (simp only: prod_eq_iff fst_conv snd_conv simp_thms)
  then have "snd (UnbanClient sample_env ''c9'' ''upgrade'' ''ops'' ''ok'' one_ban) = one_ban"
    by (rule failed_ban_operations_change_nothing [THEN conjunct2, THEN mp])
  with run show ?thesis by simp
qed

text \<open>C28. Restart: warming a fresh cache from the table makes the cache hold exactly the bans in
  force, so from then on a banned client is refused without a database read, even while the
  database fails.\<close>

theorem warm_cache_complete:
  assumes "ban_reachable S"
    and "WarmCache E (S\<lparr>en_blocker := Some NewInMemoryDispatchBlocker\<rparr>) = (Inr u, S')"
    and "spec_blocked (banned_keys S) clientID workflowType"
  shows "cache_warm S' \<and> banned_keys S' = banned_keys S
    \<and> IsBanned E' (S'\<lparr>en_bans := (en_bans S')\<lparr>bd_faults := f\<rparr>\<rparr>) clientID workflowType = Inr True"
proof -
  note w = WarmCache_cached [OF assms(2), of NewInMemoryDispatchBlocker, simplified]
  have perm: "all_permanent (en_bans S)"
    using ban_reachable_sound [OF assms(1)] by (simp add: cache_sound_def)
  have c: "cached S' = banned_keys S"
    unfolding w(1) banned_keys_def using table_keys_permanent [OF perm, of 0 "env_now E"]
    by (simp add: cached_def)
  have b: "banned_keys S' = banned_keys S" by (simp add: banned_keys_def w(2))
  from w(4) obtain bl where bl: "en_blocker S' = Some bl" ..
  with c assms(3) have "ShouldBlockDispatch bl clientID workflowType"
    by (simp add: ShouldBlockDispatch_iff cached_def)
  with perm c b w(2) bl show ?thesis by (simp add: cache_warm_def IsBanned_def)
qed

theorem warm_cache_complete_witness:
  "cache_warm (snd (WarmCache sample_env (one_ban\<lparr>en_blocker := Some NewInMemoryDispatchBlocker\<rparr>)))"
proof -
  let ?S = "one_ban\<lparr>en_blocker := Some NewInMemoryDispatchBlocker\<rparr>"
  have "fst (WarmCache sample_env ?S) = Inr ()"
    by (simp add: WarmCache_def ListAllBans_def one_ban_eval)
  then have "WarmCache sample_env ?S = (Inr (), snd (WarmCache sample_env ?S))"
    by (simp add: prod_eq_iff)
  from warm_cache_complete [OF one_ban_reachable this, of "''c1''" "''upgrade''" sample_env no_faults]
  show ?thesis by (simp add: one_ban_eval spec_blocked_def)
qed

end
