(* ===== verification/Runs.thy ===== *)
theory Runs
  imports Tables Inner_Client
begin

text \<open>
  Runs and results: \<open>internal/core/domain/run.go\<close> and \<open>result.go\<close> with their tables
  (\<open>internal/adapters/repository/run_repo.go\<close>, \<open>result_repo.go\<close>). A run also has one row of
  \<open>runs_clients\<close> per participating client; a result is stored once per run and client.
\<close>

section \<open>Runs\<close>

datatype run_state = RunPending | RunInProgress | RunCompleted | RunFailed | RunOther string

record run =
  run_RunID :: string
  run_WorkflowID :: string
  run_WorkflowType :: string
  run_TriggeredAt :: time
  run_DispatchedAt :: time
  run_ParticipatingClients :: "string list"
  run_State :: run_state
  run_Reason :: string

definition Run_IsExpired :: "duration \<Rightarrow> time \<Rightarrow> run \<Rightarrow> bool" where
  "Run_IsExpired timeout now r =
     (if IsZero (run_TriggeredAt r) then False
      else sint timeout < sint (Time_Sub now (run_TriggeredAt r)))"

definition Run_CanComplete :: "int \<Rightarrow> run \<Rightarrow> bool" where
  "Run_CanComplete results r \<longleftrightarrow> int (length (run_ParticipatingClients r)) \<le> results"

section \<open>The runs tables\<close>

record run_db =
  rd_runs :: "run list"
  rd_clients :: "(string \<times> string) list"
  rd_faults :: faults

text \<open>The error of a violated primary key; its text is the driver's.\<close>

definition unique_violation :: "string \<Rightarrow> go_error" where
  "unique_violation cols = ErrMsg (''UNIQUE constraint failed: '' @ cols)"

fun insert_run_clients ::
  "string \<Rightarrow> string list \<Rightarrow> (string \<times> string) list \<Rightarrow> go_error + (string \<times> string) list" where
  "insert_run_clients runID [] rows = Inr rows"
| "insert_run_clients runID (cid # cids) rows =
     (if (runID, cid) \<in> set rows
      then Inl (unique_violation ''runs_clients.run_id, runs_clients.client_id'')
      else insert_run_clients runID cids (rows @ [(runID, cid)]))"

text \<open>One transaction: on any error it is rolled back and the tables are as before.\<close>

definition CreateRun :: "run \<Rightarrow> run_db \<Rightarrow> (go_error + unit) \<times> run_db" where
  "CreateRun r db = (case rd_faults db ''CreateRun'' of
     Some e \<Rightarrow> (Inl e, db)
   | None \<Rightarrow>
      if run_RunID r \<in> run_RunID ` set (rd_runs db) then (Inl (unique_violation ''runs.run_id''), db)
      else (case insert_run_clients (run_RunID r) (run_ParticipatingClients r) (rd_clients db) of
         Inl e \<Rightarrow> (Inl e, db)
       | Inr rows \<Rightarrow> (Inr (), db\<lparr>rd_runs := rd_runs db @ [r], rd_clients := rows\<rparr>)))"

definition GetRun :: "string \<Rightarrow> run_db \<Rightarrow> go_error + run" where
  "GetRun runID db = (case rd_faults db ''GetRun'' of
     Some e \<Rightarrow> Inl e
   | None \<Rightarrow> (case lookup_row run_RunID runID (rd_runs db) of
       None \<Rightarrow> Inl ErrRunNotFound | Some r \<Rightarrow> Inr r))"

text \<open>Every column is taken from the argument; \<open>runs_clients\<close> is not touched.\<close>

definition UpdateRun :: "run \<Rightarrow> run_db \<Rightarrow> (go_error + unit) \<times> run_db" where
  "UpdateRun r db = (case rd_faults db ''UpdateRun'' of
     Some e \<Rightarrow> (Inl e, db)
   | None \<Rightarrow> (if run_RunID r \<notin> run_RunID ` set (rd_runs db) then Inl ErrRunNotFound else Inr (),
        db\<lparr>rd_runs := map (\<lambda>old. if run_RunID old = run_RunID r then r else old) (rd_runs db)\<rparr>))"

definition limit_or :: "int \<Rightarrow> int64 \<Rightarrow> nat" where
  "limit_or dflt limit = nat (if sint limit \<le> 0 then dflt else sint limit)"

definition ListRuns :: "string \<Rightarrow> int64 \<Rightarrow> run_db \<Rightarrow> go_error + run list" where
  "ListRuns workflowID limit db = (case rd_faults db ''ListRuns'' of
     Some e \<Rightarrow> Inl e
   | None \<Rightarrow> Inr (take (limit_or 100 limit) (order_desc run_TriggeredAt
       (filter (\<lambda>r. run_WorkflowID r = workflowID) (rd_runs db)))))"

definition ListAllRuns :: "int64 \<Rightarrow> int64 \<Rightarrow> run_db \<Rightarrow> go_error + run list" where
  "ListAllRuns limit offset db = (case rd_faults db ''ListAllRuns'' of
     Some e \<Rightarrow> Inl e
   | None \<Rightarrow> (let offset = (if sint offset < 0 then 0 else nat (sint offset)) in
       Inr (take (limit_or 50 limit) (drop offset (order_desc run_TriggeredAt (rd_runs db))))))"

definition ListRunsByWorkflowType :: "string \<Rightarrow> int64 \<Rightarrow> run_db \<Rightarrow> go_error + run list" where
  "ListRunsByWorkflowType workflowType limit db = (case rd_faults db ''ListRunsByWorkflowType'' of
     Some e \<Rightarrow> Inl e
   | None \<Rightarrow> Inr (take (limit_or 100 limit) (order_desc run_TriggeredAt
       (filter (\<lambda>r. run_WorkflowType r = workflowType) (rd_runs db)))))"

definition earlier_run :: "string \<Rightarrow> string \<Rightarrow> string \<Rightarrow> time \<Rightarrow> run_db \<Rightarrow> run \<Rightarrow> bool" where
  "earlier_run clientID workflowType currentRunID before db r \<longleftrightarrow>
     (run_RunID r, clientID) \<in> set (rd_clients db) \<and> run_WorkflowType r = workflowType
     \<and> run_RunID r \<noteq> currentRunID \<and> run_TriggeredAt r \<le> before"

definition GetPreviousRun ::
  "string \<Rightarrow> string \<Rightarrow> string \<Rightarrow> time \<Rightarrow> run_db \<Rightarrow> go_error + run" where
  "GetPreviousRun clientID workflowType currentRunID before db =
     (case rd_faults db ''GetPreviousRun'' of
       Some e \<Rightarrow> Inl e
     | None \<Rightarrow> (case order_desc run_TriggeredAt
           (filter (earlier_run clientID workflowType currentRunID before db) (rd_runs db)) of
         [] \<Rightarrow> Inl ErrRunNotFound | r # _ \<Rightarrow> Inr r))"

section \<open>Results\<close>

record result =
  res_RunID :: string
  res_WorkflowID :: string
  res_ClientID :: string
  res_Status :: result_status
  res_InnerState :: gmap
  res_ErrorMsg :: string
  res_Payload :: gmap
  res_ReceivedAt :: time

definition Result_IsValid :: "result \<Rightarrow> bool" where
  "Result_IsValid r =
     (if res_RunID r = [] \<or> res_ClientID r = [] \<or> res_WorkflowID r = [] then False
      else if \<not> ResultStatus_IsValid (res_Status r) then False
      else True)"

section \<open>The results table\<close>

record result_row =
  rr_result :: result
  rr_WorkflowType :: string

record result_db =
  sd_rows :: "result_row list"
  sd_faults :: faults

definition result_key :: "result_row \<Rightarrow> string \<times> string" where
  "result_key row = (res_RunID (rr_result row), res_ClientID (rr_result row))"

text \<open>A result as it is read back from its row.\<close>

definition stored_result :: "result \<Rightarrow> result" where
  "stored_result r = r\<lparr>res_InnerState := json_column (res_InnerState r),
     res_Payload := json_column (res_Payload r)\<rparr>"

text \<open>\<open>INSERT ... ON CONFLICT(run_id,client_id) DO NOTHING\<close>.\<close>

definition insert_result :: "result \<Rightarrow> string \<Rightarrow> result_row list \<Rightarrow> result_row list" where
  "insert_result r workflowType rows =
     (let row = \<lparr>rr_result = stored_result r, rr_WorkflowType = workflowType\<rparr> in
      if result_key row \<in> result_key ` set rows then rows else rows @ [row])"

definition SaveResult :: "result \<Rightarrow> result_db \<Rightarrow> (go_error + unit) \<times> result_db" where
  "SaveResult r db = (case sd_faults db ''SaveResult'' of
     Some e \<Rightarrow> (Inl e, db)
   | None \<Rightarrow> (Inr (), db\<lparr>sd_rows := insert_result r [] (sd_rows db)\<rparr>))"

definition SaveResultWithType :: "result \<Rightarrow> string \<Rightarrow> result_db \<Rightarrow> (go_error + unit) \<times> result_db" where
  "SaveResultWithType r workflowType db = (case sd_faults db ''SaveResultWithType'' of
     Some e \<Rightarrow> (Inl e, db)
   | None \<Rightarrow> (Inr (), db\<lparr>sd_rows := insert_result r workflowType (sd_rows db)\<rparr>))"

definition GetResult :: "string \<Rightarrow> string \<Rightarrow> result_db \<Rightarrow> go_error + result" where
  "GetResult runID clientID db = (case sd_faults db ''GetResult'' of
     Some e \<Rightarrow> Inl e
   | None \<Rightarrow> (case lookup_row result_key (runID, clientID) (sd_rows db) of
       None \<Rightarrow> Inl (ErrMsg ''result not found'') | Some row \<Rightarrow> Inr (rr_result row)))"

text \<open>SQLite leaves the order of the rows open; here it is the order of insertion.\<close>

definition GetRunResults :: "string \<Rightarrow> result_db \<Rightarrow> go_error + result list" where
  "GetRunResults runID db = (case sd_faults db ''GetRunResults'' of
     Some e \<Rightarrow> Inl e
   | None \<Rightarrow> Inr (map rr_result (filter (\<lambda>row. res_RunID (rr_result row) = runID) (sd_rows db))))"

definition ListClientResults :: "string \<Rightarrow> string \<Rightarrow> int64 \<Rightarrow> result_db \<Rightarrow> go_error + result list" where
  "ListClientResults clientID workflowType limit db = (case sd_faults db ''ListClientResults'' of
     Some e \<Rightarrow> Inl e
   | None \<Rightarrow> Inr (take (limit_or 100 limit) (order_desc res_ReceivedAt (map rr_result
       (filter (\<lambda>row. res_ClientID (rr_result row) = clientID \<and> rr_WorkflowType row = workflowType)
         (sd_rows db))))))"

section \<open>Facts\<close>

lemma insert_run_clients_Inr:
  "insert_run_clients runID cids rows = Inr rows' \<longleftrightarrow>
     distinct cids \<and> (\<forall>c \<in> set cids. (runID, c) \<notin> set rows) \<and> rows' = rows @ map (Pair runID) cids"
  by (induction cids arbitrary: rows) auto

lemma insert_run_clients_InlD:
  assumes "insert_run_clients runID cids rows = Inl e" and "\<And>c. (runID, c) \<notin> set rows"
  shows "\<not> distinct cids"
  using assms insert_run_clients_Inr [of runID cids rows "rows @ map (Pair runID) cids"] by auto

text \<open>What every operation keeps: one row per run, and \<open>runs_clients\<close> holding exactly the
  participants of the runs as they were created.\<close>

definition runs_ok :: "run_db \<Rightarrow> bool" where
  "runs_ok db \<longleftrightarrow> distinct (map run_RunID (rd_runs db)) \<and> distinct (rd_clients db)
     \<and> (\<forall>(k, c) \<in> set (rd_clients db). k \<in> run_RunID ` set (rd_runs db))"

lemma CreateRun_cases:
  assumes "CreateRun r db = (res, db')"
  obtains (failed) e where "res = Inl e" "db' = db"
  | (created) "res = Inr ()" "run_RunID r \<notin> run_RunID ` set (rd_runs db)"
      "distinct (run_ParticipatingClients r)"
      "\<forall>c \<in> set (run_ParticipatingClients r). (run_RunID r, c) \<notin> set (rd_clients db)"
      "db' = db\<lparr>rd_runs := rd_runs db @ [r],
         rd_clients := rd_clients db @ map (Pair (run_RunID r)) (run_ParticipatingClients r)\<rparr>"
proof (cases "fst (CreateRun r db)")
  case (Inl e)
  with assms show ?thesis
    by (intro failed [of e]) (auto simp: CreateRun_def split: option.splits if_splits sum.splits)
next
  case (Inr u)
  with assms show ?thesis
    by (intro created)
      (auto simp: CreateRun_def insert_run_clients_Inr split: option.splits if_splits sum.splits)
qed

lemma CreateRun_ok: "CreateRun r db = (res, db') \<Longrightarrow> runs_ok db \<Longrightarrow> runs_ok db'"
  by (elim CreateRun_cases) (auto simp: runs_ok_def distinct_map inj_on_def)

text \<open>A fresh identifier and distinct clients on a healthy database: nothing is in the way.\<close>

lemma CreateRun_fresh:
  assumes "rd_faults db = no_faults" and "run_RunID r \<notin> run_RunID ` set (rd_runs db)"
    and "distinct (run_ParticipatingClients r)" and "\<And>c. (run_RunID r, c) \<notin> set (rd_clients db)"
  shows "CreateRun r db = (Inr (), db\<lparr>rd_runs := rd_runs db @ [r],
    rd_clients := rd_clients db @ map (Pair (run_RunID r)) (run_ParticipatingClients r)\<rparr>)"
proof -
  have "insert_run_clients (run_RunID r) (run_ParticipatingClients r) (rd_clients db)
      = Inr (rd_clients db @ map (Pair (run_RunID r)) (run_ParticipatingClients r))"
    using assms(3,4) by (simp add: insert_run_clients_Inr)
  with assms(1,2) show ?thesis by (simp add: CreateRun_def)
qed

lemma GetRun_InrD: "GetRun k db = Inr r \<Longrightarrow> r \<in> set (rd_runs db) \<and> run_RunID r = k"
  by (auto simp: GetRun_def dest!: lookup_row_SomeD split: option.splits)

lemma UpdateRun_ids: "map run_RunID (rd_runs (snd (UpdateRun r db))) = map run_RunID (rd_runs db)"
  by (auto simp: UpdateRun_def comp_def split: option.splits)

lemma UpdateRun_clients [simp, frame]: "rd_clients (snd (UpdateRun r db)) = rd_clients db"
  by (simp add: UpdateRun_def split: option.splits)

lemma UpdateRun_ok: "runs_ok db \<Longrightarrow> runs_ok (snd (UpdateRun r db))"
proof -
  assume ok: "runs_ok db"
  have "run_RunID ` set (rd_runs (snd (UpdateRun r db))) = run_RunID ` set (rd_runs db)"
    using arg_cong [OF UpdateRun_ids [of r db], of set] by simp
  with ok show ?thesis by (simp add: runs_ok_def UpdateRun_ids)
qed

lemma lookup_UpdateRun:
  assumes "rd_faults db = no_faults"
  shows "lookup_row run_RunID k (rd_runs (snd (UpdateRun r db))) =
    (if k = run_RunID r \<and> lookup_row run_RunID k (rd_runs db) \<noteq> None then Some r
     else lookup_row run_RunID k (rd_runs db))"
proof -
  have "lookup_row run_RunID k (map (\<lambda>old. if run_RunID old = run_RunID r then r else old) rs) =
    (if k = run_RunID r \<and> lookup_row run_RunID k rs \<noteq> None then Some r
     else lookup_row run_RunID k rs)" for rs
    by (induction rs) auto
  with assms show ?thesis by (simp add: UpdateRun_def)
qed

lemma result_key_stored [simp]:
  "result_key \<lparr>rr_result = stored_result r, rr_WorkflowType = t\<rparr> = (res_RunID r, res_ClientID r)"
  by (simp add: result_key_def stored_result_def)

lemma lookup_row_append:
  "lookup_row key k (xs @ ys) = (case lookup_row key k xs of None \<Rightarrow> lookup_row key k ys | Some x \<Rightarrow> Some x)"
  by (induction xs) auto

text \<open>The first result stored for a run and client is the one kept.\<close>

lemma lookup_insert_result:
  "lookup_row result_key k (insert_result r t rows) = (case lookup_row result_key k rows of
     Some row \<Rightarrow> Some row
   | None \<Rightarrow> if k = (res_RunID r, res_ClientID r)
       then Some \<lparr>rr_result = stored_result r, rr_WorkflowType = t\<rparr> else None)"
proof (cases "lookup_row result_key (res_RunID r, res_ClientID r) rows")
  case None
  then have "(res_RunID r, res_ClientID r) \<notin> result_key ` set rows"
    by (simp add: lookup_row_None_iff)
  then show ?thesis by (auto simp: insert_result_def lookup_row_append split: option.splits)
next
  case (Some row)
  then have "(res_RunID r, res_ClientID r) \<in> result_key ` set rows"
    by (auto dest!: lookup_row_SomeD intro: image_eqI [OF sym])
  with Some show ?thesis by (auto simp: insert_result_def split: option.splits)
qed

lemma distinct_insert_result:
  "distinct (map result_key rows) \<Longrightarrow> distinct (map result_key (insert_result r t rows))"
  by (simp add: insert_result_def Let_def)

text \<open>The head of the descending order is the latest of the earlier runs.\<close>

lemma GetPreviousRun_latest:
  assumes "rd_faults db = no_faults"
  shows "(case GetPreviousRun c t cur before db of
      Inr r \<Rightarrow> r \<in> set (rd_runs db) \<and> earlier_run c t cur before db r
        \<and> (\<forall>s \<in> set (rd_runs db). earlier_run c t cur before db s \<longrightarrow> run_TriggeredAt s \<le> run_TriggeredAt r)
    | Inl e \<Rightarrow> e = ErrRunNotFound \<and> (\<forall>s \<in> set (rd_runs db). \<not> earlier_run c t cur before db s))"
proof (cases "order_desc run_TriggeredAt (filter (earlier_run c t cur before db) (rd_runs db))")
  case Nil
  with set_order_desc [of run_TriggeredAt "filter (earlier_run c t cur before db) (rd_runs db)"] assms
  show ?thesis by (simp add: GetPreviousRun_def filter_empty_conv)
next
  case (Cons r rs)
  then have "r \<in> set (order_desc run_TriggeredAt (filter (earlier_run c t cur before db) (rd_runs db)))"
    by simp
  then have "r \<in> set (filter (earlier_run c t cur before db) (rd_runs db))"
    by (simp only: set_order_desc)
  moreover have "run_TriggeredAt s \<le> run_TriggeredAt r"
    if "s \<in> set (rd_runs db)" "earlier_run c t cur before db s" for s
    by (rule order_desc_head [OF Cons]) (simp add: that)
  ultimately show ?thesis using Cons assms by (simp add: GetPreviousRun_def)
qed

section \<open>Properties\<close>

definition sample_run :: run where
  "sample_run = \<lparr>run_RunID = ''r1'', run_WorkflowID = ''w1'', run_WorkflowType = ''upgrade'',
     run_TriggeredAt = 1000, run_DispatchedAt = 1000, run_ParticipatingClients = [''c1'', ''c2''],
     run_State = RunInProgress, run_Reason = []\<rparr>"

definition sample_run_db :: run_db where
  "sample_run_db = snd (CreateRun sample_run \<lparr>rd_runs = [], rd_clients = [], rd_faults = no_faults\<rparr>)"

definition sample_result :: result where
  "sample_result = \<lparr>res_RunID = ''r1'', res_WorkflowID = ''w1'', res_ClientID = ''c1'',
     res_Status = ResultSuccess, res_InnerState = [], res_ErrorMsg = [], res_Payload = [],
     res_ReceivedAt = 1500\<rparr>"

text \<open>C30. Creating a run is one transaction: it either stores the run together with one participant
  row per client, or changes nothing; it succeeds on a healthy database exactly when the run is new
  and no client is listed twice, and the run is then read back as it was given.\<close>

theorem create_run_all_or_nothing:
  assumes "CreateRun r db = (res, db')" and "runs_ok db"
  shows "runs_ok db' \<and> ((\<exists>e. res = Inl e) \<longrightarrow> db' = db)
    \<and> (rd_faults db = no_faults \<longrightarrow> (res = Inr () \<longleftrightarrow>
          run_RunID r \<notin> run_RunID ` set (rd_runs db) \<and> distinct (run_ParticipatingClients r)))
    \<and> (res = Inr () \<and> rd_faults db = no_faults \<longrightarrow> GetRun (run_RunID r) db' = Inr r
        \<and> {c. (run_RunID r, c) \<in> set (rd_clients db')} = set (run_ParticipatingClients r))"
proof -
  have new: "(run_RunID r, c) \<notin> set (rd_clients db)"
    if "run_RunID r \<notin> run_RunID ` set (rd_runs db)" for c
    using assms(2) that by (auto simp: runs_ok_def)
  have none: "lookup_row run_RunID (run_RunID r) (rd_runs db) = None"
    if "run_RunID r \<notin> run_RunID ` set (rd_runs db)"
    using that by (simp add: lookup_row_None_iff)
  have "GetRun (run_RunID r) db' = Inr r" if "res = Inr ()" "rd_faults db = no_faults"
    using assms(1)
  proof (cases rule: CreateRun_cases)
    case created
    with that none show ?thesis by (simp add: GetRun_def lookup_row_append)
  qed (use that in simp)
  moreover have "res = Inr () \<longleftrightarrow> run_RunID r \<notin> run_RunID ` set (rd_runs db)
      \<and> distinct (run_ParticipatingClients r)" if "rd_faults db = no_faults"
    using assms(1) that new
    by (auto simp: CreateRun_def insert_run_clients_Inr dest: insert_run_clients_InlD
        split: if_splits sum.splits)
  moreover have "{c. (run_RunID r, c) \<in> set (rd_clients db')} = set (run_ParticipatingClients r)"
    if "res = Inr ()"
    using assms(1) that new by (cases rule: CreateRun_cases) auto
  moreover have "db' = db" if "res = Inl e" for e
    using assms(1) that by (cases rule: CreateRun_cases) auto
  ultimately show ?thesis using CreateRun_ok [OF assms] by blast
qed

theorem create_run_all_or_nothing_witness:
  "GetRun ''r1'' sample_run_db = Inr sample_run"
proof -
  have "run_RunID sample_run = ''r1''" "distinct (run_ParticipatingClients sample_run)"
    by (simp_all add: sample_run_def)
  with create_run_all_or_nothing [of sample_run "\<lparr>rd_runs = [], rd_clients = [], rd_faults = no_faults\<rparr>",
    OF surjective_pairing] show ?thesis
    by (simp add: sample_run_db_def runs_ok_def)
qed

text \<open>The previous run of a client is the latest one: \<open>GetPreviousRun\<close> returns a run of the
  same type, with this client, other than the current one and not triggered after it, such that no
  other such run was triggered later; it reports \<open>ErrRunNotFound\<close> exactly when there is none.\<close>

theorem previous_run_is_latest_earlier:
  assumes "rd_faults db = no_faults"
  shows "(case GetPreviousRun c t cur before db of
      Inr r \<Rightarrow> r \<in> set (rd_runs db) \<and> earlier_run c t cur before db r
        \<and> (\<forall>s \<in> set (rd_runs db). earlier_run c t cur before db s \<longrightarrow> run_TriggeredAt s \<le> run_TriggeredAt r)
    | Inl e \<Rightarrow> e = ErrRunNotFound \<and> (\<forall>s \<in> set (rd_runs db). \<not> earlier_run c t cur before db s))"
  using assms by (rule GetPreviousRun_latest)

theorem previous_run_is_latest_earlier_witness:
  "\<exists>r. GetPreviousRun ''c1'' ''upgrade'' ''r2'' 2000 sample_run_db = Inr r \<and> run_RunID r = ''r1''"
proof -
  have db: "sample_run_db = \<lparr>rd_runs = [sample_run],
      rd_clients = [(''r1'', ''c1''), (''r1'', ''c2'')], rd_faults = no_faults\<rparr>"
    by (simp add: sample_run_db_def CreateRun_def sample_run_def)
  show ?thesis
    using previous_run_is_latest_earlier [of sample_run_db "''c1''" "''upgrade''" "''r2''" 2000]
    by (cases "GetPreviousRun ''c1'' ''upgrade'' ''r2'' 2000 sample_run_db")
      (auto simp: db earlier_run_def sample_run_def)
qed

text \<open>C31. The first result of a client for a run is the one that counts: after any sequence of
  saved results, the result read for a run and client is the first one of the sequence (or the one
  stored before), later and repeated messages change nothing, and the run's results never hold a
  client twice.\<close>

theorem first_result_wins:
  assumes "distinct (map result_key (sd_rows db))" and "sd_faults db = no_faults"
    and "db' = fold (\<lambda>r db. snd (SaveResultWithType r (ty r) db)) rs db"
  shows "GetResult k c db' = (case GetResult k c db of Inr r \<Rightarrow> Inr r
      | Inl _ \<Rightarrow> (case find (\<lambda>r. res_RunID r = k \<and> res_ClientID r = c) rs of
          Some r \<Rightarrow> Inr (stored_result r) | None \<Rightarrow> Inl (ErrMsg ''result not found'')))
    \<and> (\<exists>out. GetRunResults k db' = Inr out \<and> distinct (map res_ClientID out))"
proof -
  have "sd_faults db' = no_faults \<and> distinct (map result_key (sd_rows db'))
    \<and> lookup_row result_key (k, c) (sd_rows db') = (case lookup_row result_key (k, c) (sd_rows db) of
        Some row \<Rightarrow> Some row
      | None \<Rightarrow> map_option (\<lambda>r. \<lparr>rr_result = stored_result r, rr_WorkflowType = ty r\<rparr>)
          (find (\<lambda>r. res_RunID r = k \<and> res_ClientID r = c) rs))"
    using assms
  proof (induction rs arbitrary: db)
    case Nil
    then show ?case by (simp split: option.split)
  next
    case (Cons r rs)
    have step: "snd (SaveResultWithType r (ty r) db) = db\<lparr>sd_rows := insert_result r (ty r) (sd_rows db)\<rparr>"
      using Cons.prems(2) by (simp add: SaveResultWithType_def)
    have "db' = fold (\<lambda>r db. snd (SaveResultWithType r (ty r) db)) rs
        (db\<lparr>sd_rows := insert_result r (ty r) (sd_rows db)\<rparr>)"
      using Cons.prems(3) step by simp
    from Cons.IH [OF _ _ this] Cons.prems(1,2) show ?case
      by (auto simp: distinct_insert_result lookup_insert_result split: option.splits)
  qed
  then have faults: "sd_faults db' = no_faults" and dist: "distinct (map result_key (sd_rows db'))"
    and look: "lookup_row result_key (k, c) (sd_rows db') = (case lookup_row result_key (k, c) (sd_rows db) of
        Some row \<Rightarrow> Some row
      | None \<Rightarrow> map_option (\<lambda>r. \<lparr>rr_result = stored_result r, rr_WorkflowType = ty r\<rparr>)
          (find (\<lambda>r. res_RunID r = k \<and> res_ClientID r = c) rs))"
    by blast+
  have "distinct (map (res_ClientID \<circ> rr_result) (filter (\<lambda>row. res_RunID (rr_result row) = k) rows))"
    if "distinct (map result_key rows)" for rows
    using that by (induction rows) (auto simp: result_key_def image_iff)
  with dist have "\<exists>out. GetRunResults k db' = Inr out \<and> distinct (map res_ClientID out)"
    by (simp add: GetRunResults_def faults)
  then show ?thesis
    using faults look assms(2) by (auto simp: GetResult_def split: option.splits)
qed

theorem first_result_wins_witness:
  "GetResult ''r1'' ''c1'' (fold (\<lambda>r db. snd (SaveResultWithType r ''upgrade'' db))
      [sample_result, sample_result\<lparr>res_Status := ResultFail\<rparr>] \<lparr>sd_rows = [], sd_faults = no_faults\<rparr>)
    = Inr sample_result"
  using first_result_wins [of "\<lparr>sd_rows = [], sd_faults = no_faults\<rparr>" _ "\<lambda>_. ''upgrade''"
      "[sample_result, sample_result\<lparr>res_Status := ResultFail\<rparr>]" "''r1''" "''c1''", OF _ _ refl]
  by (simp add: GetResult_def sample_result_def stored_result_def)

end
