(* ===== verification/Health.thy ===== *)
theory Health
  imports Runs "HOL-Library.Multiset"
begin

text \<open>
  Run health and its aggregation over the runs of a workflow type
  (\<open>internal/core/domain/health.go\<close>), and the tables \<open>run_health\<close> and
  \<open>workflow_type_health\<close> (\<open>internal/adapters/repository/health_repo.go\<close>). Counts are
  lengths of lists and stay far below the \<open>int64\<close> bound, so they are integers; percentages are
  binary64 values with every operation rounded.
\<close>

section \<open>Run health\<close>

datatype trend = TrendImproving | TrendDegrading | TrendStable | TrendOther string

record run_health =
  rh_RunID :: string
  rh_WorkflowID :: string
  rh_WorkflowType :: string
  rh_TotalClients :: int
  rh_SuccessCount :: int
  rh_FailCount :: int
  rh_ErrorCount :: int
  rh_PendingCount :: int
  rh_BannedClientCount :: int
  rh_CalculatedAt :: time

definition effective :: "run_health \<Rightarrow> int" where
  "effective h = (let d = rh_TotalClients h - rh_BannedClientCount h in if d \<le> 0 then 0 else d)"

definition CompletedCount :: "run_health \<Rightarrow> int" where
  "CompletedCount h = rh_SuccessCount h + rh_FailCount h + rh_ErrorCount h"

definition percentage :: "int \<Rightarrow> int \<Rightarrow> float64" where
  "percentage n d = fdiv (fmul (f64_of_int 100) (f64_of_int n)) (f64_of_int d)"

definition SuccessPercentage :: "run_health \<Rightarrow> float64" where
  "SuccessPercentage h = (let d = effective h in
     if d = 0 then f64_of_int 0 else percentage (rh_SuccessCount h) d)"

definition FailPercentage :: "run_health \<Rightarrow> float64" where
  "FailPercentage h = (let d = effective h in
     if d = 0 then f64_of_int 0 else percentage (rh_FailCount h) d)"

definition ErrorPercentage :: "run_health \<Rightarrow> float64" where
  "ErrorPercentage h = (let d = effective h in
     if d = 0 then f64_of_int 0 else percentage (rh_ErrorCount h) d)"

definition PendingPercentage :: "run_health \<Rightarrow> float64" where
  "PendingPercentage h = (let d = effective h in
     if d = 0 then f64_of_int 0 else percentage (rh_PendingCount h) d)"

definition IsComplete :: "run_health \<Rightarrow> bool" where
  "IsComplete h \<longleftrightarrow> rh_PendingCount h = 0"

record type_health =
  th_WorkflowType :: string
  th_WindowSize :: int64
  th_RunsConsidered :: int
  th_SuccessPercentageAvg :: float64
  th_FailPercentageAvg :: float64
  th_ErrorPercentageAvg :: float64
  th_Trend :: trend
  th_CalculatedAt :: time

definition IsHealthy :: "float64 \<Rightarrow> type_health \<Rightarrow> bool" where
  "IsHealthy threshold w =
     (if th_RunsConsidered w = 0 then True else fle threshold (th_SuccessPercentageAvg w))"

record health_threshold =
  ht_SuccessThreshold :: float64
  ht_WindowSize :: int64

definition HealthThreshold_Validate :: "health_threshold \<Rightarrow> go_error option" where
  "HealthThreshold_Validate t =
     (if flt (ht_SuccessThreshold t) (f64_of_int 0) \<or> flt (f64_of_int 100) (ht_SuccessThreshold t)
      then Some ErrInvalidPolicy
      else if sint (ht_WindowSize t) < 0 then Some ErrInvalidPolicy
      else None)"

section \<open>The aggregator\<close>

text \<open>The map \<open>seen\<close> as the list of its entries, oldest first; nil results are skipped.\<close>

fun seen_loop :: "result option list \<Rightarrow> (string \<times> result_status) list \<Rightarrow> (string \<times> result_status) list" where
  "seen_loop [] seen = seen"
| "seen_loop (None # rs) seen = seen_loop rs seen"
| "seen_loop (Some r # rs) seen =
     (if res_ClientID r \<in> fst ` set seen then seen_loop rs seen
      else seen_loop rs (seen @ [(res_ClientID r, res_Status r)]))"

fun count_status :: "string \<times> result_status \<Rightarrow> run_health \<Rightarrow> run_health" where
  "count_status (c, ResultSuccess) h = h\<lparr>rh_SuccessCount := rh_SuccessCount h + 1\<rparr>"
| "count_status (c, ResultFail) h = h\<lparr>rh_FailCount := rh_FailCount h + 1\<rparr>"
| "count_status (c, ResultError) h = h\<lparr>rh_ErrorCount := rh_ErrorCount h + 1\<rparr>"
| "count_status (c, ResultOther s) h = h"

text \<open>Go ranges over \<open>seen\<close> in any order; \<open>count_status_order\<close> below shows it does not matter.\<close>

definition CalculateRunHealth ::
  "env \<Rightarrow> string \<Rightarrow> string \<Rightarrow> string \<Rightarrow> int \<Rightarrow> result option list \<Rightarrow> int \<Rightarrow> run_health" where
  "CalculateRunHealth E runID workflowID workflowType totalClients results bannedCount =
     (let h = \<lparr>rh_RunID = runID, rh_WorkflowID = workflowID, rh_WorkflowType = workflowType,
            rh_TotalClients = totalClients, rh_SuccessCount = 0, rh_FailCount = 0, rh_ErrorCount = 0,
            rh_PendingCount = 0, rh_BannedClientCount = bannedCount, rh_CalculatedAt = env_now E\<rparr>;
          seen = seen_loop results [];
          h = fold count_status seen h;
          completed = CompletedCount h;
          pending = totalClients - bannedCount - completed;
          pending = (if pending < 0 then 0 else pending)
      in h\<lparr>rh_PendingCount := pending\<rparr>)"

fun sum_percentages :: "(run_health \<Rightarrow> float64) \<Rightarrow> run_health list \<Rightarrow> float64 \<Rightarrow> float64" where
  "sum_percentages p [] acc = acc"
| "sum_percentages p (r # rs) acc = sum_percentages p rs (fadd acc (p r))"

definition CalculateTrend :: "run_health list \<Rightarrow> trend" where
  "CalculateTrend runs =
     (if length runs < 2 then TrendStable
      else (let half = length runs div 2 in
        if half = 0 then TrendStable
        else (let older = sum_percentages SuccessPercentage (take half runs) (f64_of_int 0);
                  newer = sum_percentages SuccessPercentage (drop (length runs - half) runs) (f64_of_int 0);
                  older = fdiv older (f64_of_int (int half));
                  newer = fdiv newer (f64_of_int (int half));
                  delta = fsub newer older
              in if flt (f64_of_int 1) delta then TrendImproving
                 else if flt delta (f64_of_int (-1)) then TrendDegrading
                 else TrendStable)))"

definition AggregateWorkflowHealth ::
  "env \<Rightarrow> string \<Rightarrow> run_health list \<Rightarrow> int64 \<Rightarrow> type_health" where
  "AggregateWorkflowHealth E workflowType runs windowSize =
     (let out = \<lparr>th_WorkflowType = workflowType, th_WindowSize = windowSize, th_RunsConsidered = 0,
            th_SuccessPercentageAvg = f64_of_int 0, th_FailPercentageAvg = f64_of_int 0,
            th_ErrorPercentageAvg = f64_of_int 0, th_Trend = TrendStable, th_CalculatedAt = env_now E\<rparr> in
      if runs = [] then out
      else (let runs = (if 0 < sint windowSize \<and> sint windowSize < int (length runs)
                  then drop (length runs - nat (sint windowSize)) runs else runs);
                sumS = sum_percentages SuccessPercentage runs (f64_of_int 0);
                sumF = sum_percentages FailPercentage runs (f64_of_int 0);
                sumE = sum_percentages ErrorPercentage runs (f64_of_int 0);
                n = f64_of_int (int (length runs))
            in out\<lparr>th_RunsConsidered := int (length runs),
                 th_SuccessPercentageAvg := fdiv sumS n,
                 th_FailPercentageAvg := fdiv sumF n,
                 th_ErrorPercentageAvg := fdiv sumE n,
                 th_Trend := CalculateTrend runs\<rparr>))"

section \<open>The health tables\<close>

record health_db =
  hd_runs :: "run_health list"
  hd_types :: "type_health list"
  hd_faults :: faults

definition SaveRunHealth :: "env \<Rightarrow> run_health \<Rightarrow> health_db \<Rightarrow> (go_error + unit) \<times> health_db" where
  "SaveRunHealth E h db =
     (let h = (if IsZero (rh_CalculatedAt h) then h\<lparr>rh_CalculatedAt := env_now E\<rparr> else h) in
      case hd_faults db ''SaveRunHealth'' of
        Some e \<Rightarrow> (Inl e, db)
      | None \<Rightarrow> (Inr (), db\<lparr>hd_runs := upsert rh_RunID (\<lambda>old. h\<lparr>rh_RunID := rh_RunID old\<rparr>) h (hd_runs db)\<rparr>))"

definition GetRunHealth :: "string \<Rightarrow> health_db \<Rightarrow> go_error + run_health" where
  "GetRunHealth runID db = (case hd_faults db ''GetRunHealth'' of
     Some e \<Rightarrow> Inl e
   | None \<Rightarrow> (case lookup_row rh_RunID runID (hd_runs db) of
       None \<Rightarrow> Inl (ErrMsg ''run_health not found'') | Some h \<Rightarrow> Inr h))"

definition ListRunHealths :: "string \<Rightarrow> int64 \<Rightarrow> health_db \<Rightarrow> go_error + run_health list" where
  "ListRunHealths workflowType limit db = (case hd_faults db ''ListRunHealths'' of
     Some e \<Rightarrow> Inl e
   | None \<Rightarrow> Inr (rev (take (limit_or 100 limit) (order_desc rh_CalculatedAt
       (filter (\<lambda>h. rh_WorkflowType h = workflowType) (hd_runs db))))))"

definition SaveWorkflowTypeHealth :: "env \<Rightarrow> type_health \<Rightarrow> health_db \<Rightarrow> (go_error + unit) \<times> health_db" where
  "SaveWorkflowTypeHealth E h db =
     (let h = (if IsZero (th_CalculatedAt h) then h\<lparr>th_CalculatedAt := env_now E\<rparr> else h) in
      case hd_faults db ''SaveWorkflowTypeHealth'' of
        Some e \<Rightarrow> (Inl e, db)
      | None \<Rightarrow> (Inr (), db\<lparr>hd_types := upsert th_WorkflowType
          (\<lambda>old. h\<lparr>th_WorkflowType := th_WorkflowType old\<rparr>) h (hd_types db)\<rparr>))"

definition GetWorkflowTypeHealth :: "string \<Rightarrow> health_db \<Rightarrow> go_error + type_health" where
  "GetWorkflowTypeHealth workflowType db = (case hd_faults db ''GetWorkflowTypeHealth'' of
     Some e \<Rightarrow> Inl e
   | None \<Rightarrow> (case lookup_row th_WorkflowType workflowType (hd_types db) of
       None \<Rightarrow> Inl (ErrMsg ''workflow_type_health not found'') | Some h \<Rightarrow> Inr h))"

definition ListAllWorkflowTypeHealths :: "health_db \<Rightarrow> go_error + type_health list" where
  "ListAllWorkflowTypeHealths db = (case hd_faults db ''ListAllWorkflowTypeHealths'' of
     Some e \<Rightarrow> Inl e | None \<Rightarrow> Inr (sort_key th_WorkflowType (hd_types db)))"

section \<open>Counting\<close>

lemma seen_loop_keys:
  "distinct (map fst seen) \<Longrightarrow> distinct (map fst (seen_loop rs seen))
    \<and> fst ` set (seen_loop rs seen) = fst ` set seen \<union> res_ClientID ` {r. Some r \<in> set rs}"
proof (induction rs seen rule: seen_loop.induct)
  case (3 r rs seen)
  have "{x. Some x \<in> set (Some r # rs)} = insert r {x. Some x \<in> set rs}" by auto
  with 3 show ?case by (auto simp: image_iff)
qed (auto simp: image_iff)

lemma map_of_seen_loop:
  "map_of (seen_loop rs seen) c = (case map_of seen c of Some s \<Rightarrow> Some s
     | None \<Rightarrow> map_option res_Status (find (\<lambda>r. res_ClientID r = c) (List.map_filter id rs)))"
proof (induction rs seen rule: seen_loop.induct)
  case (3 r rs seen)
  show ?case
  proof (cases "res_ClientID r \<in> fst ` set seen")
    case True
    then have "map_of seen (res_ClientID r) \<noteq> None" by (simp add: map_of_eq_None_iff)
    with 3(1) [OF True] True show ?thesis
      by (cases "c = res_ClientID r") (auto simp: map_filter_simps id_def split: option.splits)
  next
    case False
    then have "map_of seen (res_ClientID r) = None" by (simp add: map_of_eq_None_iff)
    with 3(2) [OF False] False show ?thesis
      by (cases "c = res_ClientID r") (auto simp: map_filter_simps map_add_def id_def split: option.splits)
  qed
qed (auto simp: map_filter_simps id_def split: option.splits)

lemma count_statuses:
  "fold count_status xs h = h\<lparr>
     rh_SuccessCount := rh_SuccessCount h + int (length (filter (\<lambda>x. snd x = ResultSuccess) xs)),
     rh_FailCount := rh_FailCount h + int (length (filter (\<lambda>x. snd x = ResultFail) xs)),
     rh_ErrorCount := rh_ErrorCount h + int (length (filter (\<lambda>x. snd x = ResultError) xs))\<rparr>"
proof (induction xs arbitrary: h)
  case (Cons x xs)
  obtain c s where x: "x = (c, s)" by fastforce
  show ?case by (cases s) (simp_all add: x Cons.IH)
qed simp

lemma count_status_order: "mset xs = mset ys \<Longrightarrow> fold count_status xs h = fold count_status ys h"
proof -
  assume eq: "mset xs = mset ys"
  then have "length (filter P xs) = length (filter P ys)" for P
    by (metis mset_filter size_mset)
  then show ?thesis by (simp add: count_statuses)
qed

lemma completed_valid:
  "\<forall>x \<in> set xs. ResultStatus_IsValid (snd x) \<Longrightarrow>
   length (filter (\<lambda>x. snd x = ResultSuccess) xs) + length (filter (\<lambda>x. snd x = ResultFail) xs)
     + length (filter (\<lambda>x. snd x = ResultError) xs) = length xs"
proof (induction xs)
  case (Cons x xs)
  then show ?case by (cases "snd x") auto
qed simp

section \<open>Percentages\<close>

lemma percentage_bounds:
  assumes "0 \<le> n" and "n \<le> d" and "0 < d" and "d \<le> 2 ^ 46"
  shows "\<exists>x. percentage n d = FFin x \<and> 0 \<le> x \<and> x \<le> 100"
proof -
  have small: "\<bar>n\<bar> \<le> 2 ^ 53" "\<bar>d\<bar> \<le> 2 ^ 53" "\<bar>100 * n\<bar> \<le> 2 ^ 53"
    using assms by auto
  have "to_f64 (of_int (100 * n)) = FFin (of_int (100 * n))"
    using f64_of_int_exact [OF small(3)] by (simp add: f64_of_int_def)
  moreover have hundred: "f64_of_int 100 = FFin 100"
    using f64_of_int_exact [of 100] by simp
  ultimately have "percentage n d = to_f64 (100 * of_int n / of_int d)"
    using assms(3) by (simp add: percentage_def hundred f64_of_int_exact [OF small(1)] f64_of_int_exact [OF small(2)])
  moreover have "0 \<le> 100 * of_int n / (of_int d :: rat)" "100 * of_int n / (of_int d :: rat) \<le> 100"
    using assms by (simp_all add: divide_le_eq)
  ultimately show ?thesis
    using to_f64_between [of 0 100 "100 * of_int n / of_int d"] by auto
qed

definition counts_ok :: "run_health \<Rightarrow> bool" where
  "counts_ok h \<longleftrightarrow> 0 \<le> rh_SuccessCount h \<and> 0 \<le> rh_FailCount h \<and> 0 \<le> rh_ErrorCount h
     \<and> CompletedCount h \<le> effective h \<and> effective h \<le> 2 ^ 46"

definition in_percent :: "float64 \<Rightarrow> bool" where
  "in_percent p \<longleftrightarrow> (\<exists>x. p = FFin x \<and> 0 \<le> x \<and> x \<le> 100)"

lemma in_percent_0: "in_percent (f64_of_int 0)"
  using f64_of_int_exact [of 0] by (simp add: in_percent_def)

lemma percentages_ok:
  assumes "counts_ok h"
  shows "in_percent (SuccessPercentage h)" "in_percent (FailPercentage h)" "in_percent (ErrorPercentage h)"
proof -
  have pos: "0 < effective h" if "effective h \<noteq> 0"
    using that by (auto simp: effective_def Let_def split: if_splits)
  have "in_percent (percentage n (effective h))" if "effective h \<noteq> 0" "0 \<le> n" "n \<le> effective h" for n
    using percentage_bounds [OF that(2,3) pos [OF that(1)]] assms by (auto simp: in_percent_def counts_ok_def)
  then show "in_percent (SuccessPercentage h)" "in_percent (FailPercentage h)" "in_percent (ErrorPercentage h)"
    using assms in_percent_0
    by (auto simp: SuccessPercentage_def FailPercentage_def ErrorPercentage_def Let_def counts_ok_def
        CompletedCount_def)
qed

lemma sum_percentages_bounds:
  assumes "\<And>r. r \<in> set rs \<Longrightarrow> in_percent (p r)" and "0 \<le> a" and "a \<le> of_int (100 * k)"
    and "0 \<le> k" and "100 * (k + int (length rs)) \<le> 2 ^ 53"
  shows "\<exists>b. sum_percentages p rs (FFin a) = FFin b \<and> 0 \<le> b \<and> b \<le> of_int (100 * (k + int (length rs)))"
  using assms
proof (induction rs arbitrary: a k)
  case (Cons r rs)
  obtain x where x: "p r = FFin x" "0 \<le> x" "x \<le> 100"
    using Cons.prems(1) [of r] by (auto simp: in_percent_def)
  have "of_int 0 \<le> a + x" and "a + x \<le> of_int (100 * (k + 1))"
    using x Cons.prems(2,3) by auto
  moreover have "\<bar>100 * (k + 1)\<bar> \<le> 2 ^ 53" using Cons.prems(4,5) by simp
  ultimately have "to_f64 (a + x) = FFin (rnd (a + x))" "0 \<le> rnd (a + x)"
    "rnd (a + x) \<le> of_int (100 * (k + 1))"
    using to_f64_between [of 0 "100 * (k + 1)" "a + x"] by simp_all
  with Cons.IH [of "rnd (a + x)" "k + 1"] Cons.prems x show ?case by (simp add: algebra_simps)
qed simp

lemma average_ok:
  assumes "\<And>r. r \<in> set rs \<Longrightarrow> in_percent (p r)" and "rs \<noteq> []" and "int (length rs) \<le> 2 ^ 46"
  shows "in_percent (fdiv (sum_percentages p rs (f64_of_int 0)) (f64_of_int (int (length rs))))"
proof -
  let ?n = "int (length rs)"
  have n: "0 < ?n" "\<bar>?n\<bar> \<le> 2 ^ 53" "100 * (0 + ?n) \<le> 2 ^ 53" using assms(2,3) by auto
  obtain b where b: "sum_percentages p rs (FFin 0) = FFin b" "0 \<le> b" "b \<le> of_int (100 * ?n)"
    using sum_percentages_bounds [of rs p 0 0] assms(1) n(3) by auto
  have "0 \<le> b / of_int ?n" "b / of_int ?n \<le> 100"
    using b n(1) by (simp_all add: divide_le_eq mult.commute)
  then show ?thesis
    using to_f64_between [of 0 100 "b / of_int ?n"] b n f64_of_int_exact [of 0] f64_of_int_exact [OF n(2)]
    by (auto simp: in_percent_def)
qed

lemma SaveRunHealth_faults [simp, frame]: "hd_faults (snd (SaveRunHealth E h db)) = hd_faults db"
  by (simp add: SaveRunHealth_def Let_def split: option.splits)

lemma SaveWorkflowTypeHealth_faults [simp, frame]:
  "hd_faults (snd (SaveWorkflowTypeHealth E h db)) = hd_faults db"
  by (simp add: SaveWorkflowTypeHealth_def Let_def split: option.splits)

section \<open>What the health of a run says\<close>

lemma image_eq_iff_covers:
  assumes "f ` R \<subseteq> D"
  shows "f ` R = D \<longleftrightarrow> (\<forall>c \<in> D. \<exists>r \<in> R. f r = c)"
proof -
  have "f ` R = D \<longleftrightarrow> D \<subseteq> f ` R" using assms by auto
  also have "\<dots> \<longleftrightarrow> (\<forall>c \<in> D. c \<in> f ` R)" by auto
  also have "\<dots> \<longleftrightarrow> (\<forall>c \<in> D. \<exists>r \<in> R. f r = c)" by (simp add: image_iff eq_commute)
  finally show ?thesis .
qed

definition first_status :: "result option list \<Rightarrow> string \<Rightarrow> result_status option" where
  "first_status rs c = map_option res_Status (find (\<lambda>r. res_ClientID r = c) (List.map_filter id rs))"

lemma map_of_seen: "map_of (seen_loop rs []) c = first_status rs c"
  by (simp add: map_of_seen_loop first_status_def)

lemma count_as_card:
  "distinct (map fst xs) \<Longrightarrow> length (filter (\<lambda>x. snd x = s) xs) = card {c. map_of xs c = Some s}"
proof (induction xs)
  case (Cons x xs)
  obtain c t where x: "x = (c, t)" by fastforce
  have c: "map_of xs c = None" using Cons.prems by (auto simp: x map_of_eq_None_iff)
  have fin: "finite {d. map_of xs d = Some s}"
    by (rule finite_subset [OF _ finite_dom_map_of [of xs]]) auto
  have "{d. map_of (x # xs) d = Some s} =
      (if t = s then insert c {d. map_of xs d = Some s} else {d. map_of xs d = Some s})"
    using c by (auto simp: x)
  moreover have "length (filter (\<lambda>x. snd x = s) xs) = card {d. map_of xs d = Some s}"
    using Cons by simp
  moreover have "card (insert c {d. map_of xs d = Some s}) = Suc (card {d. map_of xs d = Some s})"
    using fin c by (intro card_insert_disjoint) auto
  ultimately show ?case by (simp add: x del: map_of_eq_Some_iff)
qed simp

lemma CalculateRunHealth_counts:
  fixes rs banned clients E k w t
  defines "h \<equiv> CalculateRunHealth E k w t clients rs banned"
  shows "rh_SuccessCount h = int (length (filter (\<lambda>x. snd x = ResultSuccess) (seen_loop rs [])))"
    and "rh_FailCount h = int (length (filter (\<lambda>x. snd x = ResultFail) (seen_loop rs [])))"
    and "rh_ErrorCount h = int (length (filter (\<lambda>x. snd x = ResultError) (seen_loop rs [])))"
    and "rh_PendingCount h = max 0 (clients - banned - CompletedCount h)"
    and "rh_TotalClients h = clients" and "rh_BannedClientCount h = banned"
    and "rh_CalculatedAt h = env_now E" and "rh_RunID h = k" and "rh_WorkflowType h = t"
  by (simp_all add: h_def CalculateRunHealth_def count_statuses CompletedCount_def Let_def)

text \<open>The counts of a run whose results come from its participants, with valid statuses: completed are the
  clients that replied, banned or not, and pending is what is left of the unbanned participants.\<close>

lemma participant_counts:
  assumes "distinct ps" and "\<forall>r \<in> set rs. res_ClientID r \<in> set ps \<and> ResultStatus_IsValid (res_Status r)"
    and "h = CalculateRunHealth E k w t (int (length ps)) (map Some rs) (int (length (filter (\<lambda>c. c \<in> B) ps)))"
  shows "CompletedCount h = int (card (res_ClientID ` set rs))"
    and "effective h = int (card (set ps - B))"
    and "rh_PendingCount h = max 0 (int (card (set ps - B)) - int (card (res_ClientID ` set rs)))"
proof -
  let ?seen = "seen_loop (map Some rs) []" and ?C = "res_ClientID ` set rs"
  have keys: "distinct (map fst ?seen)" "fst ` set ?seen = ?C"
    using seen_loop_keys [of "[]" "map Some rs"] by auto
  have "\<forall>x \<in> set ?seen. ResultStatus_IsValid (snd x)"
  proof
    fix x assume x: "x \<in> set ?seen"
    then have "map_of ?seen (fst x) = Some (snd x)" using keys(1) by simp
    then obtain r where "find (\<lambda>r. res_ClientID r = fst x) rs = Some r" "res_Status r = snd x"
      by (auto simp: map_of_seen first_status_def map_filter_def comp_def)
    moreover from this have "r \<in> set rs" by (auto simp: find_Some_iff)
    ultimately show "ResultStatus_IsValid (snd x)" using assms(2) by metis
  qed
  from completed_valid [OF this] have "CompletedCount h = int (length ?seen)"
    unfolding assms(3) CompletedCount_def CalculateRunHealth_counts by linarith
  also have "length ?seen = card ?C"
    using keys distinct_card [OF keys(1)] by simp
  finally show completed: "CompletedCount h = int (card ?C)" .
  have "card (set ps - B) = length (filter (\<lambda>c. c \<notin> B) ps)"
    using distinct_card [OF distinct_filter [OF assms(1)], of "\<lambda>c. c \<notin> B"]
    by (simp add: set_diff_eq)
  then have total: "int (length ps) - int (length (filter (\<lambda>c. c \<in> B) ps)) = int (card (set ps - B))"
    using sum_length_filter_compl [of "\<lambda>c. c \<in> B" ps] by linarith
  show "rh_PendingCount h = max 0 (int (card (set ps - B)) - int (card ?C))"
    using CalculateRunHealth_counts(4) [of E k w t "int (length ps)" "map Some rs"] completed total
    unfolding assms(3) by simp
  show "effective h = int (card (set ps - B))"
    using total by (simp add: effective_def assms(3) CalculateRunHealth_counts Let_def)
qed

section \<open>Properties\<close>

text \<open>C27. The counts of a run's health: the success count is the number of clients whose first
  result is a success, likewise for failures and errors, so repeated and late messages never
  change them, nor does the order in which the map of first results is ranged over; pending is
  what is left of the clients that are not banned, and never negative.\<close>

theorem run_health_counts_first_results:
  fixes rs :: "result option list"
  shows "(let h = CalculateRunHealth E k w t clients rs banned in
      rh_SuccessCount h = int (card {c. first_status rs c = Some ResultSuccess})
    \<and> rh_FailCount h = int (card {c. first_status rs c = Some ResultFail})
    \<and> rh_ErrorCount h = int (card {c. first_status rs c = Some ResultError})
    \<and> rh_PendingCount h = max 0 (clients - banned - CompletedCount h)
    \<and> (\<forall>g. (\<lambda>ys. fold count_status ys g) ` {ys. mset ys = mset (seen_loop rs [])}
          = {fold count_status (seen_loop rs []) g}))"
proof -
  have "distinct (map fst (seen_loop rs []))" using seen_loop_keys [of "[]" rs] by simp
  note card = count_as_card [OF this, unfolded map_of_seen]
  have "(\<lambda>ys. fold count_status ys g) ` {ys. mset ys = mset (seen_loop rs [])}
      = {fold count_status (seen_loop rs []) g}" for g
    using count_status_order [of _ "seen_loop rs []" g] by blast
  then show ?thesis
    unfolding Let_def CalculateRunHealth_counts card by blast
qed

text \<open>C26. Completion means what it says as long as no banned client has replied: for results with
  valid statuses from participants that are not banned, completed and pending clients together
  are the participants that are not banned, the run is complete exactly when each of them has
  replied, and the counts are consistent.\<close>

theorem complete_iff_all_replied:
  assumes "distinct ps" and "\<forall>r \<in> set rs. res_ClientID r \<in> set ps - B \<and> ResultStatus_IsValid (res_Status r)"
    and "length ps \<le> 2 ^ 46"
    and "h = CalculateRunHealth E k w t (int (length ps)) (map Some rs) (int (length (filter (\<lambda>c. c \<in> B) ps)))"
  shows "CompletedCount h + rh_PendingCount h = int (card (set ps - B))
    \<and> (IsComplete h \<longleftrightarrow> (\<forall>c \<in> set ps - B. \<exists>r \<in> set rs. res_ClientID r = c))
    \<and> counts_ok h"
proof -
  let ?C = "res_ClientID ` set rs"
  have from_ps: "\<forall>r \<in> set rs. res_ClientID r \<in> set ps \<and> ResultStatus_IsValid (res_Status r)"
    using assms(2) by auto
  note counts = participant_counts [OF assms(1) from_ps assms(4)]
  have sub: "?C \<subseteq> set ps - B" using assms(2) by auto
  then have le: "card ?C \<le> card (set ps - B)" by (intro card_mono) auto
  with counts(3) have pending: "rh_PendingCount h = int (card (set ps - B)) - int (card ?C)" by simp
  then have "IsComplete h \<longleftrightarrow> card ?C = card (set ps - B)" by (auto simp: IsComplete_def)
  also have "\<dots> \<longleftrightarrow> ?C = set ps - B" using sub by (metis card_subset_eq finite_Diff finite_set)
  also have "\<dots> \<longleftrightarrow> (\<forall>c \<in> set ps - B. \<exists>r \<in> set rs. res_ClientID r = c)"
    using sub by (rule image_eq_iff_covers)
  finally have "IsComplete h \<longleftrightarrow> (\<forall>c \<in> set ps - B. \<exists>r \<in> set rs. res_ClientID r = c)" .
  moreover have "card (set ps - B) \<le> 2 ^ 46"
    using card_mono [of "set ps" "set ps - B"] card_length [of ps] assms(3) by auto
  then have "int (card (set ps - B)) \<le> 2 ^ 46" by simp
  then have "counts_ok h"
    using counts le by (simp add: counts_ok_def assms(4) CalculateRunHealth_counts)
  ultimately show ?thesis using counts(1) pending by simp
qed

theorem complete_iff_all_replied_witness:
  "\<not> IsComplete (CalculateRunHealth \<lparr>env_now = 9, env_uuid = \<lambda>_. []\<rparr> ''r1'' ''w1'' ''upgrade'' 3
      [Some sample_result] 1)"
  using complete_iff_all_replied [of "[''c1'', ''c2'', ''c3'']" "[sample_result]" "{''c3''}"
      _ "\<lparr>env_now = 9, env_uuid = \<lambda>_. []\<rparr>" "''r1''" "''w1''" "''upgrade''", OF _ _ _ refl]
  by (simp add: sample_result_def insert_Diff_if bex_simps)

text \<open>C37. Aggregated health is a percentage: over runs with consistent counts, the three averages,
  computed with rounding at every step, are finite numbers between 0 and 100 (never NaN), and the
  number of runs considered is the length of the list cut to the window.\<close>

theorem aggregate_health_bounded:
  assumes "\<forall>r \<in> set runs. counts_ok r" and "int (length runs) \<le> 2 ^ 46"
    and "h = AggregateWorkflowHealth E workflowType runs window"
  shows "in_percent (th_SuccessPercentageAvg h) \<and> in_percent (th_FailPercentageAvg h)
    \<and> in_percent (th_ErrorPercentageAvg h)
    \<and> th_RunsConsidered h = (if 0 < sint window then min (sint window) (int (length runs)) else int (length runs))
    \<and> (IsHealthy (f64_of_int 0) h)"
proof (cases "runs = []")
  case True
  then show ?thesis
    by (simp add: assms(3) AggregateWorkflowHealth_def in_percent_0 IsHealthy_def min_def)
next
  case False
  define rs where "rs = (if 0 < sint window \<and> sint window < int (length runs)
    then drop (length runs - nat (sint window)) runs else runs)"
  have rs: "set rs \<subseteq> set runs" "rs \<noteq> []" "int (length rs) \<le> 2 ^ 46"
    using False assms(2) by (auto simp: rs_def dest: in_set_dropD)
  have len: "int (length rs) = (if 0 < sint window then min (sint window) (int (length runs)) else int (length runs))"
    by (auto simp: rs_def)
  have ok: "counts_ok r" if "r \<in> set rs" for r using assms(1) rs(1) that by auto
  have h: "th_SuccessPercentageAvg h
      = fdiv (sum_percentages SuccessPercentage rs (f64_of_int 0)) (f64_of_int (int (length rs)))"
    "th_FailPercentageAvg h
      = fdiv (sum_percentages FailPercentage rs (f64_of_int 0)) (f64_of_int (int (length rs)))"
    "th_ErrorPercentageAvg h
      = fdiv (sum_percentages ErrorPercentage rs (f64_of_int 0)) (f64_of_int (int (length rs)))"
    "th_RunsConsidered h = int (length rs)"
    unfolding assms(3) using False by (simp_all add: AggregateWorkflowHealth_def rs_def Let_def)
  have avg: "in_percent (th_SuccessPercentageAvg h)" "in_percent (th_FailPercentageAvg h)"
    "in_percent (th_ErrorPercentageAvg h)"
    unfolding h by (rule average_ok [OF _ rs(2,3)]; rule percentages_ok; erule ok)+
  then have "IsHealthy (f64_of_int 0) h"
    using f64_of_int_exact [of 0] by (auto simp: IsHealthy_def in_percent_def fle_def)
  with avg h(4) len show ?thesis by simp
qed

theorem aggregate_health_bounded_witness:
  "in_percent (th_SuccessPercentageAvg (AggregateWorkflowHealth \<lparr>env_now = 9, env_uuid = \<lambda>_. []\<rparr> ''upgrade''
      [CalculateRunHealth \<lparr>env_now = 9, env_uuid = \<lambda>_. []\<rparr> ''r1'' ''w1'' ''upgrade'' 3 [Some sample_result] 1] 10))"
proof -
  have "counts_ok (CalculateRunHealth \<lparr>env_now = 9, env_uuid = \<lambda>_. []\<rparr> ''r1'' ''w1'' ''upgrade'' 3 [Some sample_result] 1)"
    by (simp add: counts_ok_def CalculateRunHealth_def CompletedCount_def effective_def sample_result_def)
  then show ?thesis using aggregate_health_bounded [OF _ _ refl] by simp
qed

end
