(* ===== verification/Workflows.thy ===== *)
theory Workflows
  imports Tables Inner_Client
begin

text \<open>
  Workflow definitions (\<open>internal/core/domain/workflow.go\<close>), the \<open>workflows\<close> table
  (\<open>internal/adapters/repository/workflow_repo.go\<close>) and the state manager over it
  (\<open>internal/core/services/workflow_state_manager.go\<close>).
\<close>

section \<open>Definitions\<close>

datatype trigger_kind =
  TriggerScheduled | TriggerEvent | TriggerStateChange | TriggerManual | TriggerOther string

record trigger_spec =
  tr_Kind :: trigger_kind
  tr_Cron :: string
  tr_OnComplete :: string
  tr_Condition :: string
  tr_Params :: gmap

record workflow =
  wf_ID :: string
  wf_Name :: string
  wf_Description :: string
  wf_WorkflowType :: string
  wf_Activity :: activity_type
  wf_Params :: gmap
  wf_TargetFilter :: string
  wf_Trigger :: trigger_spec
  wf_SuccessThreshold :: float64
  wf_LoopThresholdMS :: int64
  wf_TimeoutMS :: int64
  wf_Active :: bool
  wf_CreatedAt :: time
  wf_UpdatedAt :: time
  wf_DeactivatedReason :: string

definition Workflow_IsActive :: "workflow \<Rightarrow> bool" where
  "Workflow_IsActive w = wf_Active w"

definition ValidateDefinition :: "workflow \<Rightarrow> go_error option" where
  "ValidateDefinition w =
     (if wf_Name w = [] then Some ErrMissingRequiredField
      else if wf_WorkflowType w = [] then Some ErrMissingRequiredField
      else if \<not> ActivityType_IsValid (wf_Activity w) then Some ErrInvalidWorkflow
      else if flt (wf_SuccessThreshold w) (f64_of_int 0) \<or> flt (f64_of_int 100) (wf_SuccessThreshold w)
        then Some ErrInvalidWorkflow
      else if sint (wf_LoopThresholdMS w) < 0 then Some ErrInvalidWorkflow
      else if sint (wf_TimeoutMS w) < 0 then Some ErrInvalidWorkflow
      else None)"

definition GetActivityTimeout :: "workflow \<Rightarrow> duration" where
  "GetActivityTimeout w =
     (if sint (wf_TimeoutMS w) \<le> 0 then 30 * Second else wf_TimeoutMS w * Millisecond)"

definition LoopThreshold :: "workflow \<Rightarrow> duration" where
  "LoopThreshold w =
     (if sint (wf_LoopThresholdMS w) \<le> 0 then 5 * Second else wf_LoopThresholdMS w * Millisecond)"

lemma default_durations: "sint (5 * Second) = 5000000000" "sint (30 * Second) = 30000000000"
proof -
  have "5 * Second = (word_of_int 5000000000 :: int64)" and "30 * Second = (word_of_int 30000000000 :: int64)"
    by (simp_all add: Second_def)
  then show "sint (5 * Second) = 5000000000" "sint (30 * Second) = 30000000000"
    using sint_word_of_int64 [of 5000000000] sint_word_of_int64 [of 30000000000]
    by (simp_all add: min_int64_def max_int64_def)
qed

section \<open>The workflows table\<close>

record workflow_db =
  wd_rows :: "workflow list"
  wd_faults :: faults

text \<open>A row as it is read back: the JSON columns hold \<open>Params\<close> and the trigger, which is lost
  as a whole when its parameters cannot be encoded.\<close>

definition zero_trigger :: trigger_spec where
  "zero_trigger = \<lparr>tr_Kind = TriggerOther [], tr_Cron = [], tr_OnComplete = [], tr_Condition = [], tr_Params = []\<rparr>"

definition trigger_column :: "trigger_spec \<Rightarrow> trigger_spec" where
  "trigger_column t = (if list_all (\<lambda>(k, v). json_ok v) (tr_Params t)
     then t\<lparr>tr_Params := json_column (tr_Params t)\<rparr> else zero_trigger)"

definition workflow_row :: "workflow \<Rightarrow> workflow" where
  "workflow_row w = w\<lparr>wf_Params := json_column (wf_Params w),
     wf_Trigger := trigger_column (wf_Trigger w)\<rparr>"

definition workflow_state_row :: "env \<Rightarrow> bool \<Rightarrow> string \<Rightarrow> workflow \<Rightarrow> workflow" where
  "workflow_state_row E active reason w =
     w\<lparr>wf_Active := active, wf_DeactivatedReason := reason, wf_UpdatedAt := env_now E\<rparr>"

text \<open>\<open>SaveWorkflow\<close> writes the time stamps into the workflow it is given, so it is returned.
  On a conflict every column but \<open>id\<close> and \<open>created_at\<close> is taken from the new row. (A threshold that is NaN
  would be bound as NULL and refused by the schema; JSON has no NaN, so no request carries one.)\<close>

definition SaveWorkflow ::
  "env \<Rightarrow> workflow \<Rightarrow> workflow_db \<Rightarrow> (go_error + unit) \<times> workflow \<times> workflow_db" where
  "SaveWorkflow E w db =
     (let w = (if IsZero (wf_CreatedAt w) then w\<lparr>wf_CreatedAt := env_now E\<rparr> else w);
          w = w\<lparr>wf_UpdatedAt := env_now E\<rparr> in
      case wd_faults db ''SaveWorkflow'' of
        Some e \<Rightarrow> (Inl e, w, db)
      | None \<Rightarrow> (Inr (), w, db\<lparr>wd_rows := upsert wf_ID
          (\<lambda>old. (workflow_row w)\<lparr>wf_ID := wf_ID old, wf_CreatedAt := wf_CreatedAt old\<rparr>)
          (workflow_row w) (wd_rows db)\<rparr>))"

definition GetWorkflow :: "string \<Rightarrow> workflow_db \<Rightarrow> go_error + workflow" where
  "GetWorkflow wid db = (case wd_faults db ''GetWorkflow'' of
     Some e \<Rightarrow> Inl e
   | None \<Rightarrow> (case lookup_row wf_ID wid (wd_rows db) of
       None \<Rightarrow> Inl ErrWorkflowNotFound | Some w \<Rightarrow> Inr w))"

definition ListAllWorkflows :: "workflow_db \<Rightarrow> go_error + workflow list" where
  "ListAllWorkflows db = (case wd_faults db ''ListAllWorkflows'' of
     Some e \<Rightarrow> Inl e | None \<Rightarrow> Inr (order_desc wf_CreatedAt (wd_rows db)))"

definition ListActiveWorkflows :: "workflow_db \<Rightarrow> go_error + workflow list" where
  "ListActiveWorkflows db = (case wd_faults db ''ListActiveWorkflows'' of
     Some e \<Rightarrow> Inl e | None \<Rightarrow> Inr (order_desc wf_CreatedAt (filter wf_Active (wd_rows db))))"

definition ListWorkflowsByType :: "string \<Rightarrow> workflow_db \<Rightarrow> go_error + workflow list" where
  "ListWorkflowsByType workflowType db = (case wd_faults db ''ListWorkflowsByType'' of
     Some e \<Rightarrow> Inl e
   | None \<Rightarrow> Inr (filter (\<lambda>w. wf_WorkflowType w = workflowType) (wd_rows db)))"

definition UpdateWorkflowState ::
  "env \<Rightarrow> string \<Rightarrow> bool \<Rightarrow> string \<Rightarrow> workflow_db \<Rightarrow> (go_error + unit) \<times> workflow_db" where
  "UpdateWorkflowState E wid active reason db = (case wd_faults db ''UpdateWorkflowState'' of
     Some e \<Rightarrow> (Inl e, db)
   | None \<Rightarrow>
      (let upd = (\<lambda>w. if wf_ID w = wid then workflow_state_row E active reason w else w);
           affected = length (filter (\<lambda>w. wf_ID w = wid) (wd_rows db)) in
       (if affected = 0 then Inl ErrWorkflowNotFound else Inr (),
        db\<lparr>wd_rows := map upd (wd_rows db)\<rparr>)))"

definition DeleteWorkflow :: "string \<Rightarrow> workflow_db \<Rightarrow> (go_error + unit) \<times> workflow_db" where
  "DeleteWorkflow wid db = (case wd_faults db ''DeleteWorkflow'' of
     Some e \<Rightarrow> (Inl e, db)
   | None \<Rightarrow>
      (let affected = length (filter (\<lambda>w. wf_ID w = wid) (wd_rows db)) in
       (if affected = 0 then Inl ErrWorkflowNotFound else Inr (),
        db\<lparr>wd_rows := filter (\<lambda>w. wf_ID w \<noteq> wid) (wd_rows db)\<rparr>)))"

section \<open>The state manager\<close>

definition DeactivateWorkflow ::
  "env \<Rightarrow> string \<Rightarrow> string \<Rightarrow> workflow_db \<Rightarrow> (go_error + unit) \<times> workflow_db" where
  "DeactivateWorkflow E workflowID reason db = UpdateWorkflowState E workflowID False reason db"

definition ActivateWorkflow ::
  "env \<Rightarrow> string \<Rightarrow> string \<Rightarrow> workflow_db \<Rightarrow> (go_error + unit) \<times> workflow_db" where
  "ActivateWorkflow E workflowID reason db = UpdateWorkflowState E workflowID True reason db"

definition IsWorkflowActive :: "string \<Rightarrow> workflow_db \<Rightarrow> bool" where
  "IsWorkflowActive workflowID db = (case GetWorkflow workflowID db of
     Inl _ \<Rightarrow> False | Inr w \<Rightarrow> wf_Active w)"

section \<open>The table as a map\<close>

definition workflows_ready :: "workflow_db \<Rightarrow> bool" where
  "workflows_ready db \<longleftrightarrow> wd_faults db = no_faults \<and> distinct (map wf_ID (wd_rows db))"

definition workflow_map :: "workflow_db \<Rightarrow> (string \<rightharpoonup> workflow)" where
  "workflow_map db = (\<lambda>k. lookup_row wf_ID k (wd_rows db))"

text \<open>The time stamps of a save: the creation time of the row there was, if any.\<close>

definition saved_workflow :: "env \<Rightarrow> workflow \<Rightarrow> workflow option \<Rightarrow> workflow" where
  "saved_workflow E w old = (workflow_row w)\<lparr>wf_UpdatedAt := env_now E,
     wf_CreatedAt := (case old of Some o' \<Rightarrow> wf_CreatedAt o'
       | None \<Rightarrow> if IsZero (wf_CreatedAt w) then env_now E else wf_CreatedAt w)\<rparr>"

lemma workflow_row_id [simp]: "wf_ID (workflow_row w) = wf_ID w"
  by (simp add: workflow_row_def)

lemma saved_workflow_id [simp]: "wf_ID (saved_workflow E w old) = wf_ID w"
  by (simp add: saved_workflow_def)

lemma SaveWorkflow_map:
  assumes "wd_faults db = no_faults"
  shows "workflow_map (snd (snd (SaveWorkflow E w db)))
    = (workflow_map db)(wf_ID w \<mapsto> saved_workflow E w (workflow_map db (wf_ID w)))"
proof -
  define v where "v = (if IsZero (wf_CreatedAt w) then w\<lparr>wf_CreatedAt := env_now E\<rparr> else w)\<lparr>wf_UpdatedAt := env_now E\<rparr>"
  have id: "wf_ID v = wf_ID w" by (simp add: v_def)
  have "snd (snd (SaveWorkflow E w db)) = db\<lparr>wd_rows := upsert wf_ID
      (\<lambda>old. (workflow_row v)\<lparr>wf_ID := wf_ID old, wf_CreatedAt := wf_CreatedAt old\<rparr>)
      (workflow_row v) (wd_rows db)\<rparr>"
    using assms by (simp add: SaveWorkflow_def v_def Let_def)
  then have at: "workflow_map (snd (snd (SaveWorkflow E w db))) k = (if k = wf_ID w
      then Some (case workflow_map db (wf_ID w) of None \<Rightarrow> workflow_row v
        | Some old \<Rightarrow> (workflow_row v)\<lparr>wf_ID := wf_ID old, wf_CreatedAt := wf_CreatedAt old\<rparr>)
      else workflow_map db k)" for k
    by (simp add: workflow_map_def lookup_row_upsert id)
  have old: "(workflow_row v)\<lparr>wf_ID := wf_ID old, wf_CreatedAt := wf_CreatedAt old\<rparr>
      = saved_workflow E w (Some old)" if "workflow_map db (wf_ID w) = Some old" for old
    using that lookup_row_SomeD [of wf_ID "wf_ID w" "wd_rows db" old]
    by (simp add: workflow_map_def v_def saved_workflow_def workflow_row_def)
  have new: "workflow_row v = saved_workflow E w None"
    by (simp add: v_def saved_workflow_def workflow_row_def)
  show ?thesis
  proof (cases "workflow_map db (wf_ID w)")
    case None
    show ?thesis by (rule ext) (simp add: at None new)
  next
    case (Some r)
    show ?thesis by (rule ext) (simp add: at Some old [OF Some])
  qed
qed

lemma SaveWorkflow_faults [simp, frame]: "wd_faults (snd (snd (SaveWorkflow E w db))) = wd_faults db"
  by (simp add: SaveWorkflow_def Let_def split: option.splits)

lemma SaveWorkflow_ready: "workflows_ready db \<Longrightarrow> workflows_ready (snd (snd (SaveWorkflow E w db)))"
  unfolding workflows_ready_def
  by (auto simp: SaveWorkflow_def Let_def intro!: distinct_upsert)

lemma filter_id_empty: "length (filter (\<lambda>w. wf_ID w = k) ws) = 0 \<longleftrightarrow> lookup_row wf_ID k ws = None"
  by (auto simp: lookup_row_None_iff filter_empty_conv)

lemma lookup_row_update:
  assumes "\<And>w. wf_ID (f w) = wf_ID w"
  shows "lookup_row wf_ID k (map (\<lambda>w. if wf_ID w = k' then f w else w) ws)
    = (if k = k' then map_option f (lookup_row wf_ID k ws) else lookup_row wf_ID k ws)"
  using assms by (induction ws) auto

lemma lookup_row_filter:
  "lookup_row wf_ID k (filter (\<lambda>w. wf_ID w \<noteq> k') ws) = (if k = k' then None else lookup_row wf_ID k ws)"
  by (induction ws) auto

lemma workflow_state_row_id [simp]: "wf_ID (workflow_state_row E active reason w) = wf_ID w"
  by (simp add: workflow_state_row_def)

lemma UpdateWorkflowState_map:
  assumes "wd_faults db = no_faults" and "UpdateWorkflowState E k active reason db = (res, db')"
  shows "workflow_map db' = (workflow_map db)(k := map_option (workflow_state_row E active reason)
        (workflow_map db k))
    \<and> res = (if workflow_map db k = None then Inl ErrWorkflowNotFound else Inr ())
    \<and> wd_faults db' = wd_faults db \<and> map wf_ID (wd_rows db') = map wf_ID (wd_rows db)"
proof -
  have db': "db' = db\<lparr>wd_rows := map (\<lambda>w. if wf_ID w = k then workflow_state_row E active reason w
      else w) (wd_rows db)\<rparr>"
    and "res = (if workflow_map db k = None then Inl ErrWorkflowNotFound else Inr ())"
    using assms unfolding UpdateWorkflowState_def workflow_map_def filter_id_empty [symmetric]
    by (simp_all add: Let_def)
  moreover have "map wf_ID (wd_rows db') = map wf_ID (wd_rows db)" by (simp add: db' comp_def)
  moreover have "workflow_map db' = (workflow_map db)(k := map_option (workflow_state_row E active reason)
      (workflow_map db k))"
    by (rule ext) (simp add: db' workflow_map_def lookup_row_update)
  ultimately show ?thesis by (simp add: db')
qed

lemma DeleteWorkflow_map:
  assumes "wd_faults db = no_faults" and "DeleteWorkflow k db = (res, db')"
  shows "workflow_map db' = (workflow_map db)(k := None)
    \<and> res = (if workflow_map db k = None then Inl ErrWorkflowNotFound else Inr ())
    \<and> wd_faults db' = wd_faults db \<and> (distinct (map wf_ID (wd_rows db)) \<longrightarrow> distinct (map wf_ID (wd_rows db')))"
proof -
  have db': "db' = db\<lparr>wd_rows := filter (\<lambda>w. wf_ID w \<noteq> k) (wd_rows db)\<rparr>"
    and "res = (if workflow_map db k = None then Inl ErrWorkflowNotFound else Inr ())"
    using assms unfolding DeleteWorkflow_def workflow_map_def filter_id_empty [symmetric]
    by (simp_all add: Let_def)
  moreover have "workflow_map db' = (workflow_map db)(k := None)"
    by (rule ext) (simp add: db' workflow_map_def lookup_row_filter)
  ultimately show ?thesis by (simp add: db' distinct_map_filter)
qed

lemma GetWorkflow_InrD: "GetWorkflow k db = Inr w \<Longrightarrow> w \<in> set (wd_rows db) \<and> wf_ID w = k"
  by (auto simp: GetWorkflow_def dest: lookup_row_SomeD split: option.splits)

lemma GetWorkflow_map:
  "wd_faults db = no_faults \<Longrightarrow> GetWorkflow k db =
    (case workflow_map db k of None \<Rightarrow> Inl ErrWorkflowNotFound | Some w \<Rightarrow> Inr w)"
  by (simp add: GetWorkflow_def workflow_map_def)

interpretation workflow_table: keyed_table wf_ID
  "\<lambda>w db. snd (snd (SaveWorkflow E w db))"
  "\<lambda>k db. case GetWorkflow k db of Inr w \<Rightarrow> Some w | Inl _ \<Rightarrow> None"
  "\<lambda>w db. saved_workflow E w (workflow_map db (wf_ID w))"
  workflows_ready
  for E
proof unfold_locales
  fix db k r E
  assume ready: "workflows_ready db"
  then have ok: "wd_faults db = no_faults" by (simp add: workflows_ready_def)
  then show "(case GetWorkflow k (snd (snd (SaveWorkflow E r db))) of Inr w \<Rightarrow> Some w | Inl _ \<Rightarrow> None)
    = (if k = wf_ID r then Some (saved_workflow E r (workflow_map db (wf_ID r)))
       else case GetWorkflow k db of Inr w \<Rightarrow> Some w | Inl _ \<Rightarrow> None)"
    by (simp add: GetWorkflow_map SaveWorkflow_map split: option.split)
  show "workflows_ready (snd (snd (SaveWorkflow E r db)))" using ready by (rule SaveWorkflow_ready)
qed

section \<open>Operations as a sequence\<close>

datatype workflow_op =
    SaveOp env workflow
  | SetStateOp env string bool string
  | DeleteOp string

fun run_workflow_op :: "workflow_op \<Rightarrow> workflow_db \<Rightarrow> workflow_db" where
  "run_workflow_op (SaveOp E w) db = snd (snd (SaveWorkflow E w db))"
| "run_workflow_op (SetStateOp E k active reason) db =
     snd ((if active then ActivateWorkflow else DeactivateWorkflow) E k reason db)"
| "run_workflow_op (DeleteOp k) db = snd (DeleteWorkflow k db)"

text \<open>The same operations on a finite map from identifiers to workflows.\<close>

fun spec_workflow_op :: "workflow_op \<Rightarrow> (string \<rightharpoonup> workflow) \<Rightarrow> (string \<rightharpoonup> workflow)" where
  "spec_workflow_op (SaveOp E w) m = m(wf_ID w \<mapsto> saved_workflow E w (m (wf_ID w)))"
| "spec_workflow_op (SetStateOp E k active reason) m =
     m(k := map_option (workflow_state_row E active reason) (m k))"
| "spec_workflow_op (DeleteOp k) m = m(k := None)"

lemma workflow_op_refines:
  assumes "workflows_ready db"
  shows "workflows_ready (run_workflow_op x db)
    \<and> workflow_map (run_workflow_op x db) = spec_workflow_op x (workflow_map db)"
proof (cases x)
  case (SaveOp E w)
  with assms SaveWorkflow_ready [OF assms, of E w] show ?thesis
    by (simp add: SaveWorkflow_map workflows_ready_def)
next
  case (SetStateOp E k active reason)
  obtain res db' where u: "UpdateWorkflowState E k active reason db = (res, db')" by fastforce
  have "run_workflow_op x db = db'"
    using u SetStateOp by (cases active) (simp_all add: ActivateWorkflow_def DeactivateWorkflow_def)
  with UpdateWorkflowState_map [OF _ u] assms SetStateOp show ?thesis
    by (simp add: workflows_ready_def)
next
  case (DeleteOp k)
  obtain res db' where "DeleteWorkflow k db = (res, db')" by fastforce
  with DeleteWorkflow_map [of db k res db'] assms DeleteOp show ?thesis
    by (simp add: workflows_ready_def)
qed

lemma workflow_ops_refine:
  "workflows_ready db \<Longrightarrow> workflows_ready (fold run_workflow_op xs db)
    \<and> workflow_map (fold run_workflow_op xs db) = fold spec_workflow_op xs (workflow_map db)"
proof (induction xs arbitrary: db)
  case (Cons x xs)
  with workflow_op_refines [OF Cons.prems, of x] show ?case by simp
qed simp

lemma ready_row_iff:
  "distinct (map wf_ID (wd_rows db)) \<Longrightarrow> w \<in> set (wd_rows db) \<longleftrightarrow> workflow_map db (wf_ID w) = Some w"
  using lookup_row_SomeD [of wf_ID "wf_ID w" "wd_rows db" w]
  by (auto simp: workflow_map_def lookup_row_distinct)

section \<open>Properties\<close>

definition sample_workflow :: workflow where
  "sample_workflow = \<lparr>wf_ID = ''w1'', wf_Name = ''Nightly'', wf_Description = [],
     wf_WorkflowType = ''upgrade'', wf_Activity = ActivityUpgradePackage, wf_Params = [],
     wf_TargetFilter = ''os == ubuntu'', wf_Trigger = \<lparr>tr_Kind = TriggerManual, tr_Cron = [],
       tr_OnComplete = [], tr_Condition = [], tr_Params = []\<rparr>, wf_SuccessThreshold = FFin 80,
     wf_LoopThresholdMS = 5000, wf_TimeoutMS = 30000, wf_Active = True, wf_CreatedAt = 0,
     wf_UpdatedAt = 0, wf_DeactivatedReason = []\<rparr>"

text \<open>C22. The workflows table refines a finite map: after any sequence of saves, activations,
  deactivations and deletions on a healthy table, looking a workflow up answers what the same
  sequence does to a map from identifiers to workflows, where a save keeps the creation time of
  the row it replaces; \<open>IsWorkflowActive\<close> and the list of active workflows are read off that map.\<close>

theorem workflow_table_refines_map:
  assumes "workflows_ready db" and "m = fold spec_workflow_op ops (workflow_map db)"
    and "db' = fold run_workflow_op ops db"
  shows "GetWorkflow k db' = (case m k of None \<Rightarrow> Inl ErrWorkflowNotFound | Some w \<Rightarrow> Inr w)
    \<and> IsWorkflowActive k db' = (\<exists>w. m k = Some w \<and> wf_Active w)
    \<and> (\<exists>ws. ListActiveWorkflows db' = Inr ws \<and> set ws = {w. m (wf_ID w) = Some w \<and> wf_Active w}
        \<and> sorted_wrt (\<lambda>a b. wf_CreatedAt b \<le> wf_CreatedAt a) ws)"
proof -
  have ready: "workflows_ready db'" and m: "workflow_map db' = m"
    using workflow_ops_refine [OF assms(1)] assms(2,3) by simp_all
  then have get: "GetWorkflow k db' = (case m k of None \<Rightarrow> Inl ErrWorkflowNotFound | Some w \<Rightarrow> Inr w)"
    by (simp add: GetWorkflow_map workflows_ready_def)
  moreover have "IsWorkflowActive k db' = (\<exists>w. m k = Some w \<and> wf_Active w)"
    by (simp add: IsWorkflowActive_def get split: option.split)
  moreover have "w \<in> set (wd_rows db') \<longleftrightarrow> m (wf_ID w) = Some w" for w
    using ready_row_iff [of db' w] ready m by (simp add: workflows_ready_def)
  ultimately show ?thesis
    using ready by (auto simp: ListActiveWorkflows_def workflows_ready_def intro: sorted_order_desc)
qed

theorem workflow_table_refines_map_witness:
  "\<not> IsWorkflowActive ''w1'' (fold run_workflow_op
      [SaveOp \<lparr>env_now = 5, env_uuid = \<lambda>_. []\<rparr> sample_workflow,
       SetStateOp \<lparr>env_now = 6, env_uuid = \<lambda>_. []\<rparr> ''w1'' False ''manual'']
      \<lparr>wd_rows = [], wd_faults = no_faults\<rparr>)"
proof -
  have ready: "workflows_ready \<lparr>wd_rows = [], wd_faults = no_faults\<rparr>" by (simp add: workflows_ready_def)
  show ?thesis
    unfolding workflow_table_refines_map [OF ready refl refl, THEN conjunct2, THEN conjunct1]
    by (auto simp: sample_workflow_def workflow_state_row_def)
qed

text \<open>C40. The durations of a workflow: a definition accepted by \<open>ValidateDefinition\<close> whose
  millisecond fields are at most 9223372036854 (about 292 years) has a positive loop threshold
  and a positive timeout, the configured number of milliseconds or, for zero, the default; above
  that bound the multiplication wraps, and there is a valid definition with a negative threshold.\<close>

theorem workflow_durations_positive_up_to_bound:
  assumes "ValidateDefinition w = None"
    and "sint (wf_LoopThresholdMS w) \<le> 9223372036854" and "sint (wf_TimeoutMS w) \<le> 9223372036854"
  shows "0 < sint (LoopThreshold w) \<and> 0 < sint (GetActivityTimeout w)
    \<and> sint (LoopThreshold w) = (if wf_LoopThresholdMS w = 0 then 5000 else sint (wf_LoopThresholdMS w)) * 1000000
    \<and> sint (GetActivityTimeout w) = (if wf_TimeoutMS w = 0 then 30000 else sint (wf_TimeoutMS w)) * 1000000
    \<and> (\<exists>v. ValidateDefinition v = None \<and> wf_LoopThresholdMS v = 9223372036855 \<and> sint (LoopThreshold v) < 0)"
proof -
  have nonneg: "0 \<le> sint (wf_LoopThresholdMS w)" "0 \<le> sint (wf_TimeoutMS w)"
    using assms(1) by (auto simp: ValidateDefinition_def split: if_splits)
  have zero: "sint x \<le> 0 \<longleftrightarrow> x = 0" if "0 \<le> sint x" for x :: int64
    using that by (metis antisym order_refl signed_word_eqI sint_0)
  have mono: "sint (x * Millisecond) = sint x * 1000000"
    if "0 \<le> sint x" "sint x \<le> 9223372036854" for x :: int64
    using that by (rule sint_millis)
  have wrap: "sint ((9223372036855 :: int64) * Millisecond) < 0"
    by (simp add: Millisecond_def)
  have "\<exists>v. ValidateDefinition v = None \<and> wf_LoopThresholdMS v = 9223372036855 \<and> sint (LoopThreshold v) < 0"
    using wrap by (intro exI [of _ "sample_workflow\<lparr>wf_LoopThresholdMS := 9223372036855\<rparr>"])
      (simp add: ValidateDefinition_def sample_workflow_def LoopThreshold_def ActivityType_IsValid_iff
        f64_of_int_exact)
  moreover have "0 < sint x" if "0 \<le> sint x" "x \<noteq> 0" for x :: int64
    using zero [OF that(1)] that(2) by linarith
  ultimately show ?thesis
    using nonneg assms(2,3) zero mono
    by (auto simp: LoopThreshold_def GetActivityTimeout_def default_durations)
qed

theorem workflow_durations_positive_up_to_bound_witness:
  "sint (LoopThreshold sample_workflow) = 5000000000"
  using workflow_durations_positive_up_to_bound [of sample_workflow]
  by (simp add: sample_workflow_def ValidateDefinition_def ActivityType_IsValid_iff f64_of_int_exact)

end
