(* ===== verification/Circuit.thy ===== *)
theory Circuit
  imports Health Workflows
begin

text \<open>
  Circuit breaker states and policies (\<open>internal/core/domain/circuit.go\<close>), the table of
  breakers (\<open>internal/adapters/repository/circuit_repo.go\<close>) and the two sources of thresholds
  (\<open>internal/core/services/config_repos.go\<close>).
\<close>

section \<open>Breakers and policies\<close>

datatype circuit_state = CircuitClosed | CircuitOpen | CircuitHalfOpen | CircuitOther string

definition CircuitState_CanDispatch :: "circuit_state \<Rightarrow> bool" where
  "CircuitState_CanDispatch s \<longleftrightarrow> s = CircuitClosed \<or> s = CircuitHalfOpen"

fun Description :: "circuit_state \<Rightarrow> string" where
  "Description CircuitClosed = ''closed''"
| "Description CircuitOpen = ''open''"
| "Description CircuitHalfOpen = ''half-open''"
| "Description (CircuitOther s) = ''unknown''"

record policy =
  po_SuccessThreshold :: float64
  po_EvaluationWindow :: int64
  po_CooldownPeriod :: duration

definition Policy_Validate :: "policy \<Rightarrow> go_error option" where
  "Policy_Validate p =
     (if flt (po_SuccessThreshold p) (f64_of_int 0) \<or> flt (f64_of_int 100) (po_SuccessThreshold p)
      then Some ErrInvalidPolicy
      else if sint (po_EvaluationWindow p) < 0 then Some ErrInvalidPolicy
      else None)"

definition IsHealthyEnough :: "policy \<Rightarrow> type_health \<Rightarrow> bool" where
  "IsHealthyEnough p h =
     (if th_RunsConsidered h = 0 then True
      else fle (po_SuccessThreshold p) (th_SuccessPercentageAvg h))"

record breaker =
  cb_WorkflowID :: string
  cb_WorkflowType :: string
  cb_State :: circuit_state
  cb_OpenedAt :: time
  cb_LastEvaluatedAt :: time
  cb_OpenedReason :: string
  cb_EvaluationCount :: int

definition Breaker_CanDispatch :: "breaker \<Rightarrow> bool" where
  "Breaker_CanDispatch b = CircuitState_CanDispatch (cb_State b)"

definition IsRecoveryReady :: "duration \<Rightarrow> time \<Rightarrow> breaker \<Rightarrow> bool" where
  "IsRecoveryReady cooldown now b =
     (if cb_State b \<noteq> CircuitOpen then False
      else if IsZero (cb_OpenedAt b) then True
      else sint cooldown \<le> sint (Time_Sub now (cb_OpenedAt b)))"

definition EvaluateHealth :: "policy option \<Rightarrow> type_health option \<Rightarrow> circuit_state" where
  "EvaluateHealth p h = (case (p, h) of
     (Some p, Some h) \<Rightarrow>
       if th_RunsConsidered h = 0 then CircuitClosed
       else if IsHealthyEnough p h then CircuitClosed
       else CircuitOpen
   | _ \<Rightarrow> CircuitClosed)"

section \<open>The table of breakers\<close>

record circuit_db =
  xd_rows :: "breaker list"
  xd_faults :: faults

definition SaveCircuitState :: "env \<Rightarrow> breaker \<Rightarrow> circuit_db \<Rightarrow> (go_error + unit) \<times> circuit_db" where
  "SaveCircuitState E s db =
     (let s = (if IsZero (cb_LastEvaluatedAt s) then s\<lparr>cb_LastEvaluatedAt := env_now E\<rparr> else s) in
      case xd_faults db ''SaveCircuitState'' of
        Some e \<Rightarrow> (Inl e, db)
      | None \<Rightarrow> (Inr (), db\<lparr>xd_rows := upsert cb_WorkflowID
          (\<lambda>old. s\<lparr>cb_WorkflowID := cb_WorkflowID old\<rparr>) s (xd_rows db)\<rparr>))"

definition Repo_GetCircuitState :: "string \<Rightarrow> circuit_db \<Rightarrow> go_error + breaker" where
  "Repo_GetCircuitState workflowID db = (case xd_faults db ''GetCircuitState'' of
     Some e \<Rightarrow> Inl e
   | None \<Rightarrow> (case lookup_row cb_WorkflowID workflowID (xd_rows db) of
       None \<Rightarrow> Inl ErrCircuitStateNotFound | Some b \<Rightarrow> Inr b))"

definition Repo_ListCircuitStates :: "circuit_db \<Rightarrow> go_error + breaker list" where
  "Repo_ListCircuitStates db = (case xd_faults db ''ListCircuitStates'' of
     Some e \<Rightarrow> Inl e | None \<Rightarrow> Inr (xd_rows db))"

definition circuits_ready :: "circuit_db \<Rightarrow> bool" where
  "circuits_ready db \<longleftrightarrow> xd_faults db = no_faults \<and> distinct (map cb_WorkflowID (xd_rows db))"

definition stamped :: "env \<Rightarrow> breaker \<Rightarrow> breaker" where
  "stamped E s = (if IsZero (cb_LastEvaluatedAt s) then s\<lparr>cb_LastEvaluatedAt := env_now E\<rparr> else s)"

lemma stamped_id [simp]: "cb_WorkflowID (stamped E s) = cb_WorkflowID s" "cb_State (stamped E s) = cb_State s"
  "cb_OpenedAt (stamped E s) = cb_OpenedAt s" "cb_OpenedReason (stamped E s) = cb_OpenedReason s"
  "cb_EvaluationCount (stamped E s) = cb_EvaluationCount s"
  by (simp_all add: stamped_def)

lemma SaveCircuitState_eq:
  "xd_faults db = no_faults \<Longrightarrow> SaveCircuitState E s db = (Inr (), db\<lparr>xd_rows := upsert cb_WorkflowID
     (\<lambda>old. (stamped E s)\<lparr>cb_WorkflowID := cb_WorkflowID old\<rparr>) (stamped E s) (xd_rows db)\<rparr>)"
  by (simp add: SaveCircuitState_def stamped_def Let_def)

lemma lookup_SaveCircuitState:
  assumes "xd_faults db = no_faults"
  shows "lookup_row cb_WorkflowID k (xd_rows (snd (SaveCircuitState E s db)))
    = (if k = cb_WorkflowID s then Some (stamped E s) else lookup_row cb_WorkflowID k (xd_rows db))"
proof -
  have "(stamped E s)\<lparr>cb_WorkflowID := cb_WorkflowID s\<rparr> = stamped E s"
    by (simp add: stamped_def)
  then show ?thesis
    by (simp add: SaveCircuitState_eq [OF assms] lookup_row_upsert_replace)
qed

lemma SaveCircuitState_faults [simp, frame]: "xd_faults (snd (SaveCircuitState E s db)) = xd_faults db"
  by (simp add: SaveCircuitState_def Let_def split: option.splits)

lemma SaveCircuitState_ready: "circuits_ready db \<Longrightarrow> circuits_ready (snd (SaveCircuitState E s db))"
  by (auto simp: circuits_ready_def SaveCircuitState_eq intro!: distinct_upsert)

interpretation circuit_table: keyed_table cb_WorkflowID
  "\<lambda>s db. snd (SaveCircuitState E s db)"
  "\<lambda>k db. case Repo_GetCircuitState k db of Inr b \<Rightarrow> Some b | Inl _ \<Rightarrow> None"
  "\<lambda>s db. stamped E s"
  circuits_ready
  for E
proof unfold_locales
  fix db k s E
  assume ready: "circuits_ready db"
  then show "(case Repo_GetCircuitState k (snd (SaveCircuitState E s db)) of Inr b \<Rightarrow> Some b | Inl _ \<Rightarrow> None)
    = (if k = cb_WorkflowID s then Some (stamped E s)
       else case Repo_GetCircuitState k db of Inr b \<Rightarrow> Some b | Inl _ \<Rightarrow> None)"
    by (simp add: circuits_ready_def Repo_GetCircuitState_def lookup_SaveCircuitState split: option.split)
  show "circuits_ready (snd (SaveCircuitState E s db))" using ready by (rule SaveCircuitState_ready)
qed

section \<open>Where thresholds come from\<close>

record config_repo =
  cr_defaultThreshold :: float64
  cr_defaultWindow :: int64

definition NewDefaultConfigRepository :: "float64 \<Rightarrow> int64 \<Rightarrow> config_repo" where
  "NewDefaultConfigRepository defaultThreshold defaultWindow =
     \<lparr>cr_defaultThreshold = (if fle defaultThreshold (f64_of_int 0) then f64_of_int 80 else defaultThreshold),
      cr_defaultWindow = (if sint defaultWindow \<le> 0 then 10 else defaultWindow)\<rparr>"

definition GetHealthThreshold :: "config_repo \<Rightarrow> workflow_db \<Rightarrow> string \<Rightarrow> health_threshold" where
  "GetHealthThreshold c db workflowType =
     (let t = \<lparr>ht_SuccessThreshold = cr_defaultThreshold c, ht_WindowSize = cr_defaultWindow c\<rparr> in
      case ListWorkflowsByType workflowType db of
        Inr (w # _) \<Rightarrow> (if flt (f64_of_int 0) (wf_SuccessThreshold w)
           then t\<lparr>ht_SuccessThreshold := wf_SuccessThreshold w\<rparr> else t)
      | _ \<Rightarrow> t)"

record policy_repo =
  pr_defaultThreshold :: float64
  pr_defaultWindow :: int64
  pr_defaultCooldown :: duration

definition NewDefaultPolicyRepo :: "float64 \<Rightarrow> int64 \<Rightarrow> int64 \<Rightarrow> policy_repo" where
  "NewDefaultPolicyRepo defaultThreshold defaultWindow defaultCooldownMS =
     (let cooldown = defaultCooldownMS * Millisecond in
     \<lparr>pr_defaultThreshold = (if fle defaultThreshold (f64_of_int 0) then f64_of_int 80 else defaultThreshold),
      pr_defaultWindow = (if sint defaultWindow \<le> 0 then 10 else defaultWindow),
      pr_defaultCooldown = (if sint cooldown \<le> 0 then 5 * Minute else cooldown)\<rparr>)"

definition GetDefaultPolicy :: "policy_repo \<Rightarrow> policy" where
  "GetDefaultPolicy p = \<lparr>po_SuccessThreshold = pr_defaultThreshold p,
     po_EvaluationWindow = pr_defaultWindow p, po_CooldownPeriod = pr_defaultCooldown p\<rparr>"

definition GetPolicy :: "policy_repo \<Rightarrow> workflow_db \<Rightarrow> string \<Rightarrow> policy" where
  "GetPolicy p db workflowID = (case GetWorkflow workflowID db of
     Inl _ \<Rightarrow> GetDefaultPolicy p
   | Inr w \<Rightarrow> (let threshold = (if flt (f64_of_int 0) (wf_SuccessThreshold w)
          then wf_SuccessThreshold w else pr_defaultThreshold p) in
       \<lparr>po_SuccessThreshold = threshold, po_EvaluationWindow = pr_defaultWindow p,
        po_CooldownPeriod = pr_defaultCooldown p\<rparr>))"

end
