(* ===== verification/Server_State.thy ===== *)
theory Server_State
  imports Ban_Enforcement Clients Circuit
begin

text \<open>
  What the services of the server share: the dispatch message
  (\<open>internal/core/domain/dispatch.go\<close>), the events (\<open>events.go\<close>) and the in-process event bus
  (\<open>internal/adapters/messaging/event_bus.go\<close>), the two dispatchers
  (\<open>nats_dispatcher.go\<close>), and the state the services work on, one field per repository or
  adapter that \<open>cmd/main.go\<close> wires together.
\<close>

section \<open>Dispatches\<close>

record dispatch =
  di_RunID :: string
  di_WorkflowID :: string
  di_ClientID :: string
  di_Activity :: activity_type
  di_Params :: gmap
  di_DispatchedAt :: time

definition Dispatch_IsValid :: "dispatch \<Rightarrow> bool" where
  "Dispatch_IsValid d =
     (if di_RunID d = [] \<or> di_WorkflowID d = [] then False
      else if \<not> ActivityType_IsValid (di_Activity d) then False
      else True)"

text \<open>A connection: which publications and flushes fail, by number, and what was published under
  which subject. The in-memory dispatcher has a hook that may refuse instead.\<close>

record outbox =
  ob_calls :: nat
  ob_publish :: "nat \<Rightarrow> go_error option"
  ob_flush :: "nat \<Rightarrow> go_error option"
  ob_sent :: "(string \<times> dispatch) list"

type_synonym sender = "dispatch \<Rightarrow> outbox \<Rightarrow> go_error option \<times> outbox"

definition defaultDispatchSubject :: "string \<Rightarrow> string" where
  "defaultDispatchSubject clientID = ''dispatch.'' @ clientID"

text \<open>When only the flush fails the message has left, and the caller gets an error all the same.\<close>

definition NATS_SendDispatch :: sender where
  "NATS_SendDispatch d ob =
     (if \<not> list_all (\<lambda>(k, v). json_ok v) (di_Params d)
      then (Some (ErrWrap ''encode dispatch: '' (ErrMsg ''json: unsupported value'') []), ob)
      else (let n = ob_calls ob; ob = ob\<lparr>ob_calls := n + 1\<rparr> in
        case ob_publish ob n of
          Some e \<Rightarrow> (Some (ErrWrap ''publish: '' e []), ob)
        | None \<Rightarrow> (ob_flush ob n,
            ob\<lparr>ob_sent := ob_sent ob @ [(defaultDispatchSubject (di_ClientID d), d)]\<rparr>)))"

definition Channel_SendDispatch :: "(dispatch \<Rightarrow> go_error option) option \<Rightarrow> sender" where
  "Channel_SendDispatch onSend d ob =
     (case (case onSend of None \<Rightarrow> None | Some f \<Rightarrow> f d) of
        Some e \<Rightarrow> (Some e, ob)
      | None \<Rightarrow> (None, ob\<lparr>ob_sent := ob_sent ob @ [(defaultDispatchSubject (di_ClientID d), d)]\<rparr>))"

text \<open>\<open>SendBatchDispatches\<close> of both dispatchers: in order, up to the first error.\<close>

fun SendBatchDispatches :: "sender \<Rightarrow> dispatch list \<Rightarrow> outbox \<Rightarrow> go_error option \<times> outbox" where
  "SendBatchDispatches send [] ob = (None, ob)"
| "SendBatchDispatches send (d # ds) ob = (case send d ob of
     (Some e, ob) \<Rightarrow> (Some e, ob)
   | (None, ob) \<Rightarrow> SendBatchDispatches send ds ob)"

section \<open>Events and the bus\<close>

datatype event =
    HealthUpdatedEvent string string "run_health option" "type_health option" time
  | CircuitBreakerStateChangedEvent string string circuit_state circuit_state string time
  | WorkflowCompletionEvent string string string run_state time

fun EventType :: "event \<Rightarrow> string" where
  "EventType (HealthUpdatedEvent _ _ _ _ _) = ''health.updated''"
| "EventType (CircuitBreakerStateChangedEvent _ _ _ _ _ _) = ''circuit.state.changed''"
| "EventType (WorkflowCompletionEvent _ _ _ _ _) = ''workflow.completed''"

fun Event_Time :: "event \<Rightarrow> time" where
  "Event_Time (HealthUpdatedEvent _ _ _ _ t) = t"
| "Event_Time (CircuitBreakerStateChangedEvent _ _ _ _ _ t) = t"
| "Event_Time (WorkflowCompletionEvent _ _ _ _ t) = t"

type_synonym 's event_handler = "event \<Rightarrow> 's \<Rightarrow> (go_error + unit) \<times> 's"
type_synonym 's event_bus = "string \<rightharpoonup> 's event_handler list"

definition NewInMemoryEventBus :: "'s event_bus" where
  "NewInMemoryEventBus = Map.empty"

definition Subscribe :: "string \<Rightarrow> 's event_handler \<Rightarrow> 's event_bus \<Rightarrow> 's event_bus" where
  "Subscribe eventType handler b =
     b(eventType \<mapsto> (case b eventType of None \<Rightarrow> [] | Some hs \<Rightarrow> hs) @ [handler])"

text \<open>Handlers run one after the other; an error is logged and the next one runs.\<close>

fun publish_loop :: "event \<Rightarrow> 's event_handler list \<Rightarrow> 's \<Rightarrow> 's" where
  "publish_loop ev [] s = s"
| "publish_loop ev (h # hs) s = publish_loop ev hs (snd (h ev s))"

definition Publish :: "'s event_bus \<Rightarrow> event \<Rightarrow> 's \<Rightarrow> 's" where
  "Publish b ev s = publish_loop ev (case b (EventType ev) of None \<Rightarrow> [] | Some hs \<Rightarrow> hs) s"

section \<open>The state of the server\<close>

record server =
  sv_workflows :: workflow_db
  sv_clients :: client_db
  sv_runs :: run_db
  sv_results :: result_db
  sv_health :: health_db
  sv_circuits :: circuit_db
  sv_enf :: enforcement
  sv_outbox :: outbox

definition publish_alert :: "alert \<Rightarrow> server \<Rightarrow> server" where
  "publish_alert a S = S\<lparr>sv_enf := (sv_enf S)\<lparr>en_alerts :=
     map_option (PublishAlert (Some a)) (en_alerts (sv_enf S))\<rparr>\<rparr>"

definition healthy_server :: "server \<Rightarrow> bool" where
  "healthy_server S \<longleftrightarrow> wd_faults (sv_workflows S) = no_faults \<and> cd_faults (sv_clients S) = no_faults
     \<and> rd_faults (sv_runs S) = no_faults \<and> sd_faults (sv_results S) = no_faults
     \<and> hd_faults (sv_health S) = no_faults \<and> xd_faults (sv_circuits S) = no_faults
     \<and> bd_faults (en_bans (sv_enf S)) = no_faults"

definition tables_ok :: "server \<Rightarrow> bool" where
  "tables_ok S \<longleftrightarrow> distinct (map wf_ID (wd_rows (sv_workflows S)))
     \<and> distinct (map cm_ClientID (cd_rows (sv_clients S))) \<and> runs_ok (sv_runs S)
     \<and> distinct (map result_key (sd_rows (sv_results S)))
     \<and> distinct (map cb_WorkflowID (xd_rows (sv_circuits S)))"

text \<open>An empty server: no rows, no faults, a warm empty cache.\<close>

definition empty_server :: server where
  "empty_server = \<lparr>sv_workflows = \<lparr>wd_rows = [], wd_faults = no_faults\<rparr>,
     sv_clients = \<lparr>cd_rows = [], cd_faults = no_faults\<rparr>,
     sv_runs = \<lparr>rd_runs = [], rd_clients = [], rd_faults = no_faults\<rparr>,
     sv_results = \<lparr>sd_rows = [], sd_faults = no_faults\<rparr>,
     sv_health = \<lparr>hd_runs = [], hd_types = [], hd_faults = no_faults\<rparr>,
     sv_circuits = \<lparr>xd_rows = [], xd_faults = no_faults\<rparr>,
     sv_enf = \<lparr>en_bans = \<lparr>bd_rows = [], bd_next = 1, bd_faults = no_faults\<rparr>,
       en_blocker = Some NewInMemoryDispatchBlocker, en_alerts = Some []\<rparr>,
     sv_outbox = \<lparr>ob_calls = 0, ob_publish = \<lambda>_. None, ob_flush = \<lambda>_. None, ob_sent = []\<rparr>\<rparr>"

lemma empty_server_ok: "healthy_server empty_server" "tables_ok empty_server"
  by (simp_all add: healthy_server_def tables_ok_def runs_ok_def empty_server_def)

lemma publish_alert_fields [simp]:
  "sv_workflows (publish_alert a S) = sv_workflows S" "sv_clients (publish_alert a S) = sv_clients S"
  "sv_runs (publish_alert a S) = sv_runs S" "sv_results (publish_alert a S) = sv_results S"
  "sv_health (publish_alert a S) = sv_health S" "sv_circuits (publish_alert a S) = sv_circuits S"
  "sv_outbox (publish_alert a S) = sv_outbox S"
  "en_bans (sv_enf (publish_alert a S)) = en_bans (sv_enf S)"
  "en_blocker (sv_enf (publish_alert a S)) = en_blocker (sv_enf S)"
  by (simp_all add: publish_alert_def)

section \<open>The bus runs every handler\<close>

lemma publish_loop_append: "publish_loop ev (hs @ gs) s = publish_loop ev gs (publish_loop ev hs s)"
  by (induction hs arbitrary: s) auto

lemma Publish_new [simp]: "Publish NewInMemoryEventBus ev s = s"
  by (simp add: Publish_def NewInMemoryEventBus_def)

lemma Publish_Subscribe:
  "Publish (Subscribe t h b) ev s =
     (if EventType ev = t then snd (h ev (Publish b ev s)) else Publish b ev s)"
  by (auto simp: Publish_def Subscribe_def publish_loop_append split: option.splits)

end
