(* ===== verification/Circuit_Breaker.thy ===== *)
theory Circuit_Breaker
  imports Server_State
begin

text \<open>
  The circuit breaker service (\<open>internal/core/services/circuit_breaker.go\<close>). \<open>pub\<close> is the event
  bus it publishes to, as the effect of a publication on the state. A workflow type is evaluated
  workflow by workflow; a change of breaker state switches the workflow off or on.
\<close>

section \<open>The service\<close>

record circuit_service =
  cs_policy :: "policy_repo option"
  cs_stateMgr :: bool
  cs_defaultPol :: policy

definition default_policy :: policy where
  "default_policy = \<lparr>po_SuccessThreshold = f64_of_int 80, po_EvaluationWindow = 10,
     po_CooldownPeriod = 5 * Minute\<rparr>"

definition NewCircuitBreakerService ::
  "policy_repo option \<Rightarrow> bool \<Rightarrow> policy option \<Rightarrow> circuit_service" where
  "NewCircuitBreakerService pol mgr dflt = \<lparr>cs_policy = pol, cs_stateMgr = mgr,
     cs_defaultPol = (case dflt of None \<Rightarrow> default_policy | Some p \<Rightarrow> p)\<rparr>"

type_synonym pub = "event \<Rightarrow> server \<Rightarrow> server"

definition policy_for :: "circuit_service \<Rightarrow> workflow_db \<Rightarrow> string \<Rightarrow> policy" where
  "policy_for svc db wid = (case cs_policy svc of
     Some p \<Rightarrow> GetPolicy p db wid | None \<Rightarrow> cs_defaultPol svc)"

definition change_reason :: "type_health \<Rightarrow> policy \<Rightarrow> string" where
  "change_reason h policy = ''success='' @ fmt_fixed2 (th_SuccessPercentageAvg h) @ ''% threshold=''
     @ fmt_fixed2 (po_SuccessThreshold policy) @ ''% runs='' @ show_int (th_RunsConsidered h)"

text \<open>The branch taken when the state changes: the new breaker, and the server after the workflow
  was switched and the alert was published. \<open>i\<close> numbers the identifier the alert draws.\<close>

definition change_state ::
  "env \<Rightarrow> nat \<Rightarrow> circuit_service \<Rightarrow> workflow \<Rightarrow> circuit_state \<Rightarrow> string \<Rightarrow> breaker \<Rightarrow> server
     \<Rightarrow> breaker \<times> server" where
  "change_state E i svc w newState reason current S =
     (let current = current\<lparr>cb_State := newState\<rparr> in
      if newState = CircuitOpen then
        (let current = current\<lparr>cb_OpenedAt := env_now E, cb_OpenedReason := reason\<rparr>;
             S = (if cs_stateMgr svc then S\<lparr>sv_workflows :=
                 snd (DeactivateWorkflow E (wf_ID w) reason (sv_workflows S))\<rparr> else S);
             a = (NewAlert E i AlertCircuitOpened SeverityCritical
                 (''circuit opened for '' @ wf_ID w @ '': '' @ reason))\<lparr>al_Details :=
                   [(''workflow_id'', VStr (wf_ID w)), (''workflow_type'', VStr (wf_WorkflowType w)),
                    (''reason'', VStr reason)]\<rparr>
         in (current, publish_alert a S))
      else if newState = CircuitClosed then
        (let current = current\<lparr>cb_OpenedAt := 0, cb_OpenedReason := []\<rparr>;
             S = (if cs_stateMgr svc then S\<lparr>sv_workflows :=
                 snd (ActivateWorkflow E (wf_ID w) ''circuit recovered'' (sv_workflows S))\<rparr> else S);
             a = (NewAlert E i AlertCircuitClosed SeverityInfo
                 (''circuit closed for '' @ wf_ID w))\<lparr>al_Details :=
                   [(''workflow_id'', VStr (wf_ID w)), (''workflow_type'', VStr (wf_WorkflowType w))]\<rparr>
         in (current, publish_alert a S))
      else (current, S))"

definition current_breaker :: "workflow \<Rightarrow> circuit_db \<Rightarrow> breaker" where
  "current_breaker w db = (case Repo_GetCircuitState (wf_ID w) db of
     Inr b \<Rightarrow> b
   | Inl _ \<Rightarrow> \<lparr>cb_WorkflowID = wf_ID w, cb_WorkflowType = wf_WorkflowType w, cb_State = CircuitClosed,
       cb_OpenedAt = 0, cb_LastEvaluatedAt = 0, cb_OpenedReason = [], cb_EvaluationCount = 0\<rparr>)"

definition touched :: "env \<Rightarrow> breaker \<Rightarrow> breaker" where
  "touched E b = b\<lparr>cb_LastEvaluatedAt := env_now E, cb_EvaluationCount := cb_EvaluationCount b + 1\<rparr>"

definition evaluate_workflow ::
  "env \<Rightarrow> nat \<Rightarrow> pub \<Rightarrow> circuit_service \<Rightarrow> type_health \<Rightarrow> workflow \<Rightarrow> server
     \<Rightarrow> (go_error + unit) \<times> server" where
  "evaluate_workflow E i pub svc h w S =
     (let policy = policy_for svc (sv_workflows S) (wf_ID w);
          newState = EvaluateHealth (Some policy) (Some h);
          current = touched E (current_breaker w (sv_circuits S));
          oldState = cb_State current;
          (current, S) = (if oldState \<noteq> newState then
            (let reason = change_reason h policy;
                 (current, S) = change_state E i svc w newState reason current S
             in (current, pub (CircuitBreakerStateChangedEvent (wf_ID w) (wf_WorkflowType w)
                   oldState newState reason (env_now E)) S))
            else (current, S));
          (r, db) = SaveCircuitState E current (sv_circuits S)
      in (r, S\<lparr>sv_circuits := db\<rparr>))"

fun evaluate_loop ::
  "env \<Rightarrow> nat \<Rightarrow> pub \<Rightarrow> circuit_service \<Rightarrow> type_health \<Rightarrow> workflow list \<Rightarrow> server
     \<Rightarrow> (go_error + unit) \<times> server" where
  "evaluate_loop E i pub svc h [] S = (Inr (), S)"
| "evaluate_loop E i pub svc h (w # ws) S = (case evaluate_workflow E i pub svc h w S of
     (Inl e, S) \<Rightarrow> (Inl e, S)
   | (Inr _, S) \<Rightarrow> evaluate_loop E (i + 1) pub svc h ws S)"

definition EvaluateWorkflowType ::
  "env \<Rightarrow> pub \<Rightarrow> circuit_service \<Rightarrow> string \<Rightarrow> type_health option \<Rightarrow> server
     \<Rightarrow> (go_error + unit) \<times> server" where
  "EvaluateWorkflowType E pub svc workflowType h S =
     (case (case h of Some h \<Rightarrow> Inr h | None \<Rightarrow> GetWorkflowTypeHealth workflowType (sv_health S)) of
        Inl _ \<Rightarrow> (Inr (), S)
      | Inr h \<Rightarrow> (case ListWorkflowsByType workflowType (sv_workflows S) of
          Inl e \<Rightarrow> (Inl e, S)
        | Inr workflows \<Rightarrow> evaluate_loop E 0 pub svc h workflows S))"

definition OnHealthUpdatedEvent ::
  "env \<Rightarrow> pub \<Rightarrow> circuit_service \<Rightarrow> event \<Rightarrow> server \<Rightarrow> (go_error + unit) \<times> server" where
  "OnHealthUpdatedEvent E pub svc evt S = (case evt of
     HealthUpdatedEvent workflowID workflowType runHealth typeHealth t \<Rightarrow>
       EvaluateWorkflowType E pub svc workflowType typeHealth S
   | _ \<Rightarrow> (Inr (), S))"

text \<open>One evaluation per workflow type, in the order of first appearance. The alerts of later
  types draw later identifiers.\<close>

fun evaluate_types ::
  "env \<Rightarrow> pub \<Rightarrow> circuit_service \<Rightarrow> workflow list \<Rightarrow> string set \<Rightarrow> server \<Rightarrow> server" where
  "evaluate_types E pub svc [] seen S = S"
| "evaluate_types E pub svc (w # ws) seen S =
     (if wf_WorkflowType w \<in> seen then evaluate_types E pub svc ws seen S
      else evaluate_types (env_skip (length (wd_rows (sv_workflows S))) E) pub svc ws
        (insert (wf_WorkflowType w) seen)
        (snd (EvaluateWorkflowType E pub svc (wf_WorkflowType w) None S)))"

definition EvaluateAllWorkflows ::
  "env \<Rightarrow> pub \<Rightarrow> circuit_service \<Rightarrow> server \<Rightarrow> (go_error + unit) \<times> server" where
  "EvaluateAllWorkflows E pub svc S = (case ListAllWorkflows (sv_workflows S) of
     Inl e \<Rightarrow> (Inl e, S)
   | Inr workflows \<Rightarrow> (Inr (), evaluate_types E pub svc workflows {} S))"

definition Service_GetCircuitState :: "string \<Rightarrow> server \<Rightarrow> go_error + breaker" where
  "Service_GetCircuitState workflowID S = Repo_GetCircuitState workflowID (sv_circuits S)"

definition Service_ListCircuitStates :: "server \<Rightarrow> go_error + breaker list" where
  "Service_ListCircuitStates S = Repo_ListCircuitStates (sv_circuits S)"

section \<open>The effect of evaluating one workflow\<close>

text \<open>Nobody listens to the state changes in the server, so a publication changes nothing.\<close>

definition quiet :: "pub \<Rightarrow> bool" where
  "quiet pub \<longleftrightarrow> (\<forall>ev S. EventType ev = ''circuit.state.changed'' \<longrightarrow> pub ev S = S)"

definition decision :: "circuit_service \<Rightarrow> workflow_db \<Rightarrow> type_health \<Rightarrow> string \<Rightarrow> circuit_state" where
  "decision svc db h wid = EvaluateHealth (Some (policy_for svc db wid)) (Some h)"

definition breaker_state :: "circuit_db \<Rightarrow> string \<Rightarrow> circuit_state" where
  "breaker_state db wid = (case Repo_GetCircuitState wid db of Inr b \<Rightarrow> cb_State b | Inl _ \<Rightarrow> CircuitClosed)"

lemma decision_cases: "decision svc db h wid = CircuitClosed \<or> decision svc db h wid = CircuitOpen"
  by (simp add: decision_def EvaluateHealth_def)

lemma decision_open_iff:
  "decision svc db h wid = CircuitOpen \<longleftrightarrow> th_RunsConsidered h \<noteq> 0
     \<and> \<not> fle (po_SuccessThreshold (policy_for svc db wid)) (th_SuccessPercentageAvg h)"
  by (simp add: decision_def EvaluateHealth_def IsHealthyEnough_def)

lemma current_breaker_id: "cb_WorkflowID (current_breaker w db) = wf_ID w"
  by (auto simp: current_breaker_def Repo_GetCircuitState_def dest: lookup_row_SomeD
      split: option.splits)

lemma current_breaker_state: "cb_State (current_breaker w db) = breaker_state db (wf_ID w)"
  by (simp add: current_breaker_def breaker_state_def split: sum.split)

lemma change_state_effect:
  assumes "change_state E i svc w ns reason b S = (b', S')" and "ns = CircuitClosed \<or> ns = CircuitOpen"
  shows "cb_WorkflowID b' = cb_WorkflowID b \<and> cb_State b' = ns
    \<and> sv_workflows S' = (if cs_stateMgr svc
          then snd (UpdateWorkflowState E (wf_ID w) (ns = CircuitClosed)
            (if ns = CircuitClosed then ''circuit recovered'' else reason) (sv_workflows S))
          else sv_workflows S)
    \<and> sv_clients S' = sv_clients S \<and> sv_runs S' = sv_runs S \<and> sv_results S' = sv_results S
    \<and> sv_health S' = sv_health S \<and> sv_circuits S' = sv_circuits S \<and> sv_outbox S' = sv_outbox S
    \<and> en_bans (sv_enf S') = en_bans (sv_enf S) \<and> en_blocker (sv_enf S') = en_blocker (sv_enf S)"
  using assms
  by (auto simp: change_state_def Let_def ActivateWorkflow_def DeactivateWorkflow_def)

lemma evaluate_workflow_effect:
  assumes "healthy_server S" and "quiet pub" and "evaluate_workflow E i pub svc h w S = (res, S')"
  defines "ns \<equiv> decision svc (sv_workflows S) h (wf_ID w)"
  shows "res = Inr () \<and> (\<exists>b. cb_WorkflowID b = wf_ID w \<and> cb_State b = ns
      \<and> sv_circuits S' = snd (SaveCircuitState E b (sv_circuits S)))
    \<and> (\<exists>r. sv_workflows S' = (if breaker_state (sv_circuits S) (wf_ID w) \<noteq> ns \<and> cs_stateMgr svc
          then snd (UpdateWorkflowState E (wf_ID w) (ns = CircuitClosed) r (sv_workflows S))
          else sv_workflows S))
    \<and> sv_clients S' = sv_clients S \<and> sv_runs S' = sv_runs S \<and> sv_results S' = sv_results S
    \<and> sv_health S' = sv_health S \<and> sv_outbox S' = sv_outbox S
    \<and> en_bans (sv_enf S') = en_bans (sv_enf S) \<and> en_blocker (sv_enf S') = en_blocker (sv_enf S)"
proof -
  define policy where "policy = policy_for svc (sv_workflows S) (wf_ID w)"
  have ns: "EvaluateHealth (Some policy) (Some h) = ns" by (simp add: ns_def decision_def policy_def)
  define b0 where "b0 = touched E (current_breaker w (sv_circuits S))"
  have b0: "cb_WorkflowID b0 = wf_ID w" "cb_State b0 = breaker_state (sv_circuits S) (wf_ID w)"
    by (simp_all add: b0_def touched_def current_breaker_id current_breaker_state)
  have saved: "fst (SaveCircuitState E b (sv_circuits S)) = Inr ()" for b
    using assms(1) by (simp add: SaveCircuitState_eq healthy_server_def)
  show ?thesis
  proof (cases "cb_State b0 = ns")
    case True
    then have "evaluate_workflow E i pub svc h w S
        = (Inr (), S\<lparr>sv_circuits := snd (SaveCircuitState E b0 (sv_circuits S))\<rparr>)"
      unfolding evaluate_workflow_def Let_def policy_def [symmetric] b0_def [symmetric] ns
      by (simp add: saved split_beta)
    with assms(3) b0 True show ?thesis by auto
  next
    case False
    obtain b1 S1 where ch: "change_state E i svc w ns (change_reason h policy) b0 S = (b1, S1)" by fastforce
    note eff = change_state_effect [OF ch, unfolded ns_def, OF decision_cases, folded ns_def]
    have quiet: "pub (CircuitBreakerStateChangedEvent a b c d e t) S1 = S1" for a b c d e t
      using assms(2) by (simp add: quiet_def)
    have "evaluate_workflow E i pub svc h w S
        = (Inr (), S1\<lparr>sv_circuits := snd (SaveCircuitState E b1 (sv_circuits S))\<rparr>)"
      using False eff
      unfolding evaluate_workflow_def Let_def policy_def [symmetric] b0_def [symmetric] ns
      by (simp add: ch saved split_beta quiet)
    moreover have "S' = snd (evaluate_workflow E i pub svc h w S)" "res = fst (evaluate_workflow E i pub svc h w S)"
      using assms(3) by simp_all
    ultimately show ?thesis using b0 eff False by auto
  qed
qed

section \<open>The effect of evaluating a workflow type\<close>

lemma decision_cong:
  assumes "wd_faults db = no_faults" and "wd_faults db' = no_faults"
    and "workflow_map db' k = workflow_map db k"
  shows "decision svc db' h k = decision svc db h k"
  using assms by (simp add: decision_def policy_for_def GetPolicy_def GetWorkflow_map split: option.split)

lemma breaker_state_Save:
  assumes "xd_faults db = no_faults"
  shows "breaker_state (snd (SaveCircuitState E b db)) k
    = (if k = cb_WorkflowID b then cb_State b else breaker_state db k)"
  using assms
  by (simp add: breaker_state_def Repo_GetCircuitState_def lookup_SaveCircuitState split: option.split)

text \<open>What an evaluation did to workflow \<open>k\<close>.\<close>

definition switched ::
  "env \<Rightarrow> circuit_service \<Rightarrow> type_health \<Rightarrow> server \<Rightarrow> server \<Rightarrow> string \<Rightarrow> bool" where
  "switched E svc h S S' k \<longleftrightarrow>
     breaker_state (sv_circuits S') k = decision svc (sv_workflows S) h k
     \<and> (\<exists>r. workflow_map (sv_workflows S') k =
         (if breaker_state (sv_circuits S) k \<noteq> decision svc (sv_workflows S) h k \<and> cs_stateMgr svc
          then map_option (workflow_state_row E (decision svc (sv_workflows S) h k = CircuitClosed) r)
            (workflow_map (sv_workflows S) k)
          else workflow_map (sv_workflows S) k))"

definition untouched :: "server \<Rightarrow> server \<Rightarrow> string \<Rightarrow> bool" where
  "untouched S S' k \<longleftrightarrow> breaker_state (sv_circuits S') k = breaker_state (sv_circuits S) k
     \<and> workflow_map (sv_workflows S') k = workflow_map (sv_workflows S) k"

text \<open>The rest of the server.\<close>

definition same_rest :: "server \<Rightarrow> server \<Rightarrow> bool" where
  "same_rest S S' \<longleftrightarrow> sv_clients S' = sv_clients S \<and> sv_runs S' = sv_runs S \<and> sv_results S' = sv_results S
    \<and> sv_health S' = sv_health S \<and> sv_outbox S' = sv_outbox S
    \<and> en_bans (sv_enf S') = en_bans (sv_enf S) \<and> en_blocker (sv_enf S') = en_blocker (sv_enf S)"

lemma same_rest_refl [simp]: "same_rest S S"
  by (simp add: same_rest_def)

lemma same_rest_trans: "same_rest S S1 \<Longrightarrow> same_rest S1 S2 \<Longrightarrow> same_rest S S2"
  by (simp add: same_rest_def)

lemma one_workflow:
  assumes "healthy_server S" and "tables_ok S" and "quiet pub"
    and "evaluate_workflow E i pub svc h w S = (res, S')"
  shows "res = Inr () \<and> healthy_server S' \<and> tables_ok S' \<and> same_rest S S'
    \<and> switched E svc h S S' (wf_ID w) \<and> (\<forall>k. k \<noteq> wf_ID w \<longrightarrow> untouched S S' k)"
proof -
  let ?ns = "decision svc (sv_workflows S) h (wf_ID w)"
  from evaluate_workflow_effect [OF assms(1,3,4)] obtain b r where
    b: "cb_WorkflowID b = wf_ID w" "cb_State b = ?ns"
      "sv_circuits S' = snd (SaveCircuitState E b (sv_circuits S))"
    and wfs: "sv_workflows S' = (if breaker_state (sv_circuits S) (wf_ID w) \<noteq> ?ns \<and> cs_stateMgr svc
      then snd (UpdateWorkflowState E (wf_ID w) (?ns = CircuitClosed) r (sv_workflows S)) else sv_workflows S)"
    and rest: "res = Inr ()" "same_rest S S'"
    unfolding same_rest_def by blast
  have faults: "wd_faults (sv_workflows S) = no_faults" "xd_faults (sv_circuits S) = no_faults"
    using assms(1) by (simp_all add: healthy_server_def)
  obtain x db' where u: "UpdateWorkflowState E (wf_ID w) (?ns = CircuitClosed) r (sv_workflows S) = (x, db')"
    by fastforce
  note upd = UpdateWorkflowState_map [OF faults(1) u]
  have maps: "workflow_map (sv_workflows S') = (if breaker_state (sv_circuits S) (wf_ID w) \<noteq> ?ns \<and> cs_stateMgr svc
      then (workflow_map (sv_workflows S))(wf_ID w := map_option (workflow_state_row E (?ns = CircuitClosed) r)
        (workflow_map (sv_workflows S) (wf_ID w))) else workflow_map (sv_workflows S))"
    and same: "wd_faults (sv_workflows S') = wd_faults (sv_workflows S)"
      "map wf_ID (wd_rows (sv_workflows S')) = map wf_ID (wd_rows (sv_workflows S))"
    using wfs u upd by simp_all
  have "circuits_ready (sv_circuits S)"
    using assms(2) faults by (simp add: circuits_ready_def tables_ok_def)
  then have ready: "circuits_ready (sv_circuits S')"
    unfolding b(3) by (rule SaveCircuitState_ready)
  have "healthy_server S'" "tables_ok S'"
    using assms(1,2) rest(2) same ready
    by (simp_all add: healthy_server_def tables_ok_def same_rest_def circuits_ready_def)
  moreover have "switched E svc h S S' (wf_ID w)"
    unfolding switched_def b(3) breaker_state_Save [OF faults(2)] maps using b(1,2) by auto
  moreover have "untouched S S' k" if "k \<noteq> wf_ID w" for k
    unfolding untouched_def b(3) breaker_state_Save [OF faults(2)] maps using b(1) that by simp
  ultimately show ?thesis using rest by blast
qed

lemma evaluate_loop_effect:
  assumes "healthy_server S" and "tables_ok S" and "quiet pub" and "distinct (map wf_ID ws)"
    and "evaluate_loop E i pub svc h ws S = (res, S')"
  shows "res = Inr () \<and> healthy_server S' \<and> tables_ok S' \<and> same_rest S S'
    \<and> (\<forall>k \<in> wf_ID ` set ws. switched E svc h S S' k) \<and> (\<forall>k. k \<notin> wf_ID ` set ws \<longrightarrow> untouched S S' k)"
  using assms
proof (induction ws arbitrary: i S)
  case Nil
  then show ?case by (simp add: untouched_def)
next
  case (Cons w ws)
  obtain x S1 where w: "evaluate_workflow E i pub svc h w S = (x, S1)" by fastforce
  note one = one_workflow [OF Cons.prems(1-3) w]
  then have "evaluate_loop E (i + 1) pub svc h ws S1 = (res, S')"
    using Cons.prems(5) w by simp
  with Cons.IH [of S1 "i + 1"] one Cons.prems(3,4) have ih: "res = Inr ()" "healthy_server S'" "tables_ok S'"
    "same_rest S1 S'" "\<forall>k \<in> wf_ID ` set ws. switched E svc h S1 S' k"
    "\<forall>k. k \<notin> wf_ID ` set ws \<longrightarrow> untouched S1 S' k"
    by simp_all
  have faults: "wd_faults (sv_workflows S) = no_faults" "wd_faults (sv_workflows S1) = no_faults"
    using Cons.prems(1) one by (simp_all add: healthy_server_def)
  have not_in: "wf_ID w \<notin> wf_ID ` set ws" using Cons.prems(4) by simp
  have "switched E svc h S S' k" if "k \<in> wf_ID ` set ws" for k
  proof -
    from that not_in have "k \<noteq> wf_ID w" by blast
    then have un: "untouched S S1 k" using one by blast
    then have "decision svc (sv_workflows S1) h k = decision svc (sv_workflows S) h k"
      by (intro decision_cong [OF faults]) (simp add: untouched_def)
    with un have "switched E svc h S1 S' k \<longleftrightarrow> switched E svc h S S' k"
      by (simp only: switched_def untouched_def)
    moreover have "switched E svc h S1 S' k" using ih(5) that by blast
    ultimately show ?thesis by simp
  qed
  moreover have "switched E svc h S S' (wf_ID w)"
    using one ih(6) not_in by (simp add: switched_def untouched_def)
  moreover have "untouched S S' k" if "k \<notin> wf_ID ` set (w # ws)" for k
    using one ih(6) that by (simp add: untouched_def)
  moreover have "same_rest S S'" using one ih(4) by (blast intro: same_rest_trans)
  ultimately show ?case using ih(1-3) by auto
qed

lemma EvaluateWorkflowType_effect:
  assumes "healthy_server S" and "tables_ok S" and "quiet pub"
    and "EvaluateWorkflowType E pub svc t (Some h) S = (res, S')"
  shows "res = Inr () \<and> healthy_server S' \<and> tables_ok S' \<and> same_rest S S'
    \<and> (\<forall>k w. workflow_map (sv_workflows S) k = Some w \<and> wf_WorkflowType w = t \<longrightarrow> switched E svc h S S' k)
    \<and> (\<forall>k. (\<forall>w. workflow_map (sv_workflows S) k = Some w \<longrightarrow> wf_WorkflowType w \<noteq> t) \<longrightarrow> untouched S S' k)"
proof -
  let ?ws = "filter (\<lambda>w. wf_WorkflowType w = t) (wd_rows (sv_workflows S))"
  have dist: "distinct (map wf_ID (wd_rows (sv_workflows S)))" using assms(2) by (simp add: tables_ok_def)
  have run: "evaluate_loop E 0 pub svc h ?ws S = (res, S')"
    using assms(1,4) by (simp add: EvaluateWorkflowType_def ListWorkflowsByType_def healthy_server_def)
  have mem: "k \<in> wf_ID ` set ?ws \<longleftrightarrow> (\<exists>w. workflow_map (sv_workflows S) k = Some w \<and> wf_WorkflowType w = t)" for k
  proof
    assume "k \<in> wf_ID ` set ?ws"
    then obtain w where "w \<in> set (wd_rows (sv_workflows S))" "wf_WorkflowType w = t" "k = wf_ID w" by auto
    with ready_row_iff [OF dist, of w] show "\<exists>w. workflow_map (sv_workflows S) k = Some w \<and> wf_WorkflowType w = t"
      by auto
  next
    assume "\<exists>w. workflow_map (sv_workflows S) k = Some w \<and> wf_WorkflowType w = t"
    then obtain w where w: "workflow_map (sv_workflows S) k = Some w" "wf_WorkflowType w = t" by blast
    then have "w \<in> set (wd_rows (sv_workflows S))" "wf_ID w = k"
      using lookup_row_SomeD [of wf_ID k "wd_rows (sv_workflows S)" w] by (simp_all add: workflow_map_def)
    with w(2) show "k \<in> wf_ID ` set ?ws" by auto
  qed
  have "distinct (map wf_ID ?ws)" using dist by (rule distinct_map_filter)
  from evaluate_loop_effect [OF assms(1-3) this run] show ?thesis
    using mem by blast
qed

section \<open>Properties\<close>

definition sample_server :: server where
  "sample_server = empty_server\<lparr>sv_workflows := \<lparr>wd_rows = [sample_workflow], wd_faults = no_faults\<rparr>\<rparr>"

definition sample_service :: circuit_service where
  "sample_service = NewCircuitBreakerService (Some (NewDefaultPolicyRepo (f64_of_int 80) 10 300000)) True None"

definition bad_health :: type_health where
  "bad_health = \<lparr>th_WorkflowType = ''upgrade'', th_WindowSize = 10, th_RunsConsidered = 3,
     th_SuccessPercentageAvg = FFin 50, th_FailPercentageAvg = FFin 50, th_ErrorPercentageAvg = FFin 0,
     th_Trend = TrendStable, th_CalculatedAt = 0\<rparr>"

lemma sample_server_ok: "healthy_server sample_server" "tables_ok sample_server"
  using empty_server_ok by (simp_all add: sample_server_def healthy_server_def tables_ok_def)

lemma sample_map: "workflow_map (sv_workflows sample_server) ''w1'' = Some sample_workflow"
  by (simp add: workflow_map_def sample_server_def sample_workflow_def)

lemma sample_policy:
  "po_SuccessThreshold (policy_for sample_service (sv_workflows sample_server) ''w1'') = FFin 80"
  using f64_of_int_exact [of 0]
  by (simp add: policy_for_def sample_service_def NewCircuitBreakerService_def GetPolicy_def GetWorkflow_def
      sample_server_def sample_workflow_def Let_def)

text \<open>C11. What an evaluation of a workflow type decides: on a healthy server, every workflow of the
  type ends with its breaker open exactly when the type has runs and their success average is
  below the workflow's threshold, and closed otherwise; where the state changed the workflow is
  deactivated or activated with it, and else its activity is untouched; breakers and workflows of
  other types, and runs, results, clients and bans, are unchanged.\<close>

theorem circuit_evaluation_decides_by_threshold:
  assumes "healthy_server S" and "tables_ok S" and "quiet pub" and "cs_stateMgr svc"
    and "EvaluateWorkflowType E pub svc t (Some h) S = (res, S')"
    and "GetWorkflow k (sv_workflows S) = Inr w"
  shows "res = Inr () \<and> same_rest S S' \<and>
    (if wf_WorkflowType w = t then
       (let bad = (th_RunsConsidered h \<noteq> 0 \<and> \<not> fle (po_SuccessThreshold (policy_for svc (sv_workflows S) k))
              (th_SuccessPercentageAvg h));
            after = (if bad then CircuitOpen else CircuitClosed) in
        breaker_state (sv_circuits S') k = after
        \<and> IsWorkflowActive k (sv_workflows S')
          = (if breaker_state (sv_circuits S) k = after then wf_Active w else \<not> bad))
     else breaker_state (sv_circuits S') k = breaker_state (sv_circuits S) k
        \<and> GetWorkflow k (sv_workflows S') = Inr w)"
proof -
  note eff = EvaluateWorkflowType_effect [OF assms(1,2,3,5)]
  have faults: "wd_faults (sv_workflows S) = no_faults" "wd_faults (sv_workflows S') = no_faults"
    using assms(1) eff by (simp_all add: healthy_server_def)
  have w: "workflow_map (sv_workflows S) k = Some w"
    using assms(6) faults(1) by (simp add: GetWorkflow_map split: option.splits)
  let ?d = "decision svc (sv_workflows S) h k"
  have d: "?d = (if th_RunsConsidered h \<noteq> 0 \<and> \<not> fle (po_SuccessThreshold (policy_for svc (sv_workflows S) k))
      (th_SuccessPercentageAvg h) then CircuitOpen else CircuitClosed)"
    using decision_open_iff [of svc "sv_workflows S" h k] decision_cases [of svc "sv_workflows S" h k] by auto
  show ?thesis
  proof (cases "wf_WorkflowType w = t")
    case True
    with eff w have sw: "switched E svc h S S' k" by blast
    then have "IsWorkflowActive k (sv_workflows S')
        = (if breaker_state (sv_circuits S) k = ?d then wf_Active w else ?d = CircuitClosed)"
      using assms(4) w by (auto simp: switched_def IsWorkflowActive_def GetWorkflow_map faults workflow_state_row_def)
    with sw eff True show ?thesis by (simp add: switched_def d Let_def)
  next
    case False
    with eff w have "untouched S S' k" by auto
    with eff False w show ?thesis by (simp add: untouched_def GetWorkflow_map faults)
  qed
qed

theorem circuit_evaluation_decides_by_threshold_witness:
  "\<not> IsWorkflowActive ''w1'' (sv_workflows (snd (EvaluateWorkflowType \<lparr>env_now = 9, env_uuid = \<lambda>_. []\<rparr>
      (\<lambda>_ S. S) sample_service ''upgrade'' (Some bad_health) sample_server)))"
proof -
  have "quiet (\<lambda>_ S. S)" "cs_stateMgr sample_service"
    "GetWorkflow ''w1'' (sv_workflows sample_server) = Inr sample_workflow"
    by (simp_all add: quiet_def sample_service_def NewCircuitBreakerService_def GetWorkflow_def
        sample_server_def sample_workflow_def)
  note applied = circuit_evaluation_decides_by_threshold [OF sample_server_ok this(1,2) surjective_pairing this(3),
    of "\<lparr>env_now = 9, env_uuid = \<lambda>_. []\<rparr>" "''upgrade''" bad_health]
  have "wf_WorkflowType sample_workflow = ''upgrade''" "th_RunsConsidered bad_health = 3"
    "\<not> fle (FFin 80) (th_SuccessPercentageAvg bad_health)"
    "breaker_state (sv_circuits sample_server) ''w1'' = CircuitClosed"
    by (simp_all add: sample_workflow_def bad_health_def fle_def breaker_state_def
        Repo_GetCircuitState_def sample_server_def empty_server_def)
  with applied show ?thesis by (simp add: sample_policy Let_def)
qed

text \<open>C39. The cooldown is not observed and no breaker is ever half open: an open breaker closes,
  and its workflow is activated (whoever deactivated it), at the first evaluation with a good
  average, even when it was opened so recently that \<open>IsRecoveryReady\<close> is false for its policy; the
  state an evaluation leaves is never \<open>half_open\<close>.\<close>

theorem open_circuit_closes_without_cooldown:
  assumes "healthy_server S" and "tables_ok S" and "quiet pub" and "cs_stateMgr svc"
    and "GetWorkflow k (sv_workflows S) = Inr w" and "wf_WorkflowType w = t"
    and "Repo_GetCircuitState k (sv_circuits S) = Inr b" and "cb_State b = CircuitOpen"
    and "\<not> IsRecoveryReady (po_CooldownPeriod (policy_for svc (sv_workflows S) k)) (env_now E) b"
    and "fle (po_SuccessThreshold (policy_for svc (sv_workflows S) k)) (th_SuccessPercentageAvg h)"
    and "EvaluateWorkflowType E pub svc t (Some h) S = (res, S')"
  shows "breaker_state (sv_circuits S') k = CircuitClosed \<and> IsWorkflowActive k (sv_workflows S')
    \<and> CircuitHalfOpen \<notin> range (\<lambda>h'. breaker_state (sv_circuits (snd (EvaluateWorkflowType E pub svc t (Some h') S))) k)"
proof -
  note eff = EvaluateWorkflowType_effect [OF assms(1,2,3)]
  have faults: "wd_faults (sv_workflows S) = no_faults" "wd_faults (sv_workflows S') = no_faults"
    using assms(1) eff [OF assms(11)] by (simp_all add: healthy_server_def)
  have w: "workflow_map (sv_workflows S) k = Some w"
    using assms(5) faults(1) by (simp add: GetWorkflow_map split: option.splits)
  have sw: "switched E svc h S S' k" using eff [OF assms(11)] w assms(6) by blast
  have "decision svc (sv_workflows S) h k = CircuitClosed"
    using decision_cases [of svc "sv_workflows S" h k] decision_open_iff [of svc "sv_workflows S" h k]
      assms(10) by auto
  moreover have "breaker_state (sv_circuits S) k = CircuitOpen" using assms(7,8) by (simp add: breaker_state_def)
  ultimately have "breaker_state (sv_circuits S') k = CircuitClosed \<and> IsWorkflowActive k (sv_workflows S')"
    using sw assms(4) w by (auto simp: switched_def IsWorkflowActive_def GetWorkflow_map faults workflow_state_row_def)
  moreover have "breaker_state (sv_circuits (snd (EvaluateWorkflowType E pub svc t (Some h') S))) k \<noteq> CircuitHalfOpen" for h'
  proof -
    have "switched E svc h' S (snd (EvaluateWorkflowType E pub svc t (Some h') S)) k"
      using eff [OF surjective_pairing] w assms(6) by blast
    then show ?thesis using decision_cases [of svc "sv_workflows S" h' k] by (auto simp: switched_def)
  qed
  then have "CircuitHalfOpen \<notin> range (\<lambda>h'. breaker_state (sv_circuits (snd
      (EvaluateWorkflowType E pub svc t (Some h') S))) k)"
    by (metis (mono_tags, lifting) imageE)
  ultimately show ?thesis by blast
qed

definition open_server :: server where
  "open_server = sample_server\<lparr>sv_circuits := \<lparr>xd_rows = [\<lparr>cb_WorkflowID = ''w1'', cb_WorkflowType = ''upgrade'',
     cb_State = CircuitOpen, cb_OpenedAt = 1000, cb_LastEvaluatedAt = 1000, cb_OpenedReason = [],
     cb_EvaluationCount = 1\<rparr>], xd_faults = no_faults\<rparr>\<rparr>"

theorem open_circuit_closes_without_cooldown_witness:
  "breaker_state (sv_circuits (snd (EvaluateWorkflowType \<lparr>env_now = 1001, env_uuid = \<lambda>_. []\<rparr> (\<lambda>_ S. S)
      (NewCircuitBreakerService None True None) ''upgrade''
      (Some (bad_health\<lparr>th_SuccessPercentageAvg := FFin 90\<rparr>)) open_server))) ''w1'' = CircuitClosed"
proof (rule open_circuit_closes_without_cooldown [THEN conjunct1, OF _ _ _ _ _ _ _ _ _ _ surjective_pairing])
  show "healthy_server open_server" "tables_ok open_server"
    using sample_server_ok by (simp_all add: open_server_def healthy_server_def tables_ok_def)
  show "quiet (\<lambda>_ S. S)" by (simp add: quiet_def)
  show "cs_stateMgr (NewCircuitBreakerService None True None)"
    by (simp add: NewCircuitBreakerService_def)
  show "GetWorkflow ''w1'' (sv_workflows open_server) = Inr sample_workflow" "wf_WorkflowType sample_workflow = ''upgrade''"
    by (simp_all add: GetWorkflow_def open_server_def sample_server_def sample_workflow_def)
  show "Repo_GetCircuitState ''w1'' (sv_circuits open_server) = Inr \<lparr>cb_WorkflowID = ''w1'', cb_WorkflowType = ''upgrade'',
     cb_State = CircuitOpen, cb_OpenedAt = 1000, cb_LastEvaluatedAt = 1000, cb_OpenedReason = [], cb_EvaluationCount = 1\<rparr>"
    by (simp add: Repo_GetCircuitState_def open_server_def)
  show "cb_State \<lparr>cb_WorkflowID = ''w1'', cb_WorkflowType = ''upgrade'', cb_State = CircuitOpen, cb_OpenedAt = 1000,
     cb_LastEvaluatedAt = 1000, cb_OpenedReason = [], cb_EvaluationCount = 1\<rparr> = CircuitOpen" by simp
  have "sint (5 * Minute :: duration) = 300000000000"
    using sint_word_of_int64 [of 300000000000] by (simp add: Minute_def min_int64_def max_int64_def)
  then show "\<not> IsRecoveryReady (po_CooldownPeriod (policy_for (NewCircuitBreakerService None True None)
      (sv_workflows open_server) ''w1'')) (env_now \<lparr>env_now = 1001, env_uuid = \<lambda>_. []\<rparr>)
    \<lparr>cb_WorkflowID = ''w1'', cb_WorkflowType = ''upgrade'', cb_State = CircuitOpen, cb_OpenedAt = 1000,
     cb_LastEvaluatedAt = 1000, cb_OpenedReason = [], cb_EvaluationCount = 1\<rparr>"
    by (simp add: IsRecoveryReady_def policy_for_def NewCircuitBreakerService_def default_policy_def
        IsZero_def sint_Time_Sub min_int64_def max_int64_def)
  show "fle (po_SuccessThreshold (policy_for (NewCircuitBreakerService None True None) (sv_workflows open_server) ''w1''))
      (th_SuccessPercentageAvg (bad_health\<lparr>th_SuccessPercentageAvg := FFin 90\<rparr>))"
    using f64_of_int_exact [of 80]
    by (simp add: policy_for_def NewCircuitBreakerService_def default_policy_def fle_def)
qed

end
