(* ===== verification/Result_Handling.thy ===== *)
theory Result_Handling
  imports Circuit_Breaker
begin

text \<open>
  What the server does with a result message: the three handlers
  (\<open>internal/core/services/client_registration.go\<close>, \<open>loop_detection.go\<close>,
  \<open>health_monitoring.go\<close>) and the dispatcher that runs them in the order of their priorities
  (\<open>result_dispatcher.go\<close>). A handler logs most errors and goes on; what it returns is the value
  the dispatcher logs.
\<close>

section \<open>Client registration\<close>

definition Registration_HandleResult ::
  "env \<Rightarrow> result option \<Rightarrow> server \<Rightarrow> (go_error + unit) \<times> server" where
  "Registration_HandleResult E r S = (case r of
     None \<Rightarrow> (Inr (), S)
   | Some r \<Rightarrow>
       if res_ClientID r = [] then (Inr (), S)
       else (let client = \<lparr>cm_ClientID = res_ClientID r, cm_OS = ''ubuntu'', cm_Labels = [],
                  cm_InnerState = res_InnerState r, cm_Active = True, cm_LastSeenAt = res_ReceivedAt r\<rparr>;
                client = (if IsZero (cm_LastSeenAt client) then client\<lparr>cm_LastSeenAt := env_now E\<rparr> else client)
         in (Inr (), S\<lparr>sv_clients := snd (SaveClient E client (sv_clients S))\<rparr>)))"

section \<open>Loop detection\<close>

text \<open>\<open>ls_detector\<close> is the detector's default threshold. The enforcer is absent when nil; the
  alert publisher is the one the server's services share.\<close>

record loop_service =
  ls_enforcer :: bool
  ls_detector :: duration
  ls_defaultMS :: int64

definition NewLoopDetectionService :: "bool \<Rightarrow> int64 \<Rightarrow> loop_service" where
  "NewLoopDetectionService enforcer defaultThresholdMS =
     (let dur = defaultThresholdMS * Millisecond in
      \<lparr>ls_enforcer = enforcer, ls_detector = NewLoopDetector dur, ls_defaultMS = defaultThresholdMS\<rparr>)"

definition Milliseconds :: "duration \<Rightarrow> int64" where
  "Milliseconds d = (let n = sint d in
     word_of_int (if n < 0 then - ((- n) div 1000000) else n div 1000000))"

definition loop_threshold :: "loop_service \<Rightarrow> workflow \<Rightarrow> duration" where
  "loop_threshold svc w = (if sint (LoopThreshold w) \<le> 0 then ls_defaultMS svc * Millisecond else LoopThreshold w)"

text \<open>\<open>evidence r\<close> is the JSON text of the result. The alert draws the identifier before the
  ban's own alert does.\<close>

definition Loop_HandleResult ::
  "env \<Rightarrow> (result \<Rightarrow> string) \<Rightarrow> loop_service \<Rightarrow> result option \<Rightarrow> server \<Rightarrow> (go_error + unit) \<times> server" where
  "Loop_HandleResult E evidence svc r S = (case r of
     None \<Rightarrow> (Inr (), S)
   | Some r \<Rightarrow>
      if \<not> Result_IsValid r then (Inr (), S)
      else (case GetWorkflow (res_WorkflowID r) (sv_workflows S) of
        Inl _ \<Rightarrow> (Inr (), S)
      | Inr w \<Rightarrow> (case GetRun (res_RunID r) (sv_runs S) of
          Inl _ \<Rightarrow> (Inr (), S)
        | Inr currentRun \<Rightarrow>
          (case GetPreviousRun (res_ClientID r) (wf_WorkflowType w) (res_RunID r)
              (run_TriggeredAt currentRun) (sv_runs S) of
            Inl _ \<Rightarrow> (Inr (), S)
          | Inr prev \<Rightarrow>
            (case DetectLoop (ls_detector svc) E (res_ClientID r) (wf_WorkflowType w) (res_RunID r)
                (run_TriggeredAt currentRun) (run_RunID prev) (run_TriggeredAt prev)
                (loop_threshold svc w) (evidence r) of
              None \<Rightarrow> (Inr (), S)
            | Some rec \<Rightarrow>
                (let a = (NewAlert E 0 AlertLoopDetected SeverityCritical (''loop detected client=''
                       @ res_ClientID r @ '' wf_type='' @ wf_WorkflowType w))\<lparr>al_Details :=
                       [(''client_id'', VStr (res_ClientID r)), (''workflow_type'', VStr (wf_WorkflowType w)),
                        (''current_run'', VStr (lr_CurrentRunID rec)),
                        (''previous_run'', VStr (lr_PreviousRunID rec)),
                        (''time_between_ms'', VInt64 (Milliseconds (lr_TimeBetween rec)))]\<rparr>;
                     S = publish_alert a S
                 in (Inr (), if ls_enforcer svc
                     then S\<lparr>sv_enf := snd (BanClient (env_skip 1 E) (res_ClientID r) (wf_WorkflowType w)
                       (res_RunID r) (evidence r) ReasonLoopDetected (sv_enf S))\<rparr>
                     else S)))))))"

section \<open>Health monitoring\<close>

record health_service =
  hs_config :: "config_repo option"
  hs_windowSize :: int64

definition NewHealthMonitoringService :: "config_repo option \<Rightarrow> int64 \<Rightarrow> health_service" where
  "NewHealthMonitoringService config windowSize = \<lparr>hs_config = config,
     hs_windowSize = (if sint windowSize \<le> 0 then 10 else windowSize)\<rparr>"

definition health_window :: "health_service \<Rightarrow> string \<Rightarrow> workflow_db \<Rightarrow> int64" where
  "health_window svc workflowType db = (case hs_config svc of
     None \<Rightarrow> hs_windowSize svc
   | Some c \<Rightarrow> (let t = GetHealthThreshold c db workflowType in
       if 0 < sint (ht_WindowSize t) then ht_WindowSize t else hs_windowSize svc))"

definition AggregateWorkflowTypeHealth ::
  "env \<Rightarrow> health_service \<Rightarrow> string \<Rightarrow> server \<Rightarrow> (go_error + type_health) \<times> server" where
  "AggregateWorkflowTypeHealth E svc workflowType S =
     (let window = health_window svc workflowType (sv_workflows S) in
      case ListRunHealths workflowType window (sv_health S) of
        Inl e \<Rightarrow> (Inl e, S)
      | Inr runs \<Rightarrow>
          (let out = AggregateWorkflowHealth E workflowType runs window;
               (r, db) = SaveWorkflowTypeHealth E out (sv_health S);
               S = S\<lparr>sv_health := db\<rparr>
           in case r of Inl e \<Rightarrow> (Inl e, S) | Inr _ \<Rightarrow> (Inr out, S)))"

text \<open>The set of banned clients as the source builds it: a lookup error counts as no bans.\<close>

definition banned_clients :: "env \<Rightarrow> string \<Rightarrow> server \<Rightarrow> string set" where
  "banned_clients E workflowType S =
     (case GetActiveBansByWorkflowType E workflowType (en_bans (sv_enf S)) of
       Inl _ \<Rightarrow> {} | Inr bans \<Rightarrow> ban_ClientID ` set bans)"

definition Service_CalculateRunHealth ::
  "env \<Rightarrow> pub \<Rightarrow> health_service \<Rightarrow> string \<Rightarrow> server \<Rightarrow> (go_error + run_health) \<times> server" where
  "Service_CalculateRunHealth E pub svc runID S =
     (case GetRun runID (sv_runs S) of
       Inl e \<Rightarrow> (Inl e, S)
     | Inr r \<Rightarrow> (case GetRunResults runID (sv_results S) of
         Inl e \<Rightarrow> (Inl e, S)
       | Inr results \<Rightarrow>
          (let banSet = banned_clients E (run_WorkflowType r) S;
               bannedCount = int (length (filter (\<lambda>cid. cid \<in> banSet) (run_ParticipatingClients r)));
               h = CalculateRunHealth E runID (run_WorkflowID r) (run_WorkflowType r)
                 (int (length (run_ParticipatingClients r))) (map Some results) bannedCount;
               (res, db) = SaveRunHealth E h (sv_health S);
               S = S\<lparr>sv_health := db\<rparr>
           in case res of
             Inl e \<Rightarrow> (Inl e, S)
           | Inr _ \<Rightarrow>
              (let (th, S) = AggregateWorkflowTypeHealth E svc (run_WorkflowType r) S;
                   typeHealth = (case th of Inl _ \<Rightarrow> None | Inr t \<Rightarrow> Some t);
                   S = pub (HealthUpdatedEvent (run_WorkflowID r) (run_WorkflowType r) (Some h) typeHealth
                     (env_now E)) S
               in (Inr h, if IsComplete h \<and> run_State r \<noteq> RunCompleted
                    then S\<lparr>sv_runs := snd (UpdateRun (r\<lparr>run_State := RunCompleted\<rparr>) (sv_runs S))\<rparr>
                    else S)))))"

text \<open>The result repository of the server implements \<open>SaveResultWithType\<close>; a workflow that cannot
  be read leaves the type empty, and an error of the insertion is ignored.\<close>

definition Health_HandleResult ::
  "env \<Rightarrow> pub \<Rightarrow> health_service \<Rightarrow> result option \<Rightarrow> server \<Rightarrow> (go_error + unit) \<times> server" where
  "Health_HandleResult E pub svc r S = (case r of
     None \<Rightarrow> (Inr (), S)
   | Some r \<Rightarrow>
      if \<not> Result_IsValid r then (Inr (), S)
      else (let wfType = (case GetWorkflow (res_WorkflowID r) (sv_workflows S) of
                 Inl _ \<Rightarrow> [] | Inr w \<Rightarrow> wf_WorkflowType w);
               S = S\<lparr>sv_results := snd (SaveResultWithType r wfType (sv_results S))\<rparr>;
               (h, S) = Service_CalculateRunHealth E pub svc (res_RunID r) S
         in (case h of Inl e \<Rightarrow> Inl e | Inr _ \<Rightarrow> Inr (), S)))"

definition GetCurrentHealth :: "string \<Rightarrow> server \<Rightarrow> go_error + type_health" where
  "GetCurrentHealth workflowType S = GetWorkflowTypeHealth workflowType (sv_health S)"

section \<open>The result dispatcher\<close>

record 's result_handler =
  hl_Name :: string
  hl_Priority :: int
  hl_HandleResult :: "result option \<Rightarrow> 's \<Rightarrow> (go_error + unit) \<times> 's"

text \<open>\<open>sort.SliceStable\<close> by priority after every registration.\<close>

definition RegisterHandler :: "'s result_handler \<Rightarrow> 's result_handler list \<Rightarrow> 's result_handler list" where
  "RegisterHandler h handlers = sort_key hl_Priority (handlers @ [h])"

fun handle_all :: "'s result_handler list \<Rightarrow> result option \<Rightarrow> 's \<Rightarrow> 's" where
  "handle_all [] r s = s"
| "handle_all (h # hs) r s = handle_all hs r (snd (hl_HandleResult h r s))"

definition Dispatch :: "'s result_handler list \<Rightarrow> result option \<Rightarrow> 's \<Rightarrow> 's" where
  "Dispatch handlers r s = (case r of
     None \<Rightarrow> s
   | Some x \<Rightarrow> if \<not> Result_IsValid x then s else handle_all handlers (Some x) s)"

text \<open>The loop of \<open>Start\<close> over the payloads it receives before the channel closes or the context
  ends; \<open>parse\<close> is \<open>domain.ParseResult\<close>.\<close>

fun Dispatcher_Start :: "('p \<Rightarrow> go_error + result) \<Rightarrow> 's result_handler list \<Rightarrow> 'p list \<Rightarrow> 's \<Rightarrow> 's" where
  "Dispatcher_Start parse handlers [] s = s"
| "Dispatcher_Start parse handlers (data # rest) s = (case parse data of
     Inl _ \<Rightarrow> Dispatcher_Start parse handlers rest s
   | Inr r \<Rightarrow> Dispatcher_Start parse handlers rest (Dispatch handlers (Some r) s))"

section \<open>The effect of the handlers\<close>

lemma SaveClient_Inr: "cd_faults db = no_faults \<Longrightarrow> fst (SaveClient E c db) = Inr ()"
  by (simp add: SaveClient_def Let_def)

lemma GetPreviousRun_repeat:
  assumes "rd_faults db = no_faults" and "GetPreviousRun c t k before db = Inr p"
    and "sint (Time_Sub before (run_TriggeredAt q)) \<le> n" and "q \<in> set (rd_runs db)" and "earlier_run c t k before db q"
  shows "sint (Time_Sub before (run_TriggeredAt p)) \<le> n"
proof -
  have "run_TriggeredAt q \<le> run_TriggeredAt p"
    using GetPreviousRun_latest [OF assms(1), of c t k before] assms(2,4,5) by simp
  with assms(3) show ?thesis by (auto simp: sint_Time_Sub)
qed

text \<open>A run of the same type with the same client, triggered within the threshold before this one.\<close>

definition fast_repeat :: "int \<Rightarrow> string \<Rightarrow> string \<Rightarrow> string \<Rightarrow> time \<Rightarrow> run_db \<Rightarrow> bool" where
  "fast_repeat n c t k before db \<longleftrightarrow> (\<exists>p \<in> set (rd_runs db). earlier_run c t k before db p
     \<and> sint (Time_Sub before (run_TriggeredAt p)) \<le> n)"

definition effective_threshold :: "loop_service \<Rightarrow> workflow \<Rightarrow> int" where
  "effective_threshold svc w = (let thr = loop_threshold svc w in
     sint (if sint thr \<le> 0 then ls_detector svc else thr))"

lemma DetectLoop_fast_repeat:
  assumes "rd_faults db = no_faults" and "\<forall>p \<in> set (rd_runs db). run_RunID p \<noteq> []"
  shows "(case GetPreviousRun c t k before db of Inl _ \<Rightarrow> False
      | Inr p \<Rightarrow> DetectLoop (ls_detector svc) E c t k before (run_RunID p) (run_TriggeredAt p)
          (loop_threshold svc w) ev \<noteq> None)
    \<longleftrightarrow> fast_repeat (effective_threshold svc w) c t k before db"
proof (cases "GetPreviousRun c t k before db")
  case (Inl e)
  with GetPreviousRun_latest [OF assms(1), of c t k before] show ?thesis by (simp add: fast_repeat_def)
next
  case (Inr p)
  with GetPreviousRun_latest [OF assms(1), of c t k before]
  have p: "p \<in> set (rd_runs db)" "earlier_run c t k before db p" by simp_all
  then have id: "run_RunID p \<noteq> []" "run_RunID p \<noteq> k" "run_TriggeredAt p \<le> before"
    using assms(2) by (auto simp: earlier_run_def)
  then have "DetectLoop (ls_detector svc) E c t k before (run_RunID p) (run_TriggeredAt p) (loop_threshold svc w) ev \<noteq> None
      \<longleftrightarrow> sint (Time_Sub before (run_TriggeredAt p)) \<le> effective_threshold svc w"
    by (auto simp: DetectLoop_def Let_def effective_threshold_def)
  also have "\<dots> \<longleftrightarrow> fast_repeat (effective_threshold svc w) c t k before db"
    using p GetPreviousRun_repeat [OF assms(1) Inr] unfolding fast_repeat_def by blast
  finally show ?thesis by (simp add: Inr)
qed

definition enf_only :: "server \<Rightarrow> server \<Rightarrow> bool" where
  "enf_only S S' \<longleftrightarrow> sv_workflows S' = sv_workflows S \<and> sv_clients S' = sv_clients S \<and> sv_runs S' = sv_runs S
    \<and> sv_results S' = sv_results S \<and> sv_health S' = sv_health S \<and> sv_circuits S' = sv_circuits S
    \<and> sv_outbox S' = sv_outbox S"

lemma cache_sound_publish [simp]: "cache_sound (sv_enf (publish_alert a S)) = cache_sound (sv_enf S)"
  by (simp add: cache_sound_def cached_def banned_keys_def)

lemma healthy_publish [simp]: "healthy (sv_enf (publish_alert a S)) = healthy (sv_enf S)"
  by (simp add: healthy_def)

lemma banned_keys_publish [simp]: "banned_keys (sv_enf (publish_alert a S)) = banned_keys (sv_enf S)"
  by (simp add: banned_keys_def)

lemma Loop_HandleResult_effect:
  assumes "cache_sound (sv_enf S)" and "healthy (sv_enf S)" and "Loop_HandleResult E ev svc r S = (res, S')"
  shows "res = Inr () \<and> enf_only S S' \<and> cache_sound (sv_enf S') \<and> healthy (sv_enf S')"
proof -
  have ban: "cache_sound (snd (BanClient E' c t k e rs (sv_enf (publish_alert a S))))"
    "healthy (snd (BanClient E' c t k e rs (sv_enf (publish_alert a S))))" for E' c t k e rs a
    using assms(1,2) by (simp_all add: cache_sound_BanClient)
  show ?thesis
    using assms ban
    by (auto simp: Loop_HandleResult_def enf_only_def Let_def split: option.splits if_splits sum.splits)
qed

section \<open>Properties\<close>

text \<open>C10. The loop detector bans exactly the fast repeats: on a healthy server a valid result bans its
  client from the workflow's type when, and only when, some other run of that type with that
  client was triggered no later than the result's run and within the threshold before it; no
  other ban appears or goes, the ban cache stays sound and nothing else of the server changes.\<close>

theorem loop_bans_exactly_fast_repeats:
  assumes "healthy_server S" and "cache_sound (sv_enf S)" and "ls_enforcer svc" and "Result_IsValid r"
    and "GetWorkflow (res_WorkflowID r) (sv_workflows S) = Inr w"
    and "GetRun (res_RunID r) (sv_runs S) = Inr cur"
    and "\<forall>p \<in> set (rd_runs (sv_runs S)). run_RunID p \<noteq> []"
    and "S' = snd (Loop_HandleResult E ev svc (Some r) S)"
  shows "banned_keys (sv_enf S') = banned_keys (sv_enf S) \<union>
      (if fast_repeat (effective_threshold svc w) (res_ClientID r) (wf_WorkflowType w) (res_RunID r)
          (run_TriggeredAt cur) (sv_runs S)
       then {(res_ClientID r, wf_WorkflowType w)} else {})
    \<and> cache_sound (sv_enf S') \<and> enf_only S S'"
proof -
  have healthy: "healthy (sv_enf S)" "rd_faults (sv_runs S) = no_faults"
    using assms(1) by (simp_all add: healthy_server_def healthy_def)
  note eff = Loop_HandleResult_effect [OF assms(2) healthy(1) surjective_pairing, of E ev svc "Some r", folded assms(8)]
  let ?p = "GetPreviousRun (res_ClientID r) (wf_WorkflowType w) (res_RunID r) (run_TriggeredAt cur) (sv_runs S)"
  let ?d = "\<lambda>p. DetectLoop (ls_detector svc) E (res_ClientID r) (wf_WorkflowType w) (res_RunID r)
    (run_TriggeredAt cur) (run_RunID p) (run_TriggeredAt p) (loop_threshold svc w) (ev r)"
  note fast = DetectLoop_fast_repeat [OF healthy(2) assms(7), where c = "res_ClientID r" and t = "wf_WorkflowType w"
      and k = "res_RunID r" and before = "run_TriggeredAt cur" and svc = svc and E = E and w = w and ev = "ev r"]
  have "banned_keys (sv_enf S') = banned_keys (sv_enf S) \<union>
    (case ?p of Inl _ \<Rightarrow> {} | Inr p \<Rightarrow> if ?d p \<noteq> None then {(res_ClientID r, wf_WorkflowType w)} else {})"
    using assms(3-6) healthy(1) banned_keys_BanClient
    by (auto simp: assms(8) Loop_HandleResult_def Let_def split: sum.splits option.splits)
  with fast have "banned_keys (sv_enf S') = banned_keys (sv_enf S) \<union>
      (if fast_repeat (effective_threshold svc w) (res_ClientID r) (wf_WorkflowType w) (res_RunID r)
          (run_TriggeredAt cur) (sv_runs S) then {(res_ClientID r, wf_WorkflowType w)} else {})"
    by (auto split: sum.splits)
  with eff show ?thesis by blast
qed

definition busy_server :: server where
  "busy_server = sample_server\<lparr>sv_runs := \<lparr>rd_runs = [sample_run, sample_run\<lparr>run_RunID := ''r2'', run_TriggeredAt := 2000\<rparr>],
     rd_clients = [(''r1'', ''c1''), (''r1'', ''c2''), (''r2'', ''c1''), (''r2'', ''c2'')], rd_faults = no_faults\<rparr>\<rparr>"

lemma busy_server_ok: "healthy_server busy_server" "tables_ok busy_server" "cache_sound (sv_enf busy_server)"
proof -
  show "healthy_server busy_server"
    using sample_server_ok by (simp add: busy_server_def healthy_server_def)
  show "tables_ok busy_server"
    using sample_server_ok by (simp add: busy_server_def tables_ok_def runs_ok_def sample_run_def)
  show "cache_sound (sv_enf busy_server)"
    by (simp add: busy_server_def sample_server_def empty_server_def cache_sound_def all_permanent_def cached_def)
qed

lemma busy_server_rows:
  "GetWorkflow ''w1'' (sv_workflows busy_server) = Inr sample_workflow"
  "GetRun ''r2'' (sv_runs busy_server) = Inr (sample_run\<lparr>run_RunID := ''r2'', run_TriggeredAt := 2000\<rparr>)"
  "\<forall>p \<in> set (rd_runs (sv_runs busy_server)). run_RunID p \<noteq> []"
  by (simp_all add: busy_server_def sample_server_def GetWorkflow_def GetRun_def sample_workflow_def sample_run_def)

theorem loop_bans_exactly_fast_repeats_witness:
  "(''c1'', ''upgrade'') \<in> banned_keys (sv_enf (snd (Loop_HandleResult \<lparr>env_now = 3000, env_uuid = \<lambda>_. []\<rparr> (\<lambda>_. [])
      (NewLoopDetectionService True 5000) (Some (sample_result\<lparr>res_RunID := ''r2''\<rparr>)) busy_server)))"
proof -
  let ?r = "sample_result\<lparr>res_RunID := ''r2''\<rparr>" and ?svc = "NewLoopDetectionService True 5000"
  have w: "wf_WorkflowType sample_workflow = ''upgrade''" and r: "res_ClientID ?r = ''c1''" "res_WorkflowID ?r = ''w1''"
    "res_RunID ?r = ''r2''" "Result_IsValid ?r" and svc: "ls_enforcer ?svc"
    by (simp_all add: sample_workflow_def sample_result_def Result_IsValid_def NewLoopDetectionService_def)
  have "earlier_run ''c1'' ''upgrade'' ''r2'' 2000 (sv_runs busy_server) sample_run"
    and "sample_run \<in> set (rd_runs (sv_runs busy_server))"
    by (simp_all add: earlier_run_def busy_server_def sample_run_def)
  moreover have "sint (5000 * Millisecond) = 5000000000" using sint_millis [of 5000] by simp
  then have "sint (Time_Sub 2000 (run_TriggeredAt sample_run)) \<le> effective_threshold ?svc sample_workflow"
    by (simp add: sint_Time_Sub sample_run_def min_int64_def max_int64_def effective_threshold_def loop_threshold_def
        sample_workflow_def LoopThreshold_def default_durations)
  ultimately have "fast_repeat (effective_threshold ?svc sample_workflow) ''c1'' ''upgrade'' ''r2'' 2000 (sv_runs busy_server)"
    unfolding fast_repeat_def by blast
  then show ?thesis
    using loop_bans_exactly_fast_repeats [OF busy_server_ok(1,3) svc r(4), unfolded r, OF busy_server_rows refl,
        of "\<lparr>env_now = 3000, env_uuid = \<lambda>_. []\<rparr>" "\<lambda>_. []"]
    by (simp add: w)
qed

end
