(* ===== verification/Result_Pipeline.thy ===== *)
theory Result_Pipeline
  imports Result_Handling
begin

text \<open>
  Result processing as \<open>cmd/main.go\<close> wires it: the health service publishes to the bus on which
  the circuit breaker service listens, and the result dispatcher runs registration, loop
  detection and health monitoring. The first part follows one result through the tables, the
  second is the invariant of the server under any stream of messages.
\<close>

section \<open>Health\<close>

lemma SaveRunHealth_same:
  assumes "hd_faults db = no_faults" and "rh_CalculatedAt h = env_now E" and "SaveRunHealth E h db = (res, db')"
  shows "res = Inr () \<and> lookup_row rh_RunID k (hd_runs db')
      = (if k = rh_RunID h then Some h else lookup_row rh_RunID k (hd_runs db)) \<and> hd_faults db' = no_faults"
proof -
  have "(if IsZero (rh_CalculatedAt h) then h\<lparr>rh_CalculatedAt := env_now E\<rparr> else h) = h"
    using assms(2) by (cases h) simp
  then have "SaveRunHealth E h db = (Inr (), db\<lparr>hd_runs := upsert rh_RunID (\<lambda>old. h\<lparr>rh_RunID := rh_RunID old\<rparr>) h (hd_runs db)\<rparr>)"
    using assms(1) by (simp add: SaveRunHealth_def)
  moreover have "h\<lparr>rh_RunID := rh_RunID r\<rparr> = h" if "rh_RunID r = rh_RunID h" for r
    using that by (cases h) simp
  ultimately show ?thesis using assms(1,3) by (auto simp: lookup_row_upsert_replace)
qed

lemma SaveWorkflowTypeHealth_same:
  assumes "hd_faults db = no_faults" and "th_CalculatedAt h = env_now E" and "SaveWorkflowTypeHealth E h db = (res, db')"
  shows "res = Inr () \<and> hd_runs db' = hd_runs db \<and> hd_faults db' = no_faults
    \<and> lookup_row th_WorkflowType (th_WorkflowType h) (hd_types db') = Some h"
proof -
  have "(if IsZero (th_CalculatedAt h) then h\<lparr>th_CalculatedAt := env_now E\<rparr> else h) = h"
    using assms(2) by (cases h) simp
  then have "SaveWorkflowTypeHealth E h db = (Inr (), db\<lparr>hd_types := upsert th_WorkflowType
      (\<lambda>old. h\<lparr>th_WorkflowType := th_WorkflowType old\<rparr>) h (hd_types db)\<rparr>)"
    using assms(1) by (simp add: SaveWorkflowTypeHealth_def)
  moreover have "h\<lparr>th_WorkflowType := th_WorkflowType r\<rparr> = h" if "th_WorkflowType r = th_WorkflowType h" for r
    using that by (cases h) simp
  ultimately show ?thesis using assms(1,3) by (auto simp: lookup_row_upsert_replace)
qed

text \<open>The aggregate over the recorded runs of a type, as the service computes it.\<close>

definition current_aggregate :: "env \<Rightarrow> health_service \<Rightarrow> string \<Rightarrow> server \<Rightarrow> type_health" where
  "current_aggregate E svc t S = (let window = health_window svc t (sv_workflows S) in
     AggregateWorkflowHealth E t (rev (take (limit_or 100 window) (order_desc rh_CalculatedAt
       (filter (\<lambda>h. rh_WorkflowType h = t) (hd_runs (sv_health S)))))) window)"

lemma current_aggregate_fields:
  "th_CalculatedAt (current_aggregate E svc t S) = env_now E" "th_WorkflowType (current_aggregate E svc t S) = t"
  by (simp_all add: current_aggregate_def AggregateWorkflowHealth_def Let_def)

lemma AggregateWorkflowTypeHealth_effect:
  assumes "hd_faults (sv_health S) = no_faults"
  shows "\<exists>db. AggregateWorkflowTypeHealth E svc t S = (Inr (current_aggregate E svc t S), S\<lparr>sv_health := db\<rparr>)
    \<and> hd_runs db = hd_runs (sv_health S) \<and> hd_faults db = no_faults
    \<and> GetWorkflowTypeHealth t db = Inr (current_aggregate E svc t S)"
proof -
  define db where "db = snd (SaveWorkflowTypeHealth E (current_aggregate E svc t S) (sv_health S))"
  note saved = SaveWorkflowTypeHealth_same [OF assms current_aggregate_fields(1) [of E svc t S] surjective_pairing,
      folded db_def, unfolded current_aggregate_fields(2)]
  then have "SaveWorkflowTypeHealth E (current_aggregate E svc t S) (sv_health S) = (Inr (), db)"
    by (simp add: prod_eq_iff db_def)
  then show ?thesis
    using assms saved by (intro exI [of _ db])
      (simp add: AggregateWorkflowTypeHealth_def ListRunHealths_def current_aggregate_def
        GetWorkflowTypeHealth_def Let_def)
qed

text \<open>A bus whose handlers leave runs, results, health, bans and clients alone, and keep the
  tables well formed, such as the server's (below).\<close>

definition calm :: "pub \<Rightarrow> bool" where
  "calm pub \<longleftrightarrow> (\<forall>ev S. healthy_server S \<and> tables_ok S \<longrightarrow> healthy_server (pub ev S) \<and> tables_ok (pub ev S)
     \<and> same_rest S (pub ev S))"

definition run_health_of :: "env \<Rightarrow> server \<Rightarrow> run \<Rightarrow> result list \<Rightarrow> run_health" where
  "run_health_of E S r results = CalculateRunHealth E (run_RunID r) (run_WorkflowID r) (run_WorkflowType r)
     (int (length (run_ParticipatingClients r))) (map Some results)
     (int (length (filter (\<lambda>c. c \<in> banned_clients E (run_WorkflowType r) S) (run_ParticipatingClients r))))"

definition completed_if :: "bool \<Rightarrow> run \<Rightarrow> run" where
  "completed_if b r = (if b then r\<lparr>run_State := RunCompleted\<rparr> else r)"

lemma runs_ok_cong: "map run_RunID (rd_runs db') = map run_RunID (rd_runs db) \<Longrightarrow> rd_clients db' = rd_clients db
  \<Longrightarrow> runs_ok db' = runs_ok db"
  unfolding runs_ok_def by (metis list.set_map)

lemma lookup_completed:
  assumes "rd_faults db = no_faults" and "GetRun k db = Inr r"
  shows "GetRun j (if b then snd (UpdateRun (r\<lparr>run_State := RunCompleted\<rparr>) db) else db)
    = (if j = k then Inr (completed_if b r) else GetRun j db)"
proof -
  have look: "lookup_row run_RunID k (rd_runs db) = Some r"
    using assms by (simp add: GetRun_def split: option.splits)
  then have id: "run_RunID r = k" by (auto dest: lookup_row_SomeD)
  have "rd_faults (snd (UpdateRun x db)) = no_faults" for x using assms(1) by (simp add: UpdateRun_def)
  with assms(1) look id show ?thesis
    by (simp add: GetRun_def completed_if_def lookup_UpdateRun)
qed

lemma if_sv_runs: "(if b then S\<lparr>sv_runs := x\<rparr> else (S :: server)) = S\<lparr>sv_runs := (if b then x else sv_runs S)\<rparr>"
  by simp

lemma Service_CalculateRunHealth_effect:
  assumes ok: "healthy_server S" "tables_ok S" and calm: "calm pub"
    and run: "GetRun k (sv_runs S) = Inr r" and results: "GetRunResults k (sv_results S) = Inr results"
    and call: "Service_CalculateRunHealth E pub svc k S = (res, S')"
  defines "h \<equiv> run_health_of E S r results"
  shows "res = Inr h \<and> healthy_server S' \<and> tables_ok S'
    \<and> sv_clients S' = sv_clients S \<and> sv_results S' = sv_results S \<and> sv_outbox S' = sv_outbox S
    \<and> en_bans (sv_enf S') = en_bans (sv_enf S) \<and> en_blocker (sv_enf S') = en_blocker (sv_enf S)
    \<and> (\<forall>j. GetRunHealth j (sv_health S') = (if j = k then Inr h else GetRunHealth j (sv_health S)))
    \<and> (\<forall>j. GetRun j (sv_runs S') = (if j = k
        then Inr (completed_if (IsComplete h \<and> run_State r \<noteq> RunCompleted) r) else GetRun j (sv_runs S)))
    \<and> (\<exists>S2 th. healthy_server S2 \<and> tables_ok S2 \<and> sv_workflows S2 = sv_workflows S \<and> sv_circuits S2 = sv_circuits S
        \<and> GetWorkflowTypeHealth (run_WorkflowType r) (sv_health S') = Inr th
        \<and> (let S3 = pub (HealthUpdatedEvent (run_WorkflowID r) (run_WorkflowType r) (Some h) (Some th) (env_now E)) S2
            in sv_workflows S' = sv_workflows S3 \<and> sv_circuits S' = sv_circuits S3))"
proof -
  have id: "run_RunID r = k"
    using run GetRun_InrD by blast
  have calc: "CalculateRunHealth E k (run_WorkflowID r) (run_WorkflowType r)
      (int (length (run_ParticipatingClients r))) (map Some results) (int (length (filter (\<lambda>cid. cid
        \<in> banned_clients E (run_WorkflowType r) S) (run_ParticipatingClients r)))) = h"
    by (simp add: h_def run_health_of_def id)
  have hf: "hd_faults (sv_health S) = no_faults" and rf: "rd_faults (sv_runs S) = no_faults"
    using ok(1) by (simp_all add: healthy_server_def)
  have hid: "rh_RunID h = k" "rh_CalculatedAt h = env_now E"
    by (simp_all add: h_def run_health_of_def CalculateRunHealth_counts id)
  define db where "db = snd (SaveRunHealth E h (sv_health S))"
  note saved = SaveRunHealth_same [OF hf hid(2) surjective_pairing, folded db_def, unfolded hid(1)]
  then have db: "SaveRunHealth E h (sv_health S) = (Inr (), db)"
      "\<And>j. lookup_row rh_RunID j (hd_runs db) = (if j = k then Some h else lookup_row rh_RunID j (hd_runs (sv_health S)))"
      "hd_faults db = no_faults"
    by (simp_all add: prod_eq_iff db_def)
  define S1 where "S1 = S\<lparr>sv_health := db\<rparr>"
  obtain db' where agg: "AggregateWorkflowTypeHealth E svc (run_WorkflowType r) S1
        = (Inr (current_aggregate E svc (run_WorkflowType r) S1), S1\<lparr>sv_health := db'\<rparr>)"
      "hd_runs db' = hd_runs db" "hd_faults db' = no_faults"
      "GetWorkflowTypeHealth (run_WorkflowType r) db' = Inr (current_aggregate E svc (run_WorkflowType r) S1)"
    using AggregateWorkflowTypeHealth_effect [of S1 E svc "run_WorkflowType r"] db(3) by (auto simp: S1_def)
  define S2 where "S2 = S1\<lparr>sv_health := db'\<rparr>"
  have S2: "healthy_server S2" "tables_ok S2"
    using ok agg(3) by (simp_all add: S2_def S1_def healthy_server_def tables_ok_def)
  define ev where "ev = HealthUpdatedEvent (run_WorkflowID r) (run_WorkflowType r) (Some h)
    (Some (current_aggregate E svc (run_WorkflowType r) S1)) (env_now E)"
  define S3 where "S3 = pub ev S2"
  have S3: "healthy_server S3" "tables_ok S3" "same_rest S2 S3"
    using calm S2 by (simp_all add: calm_def S3_def)
  let ?done = "IsComplete h \<and> run_State r \<noteq> RunCompleted"
  have "Service_CalculateRunHealth E pub svc k S = (Inr h, if ?done
      then S3\<lparr>sv_runs := snd (UpdateRun (r\<lparr>run_State := RunCompleted\<rparr>) (sv_runs S3))\<rparr> else S3)"
    unfolding Service_CalculateRunHealth_def run results sum.case Let_def calc db(1) prod.case
      S1_def [symmetric] agg(1) S2_def [symmetric] ev_def [symmetric] S3_def [symmetric] ..
  then have "res = Inr h" and S'_if: "S' = (if ?done
      then S3\<lparr>sv_runs := snd (UpdateRun (r\<lparr>run_State := RunCompleted\<rparr>) (sv_runs S3))\<rparr> else S3)"
    unfolding call prod.inject by blast+
  then have S': "res = Inr h" "S' = S3\<lparr>sv_runs := (if ?done
      then snd (UpdateRun (r\<lparr>run_State := RunCompleted\<rparr>) (sv_runs S3)) else sv_runs S3)\<rparr>"
    by (simp_all only: if_sv_runs)
  have runs3: "sv_runs S3 = sv_runs S" using S3(3) by (simp add: same_rest_def S2_def S1_def)
  have runs': "sv_runs S' = (if ?done then snd (UpdateRun (r\<lparr>run_State := RunCompleted\<rparr>) (sv_runs S)) else sv_runs S)"
    unfolding S'(2) runs3 by simp
  have "runs_ok (sv_runs S')"
    using S3(2) by (simp add: S' tables_ok_def UpdateRun_ok)
  moreover have "rd_faults (sv_runs S') = no_faults"
    using rf by (simp add: S' runs3 UpdateRun_def)
  ultimately have "healthy_server S'" "tables_ok S'"
    using S3(1,2) by (auto simp: S'(2) healthy_server_def tables_ok_def)
  moreover have "GetRunHealth j (sv_health S') = (if j = k then Inr h else GetRunHealth j (sv_health S))" for j
    using S3(3) db(2) agg(2,3) hf by (simp add: S' same_rest_def S2_def S1_def GetRunHealth_def split: option.split)
  moreover have "GetRun j (sv_runs S') = (if j = k then Inr (completed_if ?done r) else GetRun j (sv_runs S))" for j
    unfolding runs' by (rule lookup_completed [OF rf run])
  moreover have "\<exists>S2 th. healthy_server S2 \<and> tables_ok S2 \<and> sv_workflows S2 = sv_workflows S \<and> sv_circuits S2 = sv_circuits S
        \<and> GetWorkflowTypeHealth (run_WorkflowType r) (sv_health S') = Inr th
        \<and> (let S3 = pub (HealthUpdatedEvent (run_WorkflowID r) (run_WorkflowType r) (Some h) (Some th) (env_now E)) S2
            in sv_workflows S' = sv_workflows S3 \<and> sv_circuits S' = sv_circuits S3)"
    using S2 S3(3) agg(4)
    by (intro exI [of _ S2] exI [of _ "current_aggregate E svc (run_WorkflowType r) S1"])
      (simp add: Let_def S'(2) same_rest_def S2_def S1_def S3_def ev_def)
  ultimately show ?thesis using S3(3) S' by (simp add: same_rest_def S2_def S1_def)
qed

section \<open>The server's bus\<close>

definition server_bus :: "env \<Rightarrow> circuit_service \<Rightarrow> server event_bus" where
  "server_bus E csvc = Subscribe ''health.updated'' (OnHealthUpdatedEvent E (\<lambda>_ S. S) csvc) NewInMemoryEventBus"

lemma server_bus_publish:
  "Publish (server_bus E csvc) (HealthUpdatedEvent wid t h (Some th) now) S
    = snd (EvaluateWorkflowType E (\<lambda>_ S. S) csvc t (Some th) S)"
  by (simp add: server_bus_def Publish_Subscribe OnHealthUpdatedEvent_def)

lemma quiet_id [simp]: "quiet (\<lambda>_ S. S)"
  by (simp add: quiet_def)

lemma EvaluateWorkflowType_any:
  assumes "healthy_server S" and "tables_ok S" and "EvaluateWorkflowType E (\<lambda>_ S. S) csvc t h S = (res, S')"
  shows "healthy_server S' \<and> tables_ok S' \<and> same_rest S S'"
proof (cases h)
  case (Some th)
  with EvaluateWorkflowType_effect [OF assms(1,2) quiet_id, of E csvc t th] assms(3) show ?thesis by simp
next
  case None
  show ?thesis
  proof (cases "GetWorkflowTypeHealth t (sv_health S)")
    case (Inl e)
    with None assms show ?thesis by (auto simp: EvaluateWorkflowType_def)
  next
    case (Inr th)
    with None assms(3) have "EvaluateWorkflowType E (\<lambda>_ S. S) csvc t (Some th) S = (res, S')"
      by (simp add: EvaluateWorkflowType_def)
    with EvaluateWorkflowType_effect [OF assms(1,2) quiet_id, of E csvc t th] show ?thesis by simp
  qed
qed

lemma calm_server_bus: "calm (Publish (server_bus E csvc))"
proof (unfold calm_def, intro allI impI)
  fix ev S
  assume "healthy_server S \<and> tables_ok S"
  then have S: "healthy_server S" "tables_ok S" by simp_all
  have "healthy_server (snd (OnHealthUpdatedEvent E (\<lambda>_ S. S) csvc ev S))
    \<and> tables_ok (snd (OnHealthUpdatedEvent E (\<lambda>_ S. S) csvc ev S))
    \<and> same_rest S (snd (OnHealthUpdatedEvent E (\<lambda>_ S. S) csvc ev S))"
  proof (cases ev)
    case (HealthUpdatedEvent a t b c d)
    with EvaluateWorkflowType_any [OF S surjective_pairing, of E csvc t c] show ?thesis
      by (simp add: OnHealthUpdatedEvent_def)
  qed (simp_all add: OnHealthUpdatedEvent_def S)
  with S show "healthy_server (Publish (server_bus E csvc) ev S) \<and> tables_ok (Publish (server_bus E csvc) ev S)
      \<and> same_rest S (Publish (server_bus E csvc) ev S)"
    by (simp add: server_bus_def Publish_Subscribe)
qed

section \<open>A result reaches the tables\<close>

lemma SaveResultWithType_effect:
  assumes "healthy_server S" and "tables_ok S"
    and S1_def: "S1 = S\<lparr>sv_results := snd (SaveResultWithType r ty (sv_results S))\<rparr>"
  shows "healthy_server S1 \<and> tables_ok S1 \<and> (\<exists>results. GetRunResults k (sv_results S1) = Inr results)
    \<and> GetResult (res_RunID r) (res_ClientID r) (sv_results S1)
      = Inr (case GetResult (res_RunID r) (res_ClientID r) (sv_results S) of Inr x \<Rightarrow> x | Inl _ \<Rightarrow> stored_result r)"
proof -
  have f: "sd_faults (sv_results S) = no_faults" using assms(1) by (simp add: healthy_server_def)
  have S1: "S1 = S\<lparr>sv_results := (sv_results S)\<lparr>sd_rows := insert_result r ty (sd_rows (sv_results S))\<rparr>\<rparr>"
    using f by (simp add: S1_def SaveResultWithType_def)
  have "healthy_server S1" using assms(1) by (simp add: S1 healthy_server_def)
  moreover have "tables_ok S1" using assms(2) by (simp add: S1 tables_ok_def distinct_insert_result)
  moreover have "\<exists>results. GetRunResults k (sv_results S1) = Inr results"
    using f by (simp add: S1 GetRunResults_def)
  moreover have "GetResult (res_RunID r) (res_ClientID r) (sv_results S1)
      = Inr (case GetResult (res_RunID r) (res_ClientID r) (sv_results S) of Inr x \<Rightarrow> x | Inl _ \<Rightarrow> stored_result r)"
    using f by (auto simp: S1 GetResult_def lookup_insert_result split: option.split)
  ultimately show ?thesis by blast
qed

lemma Health_HandleResult_run:
  assumes "healthy_server S" and "tables_ok S" and "Result_IsValid r"
    and "GetRun (res_RunID r) (sv_runs S) = Inr run" and "calm pub"
    and "Health_HandleResult E pub svc (Some r) S = (res, S')"
  shows "\<exists>ty results. (let S1 = S\<lparr>sv_results := snd (SaveResultWithType r ty (sv_results S))\<rparr> in
      healthy_server S1 \<and> tables_ok S1 \<and> GetRunResults (res_RunID r) (sv_results S1) = Inr results
      \<and> Service_CalculateRunHealth E pub svc (res_RunID r) S1 = (Inr (run_health_of E S1 run results), S') \<and> res = Inr ())"
proof -
  define ty where "ty = (case GetWorkflow (res_WorkflowID r) (sv_workflows S) of Inl _ \<Rightarrow> [] | Inr w \<Rightarrow> wf_WorkflowType w)"
  define S1 where "S1 = S\<lparr>sv_results := snd (SaveResultWithType r ty (sv_results S))\<rparr>"
  note saved = SaveResultWithType_effect [OF assms(1,2) S1_def, of "res_RunID r"]
  then obtain results where results: "GetRunResults (res_RunID r) (sv_results S1) = Inr results" by blast
  obtain x S2 where call: "Service_CalculateRunHealth E pub svc (res_RunID r) S1 = (x, S2)" by fastforce
  have "GetRun (res_RunID r) (sv_runs S1) = Inr run" using assms(4) by (simp add: S1_def)
  then have x: "x = Inr (run_health_of E S1 run results)"
    using Service_CalculateRunHealth_effect [OF _ _ assms(5) _ results call] saved by blast
  have "Health_HandleResult E pub svc (Some r) S = (case x of Inl e \<Rightarrow> Inl e | Inr _ \<Rightarrow> Inr (), S2)"
    unfolding Health_HandleResult_def Let_def option.case ty_def [symmetric] S1_def [symmetric] call prod.case
    using assms(3) by simp
  with assms(6) x have "res = Inr ()" "S' = S2" by simp_all
  with saved results call x show ?thesis
    unfolding Let_def by (intro exI [of _ ty] exI [of _ results]) (simp add: S1_def)
qed

text \<open>C2. A result drives health and circuits: a valid result of a known run is stored unless its
  client already has one for the run; the run's health is the one computed from all stored results
  of the run, and is recorded; the run becomes completed exactly when that health is complete; the
  health of the run's type is aggregated and recorded, and the breaker of every workflow of the
  type ends in the state its threshold decides for that aggregate.\<close>

theorem result_drives_health_and_circuits:
  assumes "healthy_server S" and "tables_ok S" and "Result_IsValid r"
    and "GetRun (res_RunID r) (sv_runs S) = Inr run"
    and "S' = snd (Health_HandleResult E (Publish (server_bus E csvc)) svc (Some r) S)"
  shows "GetResult (res_RunID r) (res_ClientID r) (sv_results S') = Inr (case GetResult (res_RunID r)
        (res_ClientID r) (sv_results S) of Inr x \<Rightarrow> x | Inl _ \<Rightarrow> stored_result r)
    \<and> (\<exists>results h th. GetRunResults (res_RunID r) (sv_results S') = Inr results
        \<and> h = run_health_of E S run results
        \<and> GetRunHealth (res_RunID r) (sv_health S') = Inr h
        \<and> GetRun (res_RunID r) (sv_runs S') = Inr (completed_if (IsComplete h \<and> run_State run \<noteq> RunCompleted) run)
        \<and> GetWorkflowTypeHealth (run_WorkflowType run) (sv_health S') = Inr th
        \<and> (\<forall>k w. GetWorkflow k (sv_workflows S) = Inr w \<and> wf_WorkflowType w = run_WorkflowType run
            \<longrightarrow> breaker_state (sv_circuits S') k = decision csvc (sv_workflows S) th k))"
proof -
  let ?pub = "Publish (server_bus E csvc)" and ?k = "res_RunID r"
  obtain res where call: "Health_HandleResult E ?pub svc (Some r) S = (res, S')"
    unfolding assms(5) using surjective_pairing by blast
  from Health_HandleResult_run [OF assms(1-4) calm_server_bus call] obtain ty results S1 where
    S1: "S1 = S\<lparr>sv_results := snd (SaveResultWithType r ty (sv_results S))\<rparr>"
      "healthy_server S1" "tables_ok S1" "GetRunResults ?k (sv_results S1) = Inr results"
    and calc: "Service_CalculateRunHealth E ?pub svc ?k S1 = (Inr (run_health_of E S1 run results), S')"
    unfolding Let_def by blast
  have run: "GetRun ?k (sv_runs S1) = Inr run" using assms(4) by (simp add: S1(1))
  have h: "run_health_of E S1 run results = run_health_of E S run results"
    by (simp add: run_health_of_def banned_clients_def S1(1))
  note eff = Service_CalculateRunHealth_effect [OF S1(2,3) calm_server_bus run S1(4) calc, unfolded h]
  then obtain S2 th where S2: "healthy_server S2" "tables_ok S2" "sv_workflows S2 = sv_workflows S1"
      "GetWorkflowTypeHealth (run_WorkflowType run) (sv_health S') = Inr th"
    and circuits: "sv_circuits S' = sv_circuits (?pub (HealthUpdatedEvent (run_WorkflowID run) (run_WorkflowType run)
        (Some (run_health_of E S run results)) (Some th) (env_now E)) S2)"
    unfolding Let_def by blast
  have "breaker_state (sv_circuits S') k = decision csvc (sv_workflows S) th k"
    if "GetWorkflow k (sv_workflows S) = Inr w" "wf_WorkflowType w = run_WorkflowType run" for k w
  proof -
    have "workflow_map (sv_workflows S2) k = Some w"
      using that(1) assms(1) by (simp add: S2(3) S1(1) GetWorkflow_map healthy_server_def split: option.splits)
    with EvaluateWorkflowType_effect [OF S2(1,2) quiet_id surjective_pairing, of E csvc "run_WorkflowType run" th] that(2)
    have "switched E csvc th S2 (snd (EvaluateWorkflowType E (\<lambda>_ S. S) csvc (run_WorkflowType run) (Some th) S2)) k"
      by blast
    then show ?thesis by (simp add: switched_def circuits server_bus_publish S2(3) S1(1))
  qed
  moreover have "GetResult ?k (res_ClientID r) (sv_results S') = Inr (case GetResult ?k
        (res_ClientID r) (sv_results S) of Inr x \<Rightarrow> x | Inl _ \<Rightarrow> stored_result r)"
    using eff SaveResultWithType_effect [OF assms(1,2) S1(1), of ?k] by simp
  moreover have "GetRunResults ?k (sv_results S') = Inr results" using eff S1(4) by simp
  ultimately show ?thesis using eff S2(4) by auto
qed

theorem result_drives_health_and_circuits_witness:
  "GetResult ''r1'' ''c1'' (sv_results (snd (Health_HandleResult \<lparr>env_now = 3000, env_uuid = \<lambda>_. []\<rparr>
      (Publish (server_bus \<lparr>env_now = 3000, env_uuid = \<lambda>_. []\<rparr> sample_service))
      (NewHealthMonitoringService None 0) (Some sample_result) busy_server))) = Inr sample_result"
proof -
  have r: "Result_IsValid sample_result" "GetRun (res_RunID sample_result) (sv_runs busy_server) = Inr sample_run"
    "res_RunID sample_result = ''r1''" "res_ClientID sample_result = ''c1''" "stored_result sample_result = sample_result"
    by (simp_all add: sample_result_def Result_IsValid_def GetRun_def busy_server_def sample_run_def stored_result_def)
  have "GetResult ''r1'' ''c1'' (sv_results busy_server) = Inl (ErrMsg ''result not found'')"
    by (simp add: busy_server_def sample_server_def empty_server_def GetResult_def)
  with result_drives_health_and_circuits [OF busy_server_ok(1,2) r(1,2) refl, THEN conjunct1,
      of "\<lparr>env_now = 3000, env_uuid = \<lambda>_. []\<rparr>" sample_service "NewHealthMonitoringService None 0"]
  show ?thesis by (simp add: r(3-5))
qed


section \<open>Replies of banned clients\<close>








section \<open>Handlers and their order\<close>

text \<open>What a property of the state needs in order to hold along a stream of messages.\<close>

locale result_processing =
  fixes handlers :: "'s result_handler list" and inv :: "'s \<Rightarrow> bool"
  assumes handler_keeps: "h \<in> set handlers \<Longrightarrow> inv s \<Longrightarrow> inv (snd (hl_HandleResult h (Some r) s))"
begin

lemma handle_all_keeps: "set hs \<subseteq> set handlers \<Longrightarrow> inv s \<Longrightarrow> inv (handle_all hs (Some r) s)"
  by (induction hs arbitrary: s) (auto simp: handler_keeps)

lemma Dispatch_keeps: "inv s \<Longrightarrow> inv (Dispatch handlers r s)"
  by (auto simp: Dispatch_def handle_all_keeps split: option.split)

lemma Start_keeps: "inv s \<Longrightarrow> inv (Dispatcher_Start parse handlers ps s)"
  by (induction ps arbitrary: s) (auto simp: Dispatch_keeps split: sum.split)

end

text \<open>Registering handlers one by one sorts them by priority, whatever the order of
  registration, as long as the priorities differ.\<close>

lemma RegisterHandler_sorted:
  "mset (fold RegisterHandler hs hs0) = mset hs0 + mset hs
    \<and> (sorted (map hl_Priority hs0) \<longrightarrow> sorted (map hl_Priority (fold RegisterHandler hs hs0)))"
  by (induction hs arbitrary: hs0) (auto simp: RegisterHandler_def)

lemma sorted_mset_unique:
  assumes "mset xs = mset ys" and "sorted (map f xs)" and "sorted (map f ys)" and "inj_on f (set xs)"
  shows "xs = ys"
proof -
  have "map f xs = map f ys"
  proof (rule properties_for_sort [symmetric, THEN trans, OF _ _ properties_for_sort])
    show "mset (map f xs) = mset (map f xs)" ..
    show "sorted (map f xs)" "sorted (map f ys)" by (rule assms)+
    show "mset (map f ys) = mset (map f xs)" using assms(1) by simp
  qed
  moreover have "set ys = set xs" using assms(1) by (metis set_mset_mset)
  ultimately show ?thesis using assms(4) by (intro inj_on_map_eq_map [THEN iffD1, of f]) auto
qed

lemma register_any_order:
  assumes "mset hs = mset hs'" and "sorted (map hl_Priority hs')" and "distinct (map hl_Priority hs')"
  shows "fold RegisterHandler hs [] = hs'"
proof (rule sorted_mset_unique [of _ _ hl_Priority])
  show "mset (fold RegisterHandler hs []) = mset hs'" "sorted (map hl_Priority (fold RegisterHandler hs []))"
    using RegisterHandler_sorted [of hs "[]"] assms(1) by simp_all
  show "sorted (map hl_Priority hs')" by fact
  have "set (fold RegisterHandler hs []) = set hs'"
    using RegisterHandler_sorted [of hs "[]"] assms(1) by (metis add_0 mset.simps(1) set_mset_mset)
  with assms(3) show "inj_on hl_Priority (set (fold RegisterHandler hs []))"
    by (simp add: distinct_map)
qed

section \<open>The server's handlers\<close>

record server_config =
  cfg_evidence :: "result \<Rightarrow> string"
  cfg_loop :: loop_service
  cfg_health :: health_service
  cfg_circuit :: circuit_service

definition registration_handler :: "env \<Rightarrow> server result_handler" where
  "registration_handler E = \<lparr>hl_Name = ''client_registration'', hl_Priority = 0,
     hl_HandleResult = Registration_HandleResult E\<rparr>"

definition loop_handler :: "env \<Rightarrow> server_config \<Rightarrow> server result_handler" where
  "loop_handler E cfg = \<lparr>hl_Name = ''loop_detection'', hl_Priority = 1,
     hl_HandleResult = Loop_HandleResult E (cfg_evidence cfg) (cfg_loop cfg)\<rparr>"

text \<open>The health handler runs after the loop detector, which may have drawn two identifiers.\<close>

definition health_handler :: "env \<Rightarrow> server_config \<Rightarrow> server result_handler" where
  "health_handler E cfg = \<lparr>hl_Name = ''health_monitoring'', hl_Priority = 2,
     hl_HandleResult = Health_HandleResult (env_skip 2 E)
       (Publish (server_bus (env_skip 2 E) (cfg_circuit cfg))) (cfg_health cfg)\<rparr>"

definition server_handlers :: "env \<Rightarrow> server_config \<Rightarrow> server result_handler list" where
  "server_handlers E cfg = fold RegisterHandler [registration_handler E, loop_handler E cfg, health_handler E cfg] []"

text \<open>One message received at the instant of \<open>E\<close>.\<close>

definition process_message ::
  "server_config \<Rightarrow> (env \<Rightarrow> 'p \<Rightarrow> go_error + result) \<Rightarrow> env \<times> 'p \<Rightarrow> server \<Rightarrow> server" where
  "process_message cfg parse msg S = (case msg of (E, data) \<Rightarrow>
     Dispatcher_Start (parse E) (server_handlers E cfg) [data] S)"

lemma server_handlers_eq:
  "mset hs = {#registration_handler E, loop_handler E cfg, health_handler E cfg#} \<Longrightarrow>
    fold RegisterHandler hs [] = [registration_handler E, loop_handler E cfg, health_handler E cfg]"
  by (rule register_any_order) (simp_all add: registration_handler_def loop_handler_def health_handler_def)

definition server_inv :: "server \<Rightarrow> bool" where
  "server_inv S \<longleftrightarrow> healthy_server S \<and> tables_ok S \<and> cache_sound (sv_enf S)"

lemma server_inv_enf_only:
  assumes "server_inv S" and "enf_only S S'" and "cache_sound (sv_enf S')" and "healthy (sv_enf S')"
  shows "server_inv S'"
  using assms by (simp add: server_inv_def enf_only_def healthy_server_def tables_ok_def healthy_def)

lemma Registration_inv: "server_inv S \<Longrightarrow> server_inv (snd (Registration_HandleResult E r S))"
  by (auto simp: Registration_HandleResult_def server_inv_def healthy_server_def tables_ok_def Let_def
      SaveClient_distinct split: option.split)

lemma Loop_inv: "server_inv S \<Longrightarrow> server_inv (snd (Loop_HandleResult E ev svc r S))"
proof -
  assume S: "server_inv S"
  then have "healthy (sv_enf S)" by (simp add: server_inv_def healthy_server_def healthy_def)
  with Loop_HandleResult_effect [OF _ this surjective_pairing, of E ev svc r] S server_inv_enf_only [OF S]
  show ?thesis by (simp add: server_inv_def)
qed

lemma cache_sound_cong:
  "en_bans (sv_enf S') = en_bans (sv_enf S) \<Longrightarrow> en_blocker (sv_enf S') = en_blocker (sv_enf S)
    \<Longrightarrow> cache_sound (sv_enf S') = cache_sound (sv_enf S)"
  by (simp add: cache_sound_def cached_def banned_keys_def)

lemma Health_inv:
  assumes "server_inv S"
  shows "server_inv (snd (Health_HandleResult E (Publish (server_bus E' csvc)) svc (Some r) S))
    \<and> sv_clients (snd (Health_HandleResult E (Publish (server_bus E' csvc)) svc (Some r) S)) = sv_clients S"
proof (cases "Result_IsValid r")
  case valid: True
  have S: "healthy_server S" "tables_ok S" "cache_sound (sv_enf S)" using assms by (simp_all add: server_inv_def)
  show ?thesis
  proof (cases "GetRun (res_RunID r) (sv_runs S)")
    case (Inl e)
    let ?S1 = "\<lambda>ty. S\<lparr>sv_results := snd (SaveResultWithType r ty (sv_results S))\<rparr>"
    have "healthy_server (?S1 ty) \<and> tables_ok (?S1 ty)" for ty
      using SaveResultWithType_effect [OF S(1,2) refl, of r ty "res_RunID r"] by blast
    with S valid Inl show ?thesis
      by (simp add: Health_HandleResult_def Let_def Service_CalculateRunHealth_def server_inv_def split: sum.split)
  next
    case (Inr run)
    let ?pub = "Publish (server_bus E' csvc)"
    obtain res S' where call: "Health_HandleResult E ?pub svc (Some r) S = (res, S')" by fastforce
    from Health_HandleResult_run [OF S(1,2) valid Inr calm_server_bus call] obtain ty results S1 where
      S1: "S1 = S\<lparr>sv_results := snd (SaveResultWithType r ty (sv_results S))\<rparr>"
        "healthy_server S1" "tables_ok S1" "GetRunResults (res_RunID r) (sv_results S1) = Inr results"
      and calc: "Service_CalculateRunHealth E ?pub svc (res_RunID r) S1 = (Inr (run_health_of E S1 run results), S')"
      unfolding Let_def by blast
    have "GetRun (res_RunID r) (sv_runs S1) = Inr run" using Inr by (simp add: S1(1))
    note eff = Service_CalculateRunHealth_effect [OF S1(2,3) calm_server_bus this S1(4) calc]
    then have "cache_sound (sv_enf S') = cache_sound (sv_enf S)"
      by (intro cache_sound_cong) (simp_all add: S1(1))
    with eff S(3) show ?thesis by (simp add: call server_inv_def S1(1))
  qed
qed (use assms in \<open>simp add: Health_HandleResult_def\<close>)

interpretation server_stream: result_processing "server_handlers E cfg" server_inv for E cfg
proof
  fix h S r
  assume h: "h \<in> set (server_handlers E cfg)" and S: "server_inv S"
  have "server_handlers E cfg = [registration_handler E, loop_handler E cfg, health_handler E cfg]"
    unfolding server_handlers_def by (rule server_handlers_eq) simp
  with h S show "server_inv (snd (hl_HandleResult h (Some r) S))"
    by (auto simp: registration_handler_def loop_handler_def health_handler_def Registration_inv Loop_inv Health_inv)
qed

text \<open>What one valid message leaves: the registration comes first and nothing after it touches the
  clients, and the result is stored by the last handler, whether its run is known or not.\<close>

lemma Health_HandleResult_stores:
  assumes "server_inv S" and "Result_IsValid r"
  shows "GetResult (res_RunID r) (res_ClientID r)
      (sv_results (snd (Health_HandleResult E (Publish (server_bus E' csvc)) svc (Some r) S)))
    = Inr (case GetResult (res_RunID r) (res_ClientID r) (sv_results S) of Inr x \<Rightarrow> x | Inl _ \<Rightarrow> stored_result r)"
proof -
  have S: "healthy_server S" "tables_ok S" using assms(1) by (simp_all add: server_inv_def)
  let ?S1 = "\<lambda>ty. S\<lparr>sv_results := snd (SaveResultWithType r ty (sv_results S))\<rparr>"
  note saved = SaveResultWithType_effect [OF S refl, of r _ "res_RunID r"]
  show ?thesis
  proof (cases "GetRun (res_RunID r) (sv_runs S)")
    case (Inl e)
    with assms(2) saved show ?thesis
      by (simp add: Health_HandleResult_def Let_def Service_CalculateRunHealth_def split: sum.split)
  next
    case (Inr run)
    let ?pub = "Publish (server_bus E' csvc)"
    obtain res S' where call: "Health_HandleResult E ?pub svc (Some r) S = (res, S')" by fastforce
    from Health_HandleResult_run [OF S assms(2) Inr calm_server_bus call] obtain ty results S1 where
      S1: "S1 = ?S1 ty" "healthy_server S1" "tables_ok S1" "GetRunResults (res_RunID r) (sv_results S1) = Inr results"
      and calc: "Service_CalculateRunHealth E ?pub svc (res_RunID r) S1 = (Inr (run_health_of E S1 run results), S')"
      unfolding Let_def by blast
    have "GetRun (res_RunID r) (sv_runs S1) = Inr run" using Inr by (simp add: S1(1))
    note eff = Service_CalculateRunHealth_effect [OF S1(2,3) calm_server_bus this S1(4) calc]
    with saved [of ty] show ?thesis by (simp add: call S1(1))
  qed
qed

lemma process_message_valid:
  assumes "server_inv S1" and "parse E data = Inr r" and "Result_IsValid r" and "res_ReceivedAt r \<noteq> 0"
    and "S2 = process_message cfg parse (E, data) S1"
  shows "GetClientByID (res_ClientID r) (sv_clients S2) = Inr \<lparr>cm_ClientID = res_ClientID r, cm_OS = ''ubuntu'',
        cm_Labels = [], cm_InnerState = json_column (res_InnerState r), cm_Active = True,
        cm_LastSeenAt = res_ReceivedAt r\<rparr>"
    and "GetResult (res_RunID r) (res_ClientID r) (sv_results S2) = Inr (case GetResult (res_RunID r)
        (res_ClientID r) (sv_results S1) of Inr x \<Rightarrow> x | Inl _ \<Rightarrow> stored_result r)"
proof -
  have handlers: "server_handlers E cfg = [registration_handler E, loop_handler E cfg, health_handler E cfg]" for E
    unfolding server_handlers_def by (rule server_handlers_eq) simp
  define Sa where "Sa = snd (Registration_HandleResult E (Some r) S1)"
  define Sb where "Sb = snd (Loop_HandleResult E (cfg_evidence cfg) (cfg_loop cfg) (Some r) Sa)"
  have inv: "server_inv Sa" "server_inv Sb" using assms(1) by (simp_all add: Sa_def Sb_def Registration_inv Loop_inv)
  have S2: "S2 = snd (Health_HandleResult (env_skip 2 E) (Publish (server_bus (env_skip 2 E) (cfg_circuit cfg)))
      (cfg_health cfg) (Some r) Sb)"
    using assms(2,3) by (simp add: assms(5) process_message_def handlers Dispatch_def registration_handler_def
        loop_handler_def health_handler_def Sa_def Sb_def)
  have loop: "enf_only Sa Sb"
    using Loop_HandleResult_effect [OF _ _ surjective_pairing, of Sa E "cfg_evidence cfg" "cfg_loop cfg" "Some r"] inv(1)
    by (simp add: Sb_def server_inv_def healthy_server_def healthy_def)
  have "sv_clients S2 = sv_clients Sa" using Health_inv [OF inv(2)] loop by (simp add: S2 enf_only_def)
  moreover have "cd_faults (sv_clients S1) = no_faults" "res_ClientID r \<noteq> []"
    using assms(1,3) by (auto simp: server_inv_def healthy_server_def Result_IsValid_def split: if_splits)
  ultimately show "GetClientByID (res_ClientID r) (sv_clients S2) = Inr \<lparr>cm_ClientID = res_ClientID r,
      cm_OS = ''ubuntu'', cm_Labels = [], cm_InnerState = json_column (res_InnerState r), cm_Active = True,
      cm_LastSeenAt = res_ReceivedAt r\<rparr>"
    using assms(4)
    by (simp add: Sa_def Registration_HandleResult_def GetClientByID_def lookup_SaveClient client_row_def IsZero_def Let_def)
  have "sv_results Sa = sv_results S1"
    by (auto simp: Sa_def Registration_HandleResult_def Let_def split: option.split)
  with Health_HandleResult_stores [OF inv(2) assms(3)] loop
  show "GetResult (res_RunID r) (res_ClientID r) (sv_results S2) = Inr (case GetResult (res_RunID r)
        (res_ClientID r) (sv_results S1) of Inr x \<Rightarrow> x | Inl _ \<Rightarrow> stored_result r)"
    by (simp add: S2 enf_only_def)
qed

lemma process_message_inv: "server_inv S \<Longrightarrow> server_inv (process_message cfg parse msg S)"
  unfolding process_message_def by (cases msg) (simp del: Dispatcher_Start.simps add: server_stream.Start_keeps)

text \<open>C15. Messages keep the server consistent: whatever the payloads, after any sequence of result
  messages every table still has its keys unique, runs and participants agree, and the ban cache
  holds only real bans. The handlers run in the same order (registration, loop detection, health)
  however they were registered, and a valid result leaves its client known and active with the
  state of the message, but with the operating system \<open>ubuntu\<close> and no labels, whatever it had
  registered with.\<close>

theorem messages_keep_server_consistent:
  assumes "server_inv S" and "parse E data = Inr r" and "Result_IsValid r" and "res_ReceivedAt r \<noteq> 0"
    and "S1 = fold (process_message cfg parse) msgs S" and "S2 = process_message cfg parse (E, data) S1"
  shows "server_inv S1 \<and> server_inv S2
    \<and> (\<forall>hs. mset hs = {#health_handler E cfg, registration_handler E, loop_handler E cfg#}
        \<longrightarrow> fold RegisterHandler hs [] = [registration_handler E, loop_handler E cfg, health_handler E cfg])
    \<and> GetClientByID (res_ClientID r) (sv_clients S2) = Inr \<lparr>cm_ClientID = res_ClientID r, cm_OS = ''ubuntu'',
        cm_Labels = [], cm_InnerState = json_column (res_InnerState r), cm_Active = True,
        cm_LastSeenAt = res_ReceivedAt r\<rparr>"
proof -
  have S1: "server_inv S1"
    unfolding assms(5) using assms(1) by (induction msgs arbitrary: S) (simp_all add: process_message_inv)
  then have S2: "server_inv S2" unfolding assms(6) by (rule process_message_inv)
  from S1 S2 process_message_valid(1) [OF S1 assms(2-4,6)] show ?thesis by (auto intro!: server_handlers_eq)
qed

theorem messages_keep_server_consistent_witness:
  "server_inv (process_message \<lparr>cfg_evidence = \<lambda>_. [], cfg_loop = NewLoopDetectionService True 5000,
      cfg_health = NewHealthMonitoringService None 0, cfg_circuit = sample_service\<rparr> (\<lambda>_. Inr)
      (\<lparr>env_now = 3000, env_uuid = \<lambda>_. []\<rparr>, sample_result) busy_server)"
proof -
  have "server_inv busy_server" using busy_server_ok by (simp add: server_inv_def)
  moreover have "Result_IsValid sample_result" "res_ReceivedAt sample_result \<noteq> 0"
    by (simp_all add: sample_result_def Result_IsValid_def)
  ultimately show ?thesis
    using messages_keep_server_consistent [where parse = "\<lambda>_. Inr" and msgs = "[]" and data = sample_result
        and S = busy_server, OF _ refl _ _ refl refl] by simp
qed

end
