(* ===== verification/Client_Filter.thy ===== *)
theory Client_Filter
  imports Clients
begin

text \<open>
  Client filters (\<open>internal/core/domain/filter.go\<close>): the expression tree, its evaluation on a
  client and the comparison of dynamic values. A \<open>*FilterNode\<close> is an option; the fields of a node
  are kept as the struct has them, so that ill-formed trees exist and are evaluated as the code does.
\<close>

section \<open>Operators and trees\<close>

datatype filter_op =
    OpEq | OpNeq | OpLt | OpGt | OpLte | OpGte | OpIn | OpNotIn | OpContains | OpNotContains
  | OpOther string

fun filter_op_text :: "filter_op \<Rightarrow> string" where
  "filter_op_text OpEq = ''==''"
| "filter_op_text OpNeq = ''!=''"
| "filter_op_text OpLt = ''<''"
| "filter_op_text OpGt = ''>''"
| "filter_op_text OpLte = ''<=''"
| "filter_op_text OpGte = ''>=''"
| "filter_op_text OpIn = ''IN''"
| "filter_op_text OpNotIn = ''NOT_IN''"
| "filter_op_text OpContains = ''CONTAINS''"
| "filter_op_text OpNotContains = ''NOT_CONTAINS''"
| "filter_op_text (OpOther s) = s"

text \<open>The conversion \<open>FilterOp(s)\<close> of a string, as the constants read it.\<close>

definition filter_op_of :: "string \<Rightarrow> filter_op" where
  "filter_op_of s =
     (case map_of (map (\<lambda>x. (filter_op_text x, x)) [OpEq, OpNeq, OpLt, OpGt, OpLte, OpGte, OpIn,
         OpNotIn, OpContains, OpNotContains]) s of Some x \<Rightarrow> x | None \<Rightarrow> OpOther s)"

record filter_condition =
  fc_Field :: string
  fc_Op :: filter_op
  fc_Value :: gval

datatype logical_op = LogicNone | LogicAnd | LogicOr | LogicNot

datatype filter_node =
  FilterNode (fn_Condition: "filter_condition option") (fn_Logical: logical_op)
    (fn_Left: "filter_node option") (fn_Right: "filter_node option")

section \<open>Comparison\<close>

fun toFloat :: "gval \<Rightarrow> float64 option" where
  "toFloat (VF64 x) = Some x"
| "toFloat (VF32 x) = Some x"
| "toFloat (VInt n) = Some (f64_of_int (sint n))"
| "toFloat (VInt32 n) = Some (f64_of_int (sint n))"
| "toFloat (VInt64 n) = Some (f64_of_int (sint n))"
| "toFloat (VUint n) = Some (f64_of_int (uint n))"
| "toFloat (VUint64 n) = Some (f64_of_int (uint n))"
| "toFloat (VStr s) = ParseFloat s"
| "toFloat (VBool b) = Some (f64_of_int (if b then 1 else 0))"
| "toFloat _ = None"

definition equalsAny :: "gval \<Rightarrow> gval \<Rightarrow> bool" where
  "equalsAny a b =
     (if a = VNil \<or> b = VNil then a = b
      else (case (toFloat a, toFloat b) of
         (Some af, Some bf) \<Rightarrow> feq af bf
       | _ \<Rightarrow> fmt_v a = fmt_v b))"

definition numericCompare :: "gval \<Rightarrow> filter_op \<Rightarrow> gval \<Rightarrow> go_error + bool" where
  "numericCompare a op b = (case (toFloat a, toFloat b) of
     (Some af, Some bf) \<Rightarrow> (case op of
         OpLt \<Rightarrow> Inr (flt af bf)
       | OpGt \<Rightarrow> Inr (flt bf af)
       | OpLte \<Rightarrow> Inr (fle af bf)
       | OpGte \<Rightarrow> Inr (fle bf af)
       | _ \<Rightarrow> Inl ErrInvalidOperator)
   | _ \<Rightarrow> Inl ErrTypeMismatch)"

fun any_equal :: "gval \<Rightarrow> gval list \<Rightarrow> bool" where
  "any_equal a [] = False"
| "any_equal a (v # vs) = (if equalsAny a v then True else any_equal a vs)"

definition inAny :: "gval \<Rightarrow> gval \<Rightarrow> go_error + bool" where
  "inAny a b = (case b of
     VList vs \<Rightarrow> Inr (any_equal a vs)
   | VStrs ss \<Rightarrow> Inr (fmt_v a \<in> set ss)
   | _ \<Rightarrow> Inl ErrTypeMismatch)"

fun any_equal_to :: "gval list \<Rightarrow> gval \<Rightarrow> bool" where
  "any_equal_to [] b = False"
| "any_equal_to (v # vs) b = (if equalsAny v b then True else any_equal_to vs b)"

definition containsAny :: "gval \<Rightarrow> gval \<Rightarrow> go_error + bool" where
  "containsAny a b = (case (a, b) of
     (VStr as, VStr bs) \<Rightarrow> Inr (strings_Contains as bs)
   | (VList vs, _) \<Rightarrow> Inr (any_equal_to vs b)
   | _ \<Rightarrow> Inl ErrTypeMismatch)"

definition negated :: "go_error + bool \<Rightarrow> go_error + bool" where
  "negated r = (case r of Inl e \<Rightarrow> Inl e | Inr v \<Rightarrow> Inr (\<not> v))"

fun CompareValues :: "gval \<Rightarrow> filter_op \<Rightarrow> gval \<Rightarrow> go_error + bool" where
  "CompareValues left OpEq right = Inr (equalsAny left right)"
| "CompareValues left OpNeq right = Inr (\<not> equalsAny left right)"
| "CompareValues left OpLt right = numericCompare left OpLt right"
| "CompareValues left OpGt right = numericCompare left OpGt right"
| "CompareValues left OpLte right = numericCompare left OpLte right"
| "CompareValues left OpGte right = numericCompare left OpGte right"
| "CompareValues left OpIn right = inAny left right"
| "CompareValues left OpNotIn right = negated (inAny left right)"
| "CompareValues left OpContains right = containsAny left right"
| "CompareValues left OpNotContains right = negated (containsAny left right)"
| "CompareValues left (OpOther s) right = Inl ErrInvalidOperator"

section \<open>Evaluation\<close>

definition evalCondition :: "filter_condition \<Rightarrow> client_metadata \<Rightarrow> go_error + bool" where
  "evalCondition c client = (case GetField client (fc_Field c) of
     Inl _ \<Rightarrow> Inr False
   | Inr leftVal \<Rightarrow> CompareValues leftVal (fc_Op c) (fc_Value c))"

fun Evaluate :: "filter_node option \<Rightarrow> client_metadata \<Rightarrow> go_error + bool" where
  "Evaluate None client = Inr True"
| "Evaluate (Some (FilterNode (Some c) logical left right)) client = evalCondition c client"
| "Evaluate (Some (FilterNode None LogicNot left right)) client = (case Evaluate left client of
     Inl e \<Rightarrow> Inl e | Inr v \<Rightarrow> Inr (\<not> v))"
| "Evaluate (Some (FilterNode None LogicAnd left right)) client = (case Evaluate left client of
     Inl e \<Rightarrow> Inl e | Inr l \<Rightarrow> if \<not> l then Inr False else Evaluate right client)"
| "Evaluate (Some (FilterNode None LogicOr left right)) client = (case Evaluate left client of
     Inl e \<Rightarrow> Inl e | Inr l \<Rightarrow> if l then Inr True else Evaluate right client)"
| "Evaluate (Some (FilterNode None LogicNone left right)) client = Inl ErrInvalidFilter"

record filter_result =
  fr_MatchingClientIDs :: "string list"
  fr_TotalEvaluated :: int
  fr_MatchCount :: int

definition FilterResult_IsEmpty :: "filter_result \<Rightarrow> bool" where
  "FilterResult_IsEmpty r \<longleftrightarrow> fr_MatchCount r = 0"

definition GetMatchPercentage :: "filter_result \<Rightarrow> float64" where
  "GetMatchPercentage r = (if fr_TotalEvaluated r = 0 then f64_of_int 0
     else fdiv (fmul (f64_of_int 100) (f64_of_int (fr_MatchCount r))) (f64_of_int (fr_TotalEvaluated r)))"

end
