(* ===== verification/Filter_Parser.thy ===== *)
theory Filter_Parser
  imports Client_Filter "HOL-Library.Code_Target_Nat" "HOL-Library.Code_Target_Int"
begin

text \<open>
  The filter language (\<open>internal/core/domain/filter_parser.go\<close>): the tokenizer and the recursive
  descent parser. The parser's position is the list of the tokens not yet read; reading past its
  end is Go's index panic. Every function of the parser takes a fuel, and running out of it is a
  result of its own; \<open>ParseFilter\<close> starts with an amount that always suffices.
\<close>

section \<open>Quoting (\<open>fmt\<close> with the \<open>%q\<close> verb)\<close>

definition hex_char :: "nat \<Rightarrow> char" where
  "hex_char d = char_of (if d < 10 then 48 + d else 87 + d)"

definition hex2 :: "nat \<Rightarrow> string" where
  "hex2 n = [hex_char (n div 16), hex_char (n mod 16)]"

text \<open>\<open>strconv.IsPrint\<close> on code points below 256.\<close>

definition is_print :: "char \<Rightarrow> bool" where
  "is_print c \<longleftrightarrow> (32 \<le> ch c \<and> ch c \<le> 126) \<or> (161 \<le> ch c \<and> ch c \<noteq> 173)"

definition quote_char :: "char \<Rightarrow> char \<Rightarrow> string" where
  "quote_char q c =
     (if c = q \<or> ch c = 92 then [char_of (92::nat), c]
      else if is_print c then [c]
      else (case map_of [(7::nat, CHR ''a''), (8, CHR ''b''), (12, CHR ''f''), (10, CHR ''n''),
               (13, CHR ''r''), (9, CHR ''t''), (11, CHR ''v'')] (ch c) of
           Some l \<Rightarrow> [char_of (92::nat), l]
         | None \<Rightarrow> if ch c < 32 \<or> ch c = 127 then char_of (92::nat) # ''x'' @ hex2 (ch c)
             else char_of (92::nat) # ''u00'' @ hex2 (ch c)))"

definition quote_rune :: "char \<Rightarrow> string" where
  "quote_rune c = char_of (39::nat) # quote_char (char_of (39::nat)) c @ [char_of (39::nat)]"

definition quote_string :: "string \<Rightarrow> string" where
  "quote_string s = char_of (34::nat) # concat (map (quote_char (char_of (34::nat))) s) @ [char_of (34::nat)]"

section \<open>Tokens\<close>

datatype token_type =
  TIdent | TString | TNumber | TOp | TLParen | TRParen | TComma | TLBracket | TRBracket | TEOF

record token =
  tk_typ :: token_type
  tk_val :: string

definition tok :: "token_type \<Rightarrow> string \<Rightarrow> token" where
  "tok t v = \<lparr>tk_typ = t, tk_val = v\<rparr>"

definition filter_error :: "string \<Rightarrow> go_error" where
  "filter_error m = ErrWrap [] ErrInvalidFilter ('': '' @ m)"

definition word_char :: "char \<Rightarrow> bool" where
  "word_char c \<longleftrightarrow> IsLetter c \<or> IsDigit c \<or> c = CHR ''_'' \<or> c = CHR ''.''"

definition number_char :: "char \<Rightarrow> bool" where
  "number_char c \<longleftrightarrow> IsDigit c \<or> c = CHR ''.''"

definition keywords_upper :: "string list" where
  "keywords_upper = [''AND'', ''OR'', ''NOT'', ''IN'', ''NOT_IN'', ''CONTAINS'', ''NOT_CONTAINS'']"

definition word_token :: "string \<Rightarrow> token" where
  "word_token word = (let upper = ToUpper word in
     if upper \<in> set keywords_upper then tok TOp upper
     else if upper = ''TRUE'' \<or> upper = ''FALSE'' then tok TIdent (ToLower word)
     else tok TIdent word)"

definition punctuation :: "char \<Rightarrow> token_type option" where
  "punctuation c = map_of [(CHR ''('', TLParen), (CHR '')'', TRParen), (CHR ''['', TLBracket),
     (CHR '']'', TRBracket), (CHR '','', TComma)] c"

definition is_quote :: "char \<Rightarrow> bool" where
  "is_quote c \<longleftrightarrow> ch c = 39 \<or> ch c = 34"

definition is_op_char :: "char \<Rightarrow> bool" where
  "is_op_char c \<longleftrightarrow> c = CHR ''='' \<or> c = CHR ''!'' \<or> c = CHR ''<'' \<or> c = CHR ''>''"

definition starts_number :: "char \<Rightarrow> string \<Rightarrow> bool" where
  "starts_number c cs \<longleftrightarrow> IsDigit c \<or> (c = CHR ''-'' \<and> cs \<noteq> [] \<and> IsDigit (hd cs))"

text \<open>The loop of \<open>tokenize\<close> on the runes not yet read; each inner loop is the longest prefix it
  runs over.\<close>

function token_loop :: "string \<Rightarrow> token list \<Rightarrow> go_error + token list" where
  "token_loop [] tokens = Inr (tokens @ [tok TEOF []])"
| "token_loop (c # cs) tokens =
     (if IsSpace c then token_loop cs tokens
      else case punctuation c of Some t \<Rightarrow> token_loop cs (tokens @ [tok t [c]])
      | None \<Rightarrow>
        if is_quote c then
          (case dropWhile (\<lambda>d. d \<noteq> c) cs of
             [] \<Rightarrow> Inl (filter_error ''unterminated string'')
           | q # rest \<Rightarrow> token_loop rest (tokens @ [tok TString (takeWhile (\<lambda>d. d \<noteq> c) cs)]))
        else if starts_number c cs then
          token_loop (dropWhile number_char cs) (tokens @ [tok TNumber (c # takeWhile number_char cs)])
        else if is_op_char c then
          (if cs \<noteq> [] \<and> hd cs = CHR ''='' then token_loop (tl cs) (tokens @ [tok TOp [c, CHR ''='']])
           else token_loop cs (tokens @ [tok TOp [c]]))
        else if IsLetter c \<or> c = CHR ''_'' then
          token_loop (dropWhile word_char cs) (tokens @ [word_token (c # takeWhile word_char cs)])
        else Inl (filter_error (''unexpected char '' @ quote_rune c)))"
  by pat_completeness auto

lemma dropWhile_le: "length (dropWhile P xs) \<le> length xs"
  by (rule length_dropWhile_le)

termination token_loop
proof (relation "measure (\<lambda>(cs, _). length cs)")
  fix c :: char and cs q rest and tokens :: "token list"
  assume "dropWhile (\<lambda>d. d \<noteq> c) cs = q # rest"
  with dropWhile_le [of "\<lambda>d. d \<noteq> c" cs]
  show "((rest, tokens @ [tok TString (takeWhile (\<lambda>d. d \<noteq> c) cs)]), c # cs, tokens)
    \<in> measure (\<lambda>(cs, _). length cs)" by simp
qed (simp_all add: le_imp_less_Suc dropWhile_le less_Suc_eq_le)

definition tokenize :: "string \<Rightarrow> go_error + token list" where
  "tokenize input = token_loop input []"

section \<open>The parser\<close>

datatype 'a parse = Unfinished | Panicked | Failed go_error | Parsed 'a "token list"

fun parse_bind :: "'a parse \<Rightarrow> ('a \<Rightarrow> token list \<Rightarrow> 'b parse) \<Rightarrow> 'b parse" where
  "parse_bind Unfinished f = Unfinished"
| "parse_bind Panicked f = Panicked"
| "parse_bind (Failed e) f = Failed e"
| "parse_bind (Parsed a ts) f = f a ts"

fun peek :: "token list \<Rightarrow> token parse" where
  "peek [] = Panicked"
| "peek (t # ts) = Parsed t (t # ts)"

fun advance :: "token list \<Rightarrow> token parse" where
  "advance [] = Panicked"
| "advance (t # ts) = Parsed t ts"

definition isKnownOp :: "filter_op \<Rightarrow> bool" where
  "isKnownOp x = (case x of OpOther _ \<Rightarrow> False | _ \<Rightarrow> True)"

definition is_op :: "string \<Rightarrow> token \<Rightarrow> bool" where
  "is_op s t \<longleftrightarrow> tk_typ t = TOp \<and> tk_val t = s"

text \<open>A number with a point is a \<open>float64\<close>, any other an \<open>int64\<close>. The tokenizer hands over
  digits and points only, so two points are the one syntax error and everything else that
  \<open>strconv\<close> refuses is out of range.\<close>

definition number_error :: "string \<Rightarrow> string \<Rightarrow> go_error" where
  "number_error fn s = ErrMsg (''strconv.'' @ fn @ '': parsing '' @ quote_string s
     @ (if 1 < length (filter (\<lambda>c. c = CHR ''.'') s) then '': invalid syntax'' else '': value out of range''))"

definition number_value :: "string \<Rightarrow> go_error + gval" where
  "number_value s =
     (if strings_Contains s ''.'' then
        (case ParseFloat s of Some f \<Rightarrow> Inr (VF64 f) | None \<Rightarrow> Inl (number_error ''ParseFloat'' s))
      else (case ParseInt s of Some n \<Rightarrow> Inr (VInt64 n) | None \<Rightarrow> Inl (number_error ''ParseInt'' s)))"

definition ident_value :: "string \<Rightarrow> gval" where
  "ident_value s = (if s = ''true'' then VBool True else if s = ''false'' then VBool False else VStr s)"

fun parseValue :: "nat \<Rightarrow> token list \<Rightarrow> gval parse"
and value_loop :: "nat \<Rightarrow> gval list \<Rightarrow> token list \<Rightarrow> gval parse" where
  "parseValue 0 ts = Unfinished"
| "parseValue (Suc n) ts = parse_bind (advance ts) (\<lambda>t ts. case tk_typ t of
       TString \<Rightarrow> Parsed (VStr (tk_val t)) ts
     | TNumber \<Rightarrow> (case number_value (tk_val t) of Inl e \<Rightarrow> Failed e | Inr v \<Rightarrow> Parsed v ts)
     | TIdent \<Rightarrow> Parsed (ident_value (tk_val t)) ts
     | TLBracket \<Rightarrow> parse_bind (peek ts) (\<lambda>p ts.
         if tk_typ p = TRBracket then parse_bind (advance ts) (\<lambda>_. Parsed (VList []))
         else value_loop n [] ts)
     | _ \<Rightarrow> Failed (filter_error (''bad value token '' @ quote_string (tk_val t))))"
| "value_loop 0 values ts = Unfinished"
| "value_loop (Suc n) values ts = parse_bind (parseValue n ts) (\<lambda>v ts. parse_bind (peek ts) (\<lambda>p ts.
     if tk_typ p = TComma then parse_bind (advance ts) (\<lambda>_. value_loop n (values @ [v]))
     else if tk_typ p = TRBracket then parse_bind (advance ts) (\<lambda>_. Parsed (VList (values @ [v])))
     else Failed (filter_error ''bad list'')))"

definition parseCondition :: "nat \<Rightarrow> token list \<Rightarrow> filter_node parse" where
  "parseCondition n ts = parse_bind (peek ts) (\<lambda>p ts.
     if tk_typ p \<noteq> TIdent then Failed (filter_error ''expected identifier'')
     else parse_bind (advance ts) (\<lambda>f ts. parse_bind (peek ts) (\<lambda>p ts.
       if tk_typ p \<noteq> TOp then Failed (filter_error ''expected operator'')
       else parse_bind (advance ts) (\<lambda>r ts. let rawOp = tk_val r; op = filter_op_of rawOp in
         if \<not> isKnownOp op then Failed (filter_error (''unknown operator '' @ quote_string rawOp))
         else parse_bind (parseValue n ts) (\<lambda>value. Parsed (FilterNode
           (Some \<lparr>fc_Field = tk_val f, fc_Op = op, fc_Value = value\<rparr>) LogicNone None None))))))"

fun parseOr :: "nat \<Rightarrow> token list \<Rightarrow> filter_node parse"
and or_loop :: "nat \<Rightarrow> filter_node \<Rightarrow> token list \<Rightarrow> filter_node parse"
and parseAnd :: "nat \<Rightarrow> token list \<Rightarrow> filter_node parse"
and and_loop :: "nat \<Rightarrow> filter_node \<Rightarrow> token list \<Rightarrow> filter_node parse"
and parseNot :: "nat \<Rightarrow> token list \<Rightarrow> filter_node parse"
and parsePrimary :: "nat \<Rightarrow> token list \<Rightarrow> filter_node parse" where
  "parseOr 0 ts = Unfinished"
| "parseOr (Suc n) ts = parse_bind (parseAnd n ts) (or_loop n)"
| "or_loop 0 left ts = Unfinished"
| "or_loop (Suc n) left ts = parse_bind (peek ts) (\<lambda>p ts.
     if is_op ''OR'' p then parse_bind (advance ts) (\<lambda>_ ts. parse_bind (parseAnd n ts) (\<lambda>right.
       or_loop n (FilterNode None LogicOr (Some left) (Some right))))
     else Parsed left ts)"
| "parseAnd 0 ts = Unfinished"
| "parseAnd (Suc n) ts = parse_bind (parseNot n ts) (and_loop n)"
| "and_loop 0 left ts = Unfinished"
| "and_loop (Suc n) left ts = parse_bind (peek ts) (\<lambda>p ts.
     if is_op ''AND'' p then parse_bind (advance ts) (\<lambda>_ ts. parse_bind (parseNot n ts) (\<lambda>right.
       and_loop n (FilterNode None LogicAnd (Some left) (Some right))))
     else Parsed left ts)"
| "parseNot 0 ts = Unfinished"
| "parseNot (Suc n) ts = parse_bind (peek ts) (\<lambda>p ts.
     if is_op ''NOT'' p then parse_bind (advance ts) (\<lambda>_ ts. parse_bind (parseNot n ts) (\<lambda>inner.
       Parsed (FilterNode None LogicNot (Some inner) None)))
     else parsePrimary n ts)"
| "parsePrimary 0 ts = Unfinished"
| "parsePrimary (Suc n) ts = parse_bind (peek ts) (\<lambda>t ts.
     if tk_typ t = TLParen then parse_bind (advance ts) (\<lambda>_ ts. parse_bind (parseOr n ts) (\<lambda>m ts.
       parse_bind (peek ts) (\<lambda>p ts.
         if tk_typ p \<noteq> TRParen then Failed (filter_error ''missing closing paren'')
         else parse_bind (advance ts) (\<lambda>_. Parsed m))))
     else parseCondition n ts)"

definition parser_fuel :: "token list \<Rightarrow> nat" where
  "parser_fuel ts = 6 * length ts + 6"

definition parse_tokens :: "nat \<Rightarrow> token list \<Rightarrow> filter_node parse" where
  "parse_tokens n toks = parse_bind (parseOr n toks) (\<lambda>m ts. parse_bind (peek ts) (\<lambda>p ts.
     if tk_typ p \<noteq> TEOF then Failed (filter_error ''trailing tokens'') else Parsed m ts))"

definition ParseFilter :: "string \<Rightarrow> filter_node option parse" where
  "ParseFilter expr = (let expr = TrimSpace expr in
     if expr = [] then Parsed None []
     else (case tokenize expr of
         Inl e \<Rightarrow> Failed e
       | Inr toks \<Rightarrow> parse_bind (parse_tokens (parser_fuel toks) toks) (\<lambda>m. Parsed (Some m))))"

section \<open>The parser ends on every input and never panics\<close>

text \<open>What the tokenizer produces ends with the end-of-file token, and so does what is left of it.\<close>

definition ends :: "token list \<Rightarrow> bool" where
  "ends ts \<longleftrightarrow> ts \<noteq> [] \<and> tk_typ (last ts) = TEOF"

definition parse_ok :: "('a \<Rightarrow> bool) \<Rightarrow> nat \<Rightarrow> 'a parse \<Rightarrow> bool" where
  "parse_ok P m r = (case r of Unfinished \<Rightarrow> False | Panicked \<Rightarrow> False | Failed _ \<Rightarrow> True
     | Parsed a us \<Rightarrow> ends us \<and> length us < m \<and> P a)"

lemma parse_ok_simps [simp]:
  "\<not> parse_ok P m Unfinished" "\<not> parse_ok P m Panicked" "parse_ok P m (Failed e)"
  "parse_ok P m (Parsed a us) \<longleftrightarrow> ends us \<and> length us < m \<and> P a"
  by (simp_all add: parse_ok_def)

lemma parse_ok_bind:
  assumes "parse_ok P m r" and "\<And>a us. P a \<Longrightarrow> ends us \<Longrightarrow> length us < m \<Longrightarrow> parse_ok Q k (f a us)"
  shows "parse_ok Q k (parse_bind r f)"
  using assms by (cases r) simp_all

lemma parse_ok_weaken: "parse_ok P m r \<Longrightarrow> m \<le> k \<Longrightarrow> parse_ok P k r"
  by (cases r) auto

lemma peek_bind [simp]: "ts \<noteq> [] \<Longrightarrow> parse_bind (peek ts) f = f (hd ts) ts"
  and advance_bind [simp]: "ts \<noteq> [] \<Longrightarrow> parse_bind (advance ts) f = f (hd ts) (tl ts)"
  by (cases ts; simp)+

lemma ends_not_Nil [dest]: "ends ts \<Longrightarrow> ts \<noteq> []"
  by (simp add: ends_def)

lemma ends_tl: "ends ts \<Longrightarrow> tk_typ (hd ts) \<noteq> TEOF \<Longrightarrow> ends (tl ts)"
  by (cases ts) (auto simp: ends_def split: if_splits)

lemma tl_shorter: "ends ts \<Longrightarrow> length (tl ts) < length ts"
  by (cases ts) (auto simp: ends_def)

lemma is_op_typ: "is_op s t \<Longrightarrow> tk_typ t \<noteq> TEOF"
  by (auto simp: is_op_def)

lemma value_parser_ok:
  "(ends ts \<longrightarrow> 6 * length ts \<le> n \<longrightarrow> parse_ok (\<lambda>_. True) (length ts) (parseValue n ts))
   \<and> (ends ts \<longrightarrow> 6 * length ts + 1 \<le> n \<longrightarrow> parse_ok (\<lambda>_. True) (length ts) (value_loop n vs ts))"
proof (induction n arbitrary: ts vs)
  case 0
  then show ?case by (auto simp: ends_def)
next
  case (Suc n)
  have val: "parse_ok (\<lambda>_. True) (length us) (parseValue n us)" if "ends us" "6 * length us \<le> n" for us
    using Suc.IH [of us vs] that by blast
  have loop: "parse_ok (\<lambda>_. True) (length us) (value_loop n ws us)" if "ends us" "6 * length us + 1 \<le> n" for us ws
    using Suc.IH [of us ws] that by blast
  have 1: "parse_ok (\<lambda>_. True) (length ts) (parseValue (Suc n) ts)" if ts: "ends ts" "6 * length ts \<le> Suc n"
  proof (cases "tk_typ (hd ts) = TEOF")
    case True
    with ts show ?thesis by (auto simp: ends_def)
  next
    case False
    note us = ends_tl [OF ts(1) False] tl_shorter [OF ts(1)]
    have 1: "parse_ok (\<lambda>_. True) (length ts) (value_loop n [] (tl ts))"
      by (rule parse_ok_weaken [OF loop]) (use us ts in auto)
    have 2: "tk_typ (hd (tl ts)) = TRBracket \<Longrightarrow> ends (tl (tl ts)) \<and> length (tl (tl ts)) < length ts"
      using us ends_tl [OF us(1)] tl_shorter [OF us(1)] by simp
    have ne: "ts \<noteq> []" "tl ts \<noteq> []" using ts(1) us(1) by (simp_all add: ends_def)
    show ?thesis
      using us 1 2 by (cases "tk_typ (hd ts)") (simp_all add: ne split: sum.split)
  qed
  have 2: "parse_ok (\<lambda>_. True) (length ts) (value_loop (Suc n) vs ts)" if ts: "ends ts" "6 * length ts + 1 \<le> Suc n"
  proof -
    have "parse_ok (\<lambda>_. True) (length ts) (parseValue n ts)" using ts by (intro val) auto
    then show ?thesis
      unfolding value_loop.simps
    proof (rule parse_ok_bind)
      fix a us
      assume us: "ends us" "length us < length ts"
      have shorter: "ends (tl us) \<and> length (tl us) < length us" if "tk_typ (hd us) = TComma \<or> tk_typ (hd us) = TRBracket"
        using that ends_tl [OF us(1)] tl_shorter [OF us(1)] by auto
      have "parse_ok (\<lambda>_. True) (length ts) (value_loop n (vs @ [a]) (tl us))" if "tk_typ (hd us) = TComma"
        by (rule parse_ok_weaken [OF loop]) (use us shorter that ts in auto)
      moreover have "us \<noteq> []" using us(1) by (simp add: ends_def)
      ultimately show "parse_ok (\<lambda>_. True) (length ts) (parse_bind (peek us) (\<lambda>p us.
          if tk_typ p = TComma then parse_bind (advance us) (\<lambda>_. value_loop n (vs @ [a]))
          else if tk_typ p = TRBracket then parse_bind (advance us) (\<lambda>_. Parsed (VList (vs @ [a])))
          else Failed (filter_error ''bad list'')))"
        using us shorter by auto
    qed
  qed
  from 1 2 show ?case by blast
qed

text \<open>What the parser builds: conditions with a known operator under the three connectives.\<close>

fun wf_node :: "filter_node \<Rightarrow> bool" where
  "wf_node (FilterNode (Some c) LogicNone None None) = isKnownOp (fc_Op c)"
| "wf_node (FilterNode None LogicNot (Some l) None) = wf_node l"
| "wf_node (FilterNode None LogicAnd (Some l) (Some r)) = (wf_node l \<and> wf_node r)"
| "wf_node (FilterNode None LogicOr (Some l) (Some r)) = (wf_node l \<and> wf_node r)"
| "wf_node _ = False"

lemma parseCondition_ok:
  assumes "ends ts" and "6 * length ts \<le> n"
  shows "parse_ok wf_node (length ts) (parseCondition n ts)"
proof (cases "tk_typ (hd ts) = TIdent \<and> tk_typ (hd (tl ts)) = TOp")
  case True
  with assms(1) have us: "ends (tl ts)" "length (tl ts) < length ts"
    using ends_tl [OF assms(1)] tl_shorter [OF assms(1)] by auto
  with True have vs: "ends (tl (tl ts))" "length (tl (tl ts)) < length (tl ts)"
    using ends_tl [OF us(1)] tl_shorter [OF us(1)] by auto
  have "parse_ok (\<lambda>_. True) (length (tl (tl ts))) (parseValue n (tl (tl ts)))"
    using value_parser_ok [of "tl (tl ts)" n "[]"] vs us assms(2) by auto
  then have "parse_ok wf_node (length ts) (parse_bind (parseValue n (tl (tl ts))) (\<lambda>value. Parsed (FilterNode
      (Some \<lparr>fc_Field = tk_val (hd ts), fc_Op = filter_op_of (tk_val (hd (tl ts))), fc_Value = value\<rparr>)
      LogicNone None None)))" if "isKnownOp (filter_op_of (tk_val (hd (tl ts))))"
    by (rule parse_ok_bind) (use that us vs in simp)
  moreover have "ts \<noteq> []" "tl ts \<noteq> []" using assms(1) us(1) by (simp_all add: ends_def)
  ultimately show ?thesis using True by (simp add: parseCondition_def Let_def)
next
  case False
  have "ts \<noteq> []" and "tk_typ (hd ts) = TIdent \<Longrightarrow> tl ts \<noteq> []"
    using assms(1) ends_tl [OF assms(1)] by (auto simp: ends_def)
  with False show ?thesis by (auto simp: parseCondition_def)
qed

lemma loop_ok:
  assumes sub: "\<And>us. ends us \<Longrightarrow> length us < length ts \<Longrightarrow> parse_ok wf_node (length us) (p us)"
    and loop: "\<And>x us. wf_node x \<Longrightarrow> ends us \<Longrightarrow> length us < length ts \<Longrightarrow> parse_ok wf_node (Suc (length us)) (l x us)"
    and node: "\<And>x. wf_node x \<Longrightarrow> wf_node (f x)"
    and ts: "ends ts" and left: "wf_node left"
  shows "parse_ok wf_node (Suc (length ts)) (parse_bind (peek ts) (\<lambda>t ts.
     if is_op s t then parse_bind (advance ts) (\<lambda>_ ts. parse_bind (p ts) (\<lambda>right. l (f right)))
     else Parsed left ts))"
proof (cases "is_op s (hd ts)")
  case True
  have us: "ends (tl ts)" "length (tl ts) < length ts"
    using ends_tl [OF ts is_op_typ [OF True]] tl_shorter [OF ts] by simp_all
  have "parse_ok wf_node (Suc (length ts)) (parse_bind (p (tl ts)) (\<lambda>right. l (f right)))"
    by (rule parse_ok_bind [OF sub [OF us]])
      (use us in \<open>auto intro!: parse_ok_weaken [OF loop] node\<close>)
  with True ts show ?thesis by (simp add: ends_not_Nil)
qed (use ts left in \<open>simp add: ends_not_Nil\<close>)

text \<open>One step of the recursion at a parenthesis and at \<open>NOT\<close>, given what the calls below do.\<close>

lemma parseNot_step:
  assumes ts: "ends ts"
    and Not: "\<And>us. ends us \<Longrightarrow> 6 * length us + 2 \<le> n \<Longrightarrow> parse_ok wf_node (length us) (parseNot n us)"
    and Prim: "\<And>us. ends us \<Longrightarrow> 6 * length us + 1 \<le> n \<Longrightarrow> parse_ok wf_node (length us) (parsePrimary n us)"
    and n: "6 * length ts + 2 \<le> Suc n"
  shows "parse_ok wf_node (length ts) (parseNot (Suc n) ts)"
proof -
  have ne: "ts \<noteq> []" using ts by (simp add: ends_def)
  show ?thesis
  proof (cases "is_op ''NOT'' (hd ts)")
    case True
    have us: "ends (tl ts)" "length (tl ts) < length ts"
      using ends_tl [OF ts is_op_typ [OF True]] tl_shorter [OF ts] by simp_all
    have "parse_ok wf_node (length ts) (parse_bind (parseNot n (tl ts))
        (\<lambda>inner. Parsed (FilterNode None LogicNot (Some inner) None)))"
      by (rule parse_ok_bind [OF Not]) (use us n in auto)
    with True ne show ?thesis by simp
  qed (use Prim [OF ts] n ne in simp)
qed

lemma parsePrimary_step:
  assumes ts: "ends ts"
    and Or: "\<And>us. ends us \<Longrightarrow> 6 * length us + 4 \<le> n \<Longrightarrow> parse_ok wf_node (length us) (parseOr n us)"
    and n: "6 * length ts + 1 \<le> Suc n"
  shows "parse_ok wf_node (length ts) (parsePrimary (Suc n) ts)"
proof -
  have ne: "ts \<noteq> []" using ts by (simp add: ends_def)
  show ?thesis
  proof (cases "tk_typ (hd ts) = TLParen")
    case True
    have us: "ends (tl ts)" "length (tl ts) < length ts"
      using ends_tl [OF ts] True tl_shorter [OF ts] by simp_all
    have "parse_ok wf_node (length ts) (parse_bind (parseOr n (tl ts)) (\<lambda>m ts. parse_bind (peek ts) (\<lambda>p ts.
         if tk_typ p \<noteq> TRParen then Failed (filter_error ''missing closing paren'')
         else parse_bind (advance ts) (\<lambda>_. Parsed m))))"
    proof (rule parse_ok_bind [OF Or])
      show "ends (tl ts)" "6 * length (tl ts) + 4 \<le> n" using us n by simp_all
      fix a vs
      assume a: "wf_node a" "ends vs" "length vs < length (tl ts)"
      then have "tk_typ (hd vs) = TRParen \<Longrightarrow> ends (tl vs) \<and> length (tl vs) < length ts"
        using ends_tl [OF a(2)] tl_shorter [OF a(2)] by simp
      with a show "parse_ok wf_node (length ts) (parse_bind (peek vs) (\<lambda>p ts.
         if tk_typ p \<noteq> TRParen then Failed (filter_error ''missing closing paren'')
         else parse_bind (advance ts) (\<lambda>_. Parsed a)))"
        by (simp add: ends_not_Nil)
    qed
    with True ne show ?thesis by simp
  next
    case False
    with parseCondition_ok [OF ts] n ne show ?thesis by simp
  qed
qed

lemma node_parser_ok:
  "ends ts \<Longrightarrow>
   (6 * length ts + 4 \<le> n \<longrightarrow> parse_ok wf_node (length ts) (parseOr n ts))
   \<and> (6 * length ts + 1 \<le> n \<longrightarrow> wf_node left \<longrightarrow> parse_ok wf_node (Suc (length ts)) (or_loop n left ts))
   \<and> (6 * length ts + 3 \<le> n \<longrightarrow> parse_ok wf_node (length ts) (parseAnd n ts))
   \<and> (6 * length ts + 1 \<le> n \<longrightarrow> wf_node left \<longrightarrow> parse_ok wf_node (Suc (length ts)) (and_loop n left ts))
   \<and> (6 * length ts + 2 \<le> n \<longrightarrow> parse_ok wf_node (length ts) (parseNot n ts))
   \<and> (6 * length ts + 1 \<le> n \<longrightarrow> parse_ok wf_node (length ts) (parsePrimary n ts))"
proof (induction n arbitrary: ts left)
  case 0
  then show ?case by simp
next
  case (Suc n)
  have Or: "parse_ok wf_node (length us) (parseOr n us)" if "ends us" "6 * length us + 4 \<le> n" for us
    using Suc.IH [of us left] that by blast
  have orl: "parse_ok wf_node (Suc (length us)) (or_loop n x us)"
    if "ends us" "6 * length us + 1 \<le> n" "wf_node x" for us x
    using Suc.IH [of us x] that by blast
  have And: "parse_ok wf_node (length us) (parseAnd n us)" if "ends us" "6 * length us + 3 \<le> n" for us
    using Suc.IH [of us left] that by blast
  have andl: "parse_ok wf_node (Suc (length us)) (and_loop n x us)"
    if "ends us" "6 * length us + 1 \<le> n" "wf_node x" for us x
    using Suc.IH [of us x] that by blast
  have Not: "parse_ok wf_node (length us) (parseNot n us)" if "ends us" "6 * length us + 2 \<le> n" for us
    using Suc.IH [of us left] that by blast
  have Prim: "parse_ok wf_node (length us) (parsePrimary n us)" if "ends us" "6 * length us + 1 \<le> n" for us
    using Suc.IH [of us left] that by blast
  note ts = Suc.prems
  have 1: "parse_ok wf_node (length ts) (parseOr (Suc n) ts)" if "6 * length ts + 4 \<le> Suc n"
    unfolding parseOr.simps
    by (rule parse_ok_bind [OF And]) (use ts that in \<open>auto intro!: parse_ok_weaken [OF orl]\<close>)
  have 2: "parse_ok wf_node (Suc (length ts)) (or_loop (Suc n) left ts)"
    if "6 * length ts + 1 \<le> Suc n" "wf_node left"
    unfolding or_loop.simps by (rule loop_ok) (use ts that in \<open>auto intro!: And orl\<close>)
  have 3: "parse_ok wf_node (length ts) (parseAnd (Suc n) ts)" if "6 * length ts + 3 \<le> Suc n"
    unfolding parseAnd.simps
    by (rule parse_ok_bind [OF Not]) (use ts that in \<open>auto intro!: parse_ok_weaken [OF andl]\<close>)
  have 4: "parse_ok wf_node (Suc (length ts)) (and_loop (Suc n) left ts)"
    if "6 * length ts + 1 \<le> Suc n" "wf_node left"
    unfolding and_loop.simps by (rule loop_ok) (use ts that in \<open>auto intro!: Not andl\<close>)
  have 5: "parse_ok wf_node (length ts) (parseNot (Suc n) ts)" if "6 * length ts + 2 \<le> Suc n"
    using parseNot_step [OF ts Not Prim that] ts by blast
  have 6: "parse_ok wf_node (length ts) (parsePrimary (Suc n) ts)" if "6 * length ts + 1 \<le> Suc n"
    using parsePrimary_step [OF ts Or that] by blast
  from 1 2 3 4 5 6 show ?case by blast
qed

text \<open>One token at a time.\<close>

lemma token_loop_step:
  assumes "token_loop (c # cs) tokens = Inr ts"
  shows "\<exists>cs' more. length cs' \<le> length cs \<and> token_loop cs' (tokens @ more) = Inr ts"
proof -
  consider "IsSpace c" | t where "\<not> IsSpace c" "punctuation c = Some t"
    | "\<not> IsSpace c" "punctuation c = None" "is_quote c"
    | "\<not> IsSpace c" "punctuation c = None" "\<not> is_quote c" "starts_number c cs"
    | "\<not> IsSpace c" "punctuation c = None" "\<not> is_quote c" "\<not> starts_number c cs" "is_op_char c"
    | "\<not> IsSpace c" "punctuation c = None" "\<not> is_quote c" "\<not> starts_number c cs" "\<not> is_op_char c"
    by (cases "punctuation c") auto
  then show ?thesis
  proof cases
    case 1
    with assms show ?thesis by (intro exI [of _ cs] exI [of _ "[]"]) simp
  next
    case (2 t)
    with assms show ?thesis by (intro exI [of _ cs] exI [of _ "[tok t [c]]"]) simp
  next
    case 3
    with assms obtain q rest where drop: "dropWhile (\<lambda>d. d \<noteq> c) cs = q # rest"
      by (cases "dropWhile (\<lambda>d. d \<noteq> c) cs") simp_all
    have "length rest \<le> length cs" using dropWhile_le [of "\<lambda>d. d \<noteq> c" cs] drop by simp
    with assms 3 drop show ?thesis
      by (intro exI [of _ rest] exI [of _ "[tok TString (takeWhile (\<lambda>d. d \<noteq> c) cs)]"]) simp
  next
    case 4
    with assms show ?thesis
      by (intro exI [of _ "dropWhile number_char cs"]
          exI [of _ "[tok TNumber (c # takeWhile number_char cs)]"]) (simp add: dropWhile_le)
  next
    case 5
    show ?thesis
    proof (cases "cs \<noteq> [] \<and> hd cs = CHR ''=''")
      case True
      with assms 5 show ?thesis by (intro exI [of _ "tl cs"] exI [of _ "[tok TOp [c, CHR ''='']]"]) simp
    next
      case False
      with assms 5 show ?thesis by (intro exI [of _ cs] exI [of _ "[tok TOp [c]]"]) simp
    qed
  next
    case 6
    with assms show ?thesis
      by (intro exI [of _ "dropWhile word_char cs"]
          exI [of _ "[word_token (c # takeWhile word_char cs)]"]) (simp add: dropWhile_le split: if_split_asm)
  qed
qed

lemma token_loop_ends: "token_loop cs tokens = Inr ts \<Longrightarrow> ends ts"
proof (induction "length cs" arbitrary: cs tokens rule: less_induct)
  case less
  show ?case
  proof (cases cs)
    case Nil
    with less(2) show ?thesis by (auto simp: ends_def tok_def)
  next
    case (Cons c cs')
    with token_loop_step [of c cs' tokens ts] less(2) obtain us more where
      "length us \<le> length cs'" "token_loop us (tokens @ more) = Inr ts" by auto
    with less(1) [of us] Cons show ?thesis by simp
  qed
qed

lemma parse_tokens_ok:
  assumes "tokenize s = Inr toks"
  shows "case parse_tokens (parser_fuel toks) toks of
      Failed e \<Rightarrow> True | Parsed m ts \<Rightarrow> wf_node m \<and> ends ts | _ \<Rightarrow> False"
proof -
  have e: "ends toks" using assms by (simp add: tokenize_def token_loop_ends)
  then have "parse_ok wf_node (length toks) (parseOr (parser_fuel toks) toks)"
    using node_parser_ok [OF e, of "parser_fuel toks"] by (simp add: parser_fuel_def)
  then show ?thesis
    by (cases "parseOr (parser_fuel toks) toks") (auto simp: parse_tokens_def ends_not_Nil)
qed

end
