(* ===== verification/Filter_Language.thy ===== *)
theory Filter_Language
  imports Filter_Parser
begin

text \<open>
  What the filter language means: the parser does not depend on the fuel it is given, a parsed
  filter evaluates to the proposition it spells, printing a tree with as few parentheses as the
  precedences allow and parsing the text gives the tree back, and
  \<open>internal/core/services/dynamic_grouping.go\<close> selects the clients the filter is true of.
\<close>

section \<open>More fuel changes nothing\<close>

lemmas parser_simps = parseOr.simps or_loop.simps parseAnd.simps and_loop.simps parseNot.simps
  parsePrimary.simps parseValue.simps value_loop.simps

definition extends :: "'a parse \<Rightarrow> 'a parse \<Rightarrow> bool" where
  "extends r r' \<longleftrightarrow> r = Unfinished \<or> r' = r"

lemma extends_simps [simp]: "extends Unfinished r" "extends r r"
  by (simp_all add: extends_def)

lemma extends_bind:
  "extends r r' \<Longrightarrow> (\<And>a us. extends (f a us) (f' a us)) \<Longrightarrow> extends (parse_bind r f) (parse_bind r' f')"
  by (cases r) (auto simp: extends_def)

lemma extends_trans: "extends r s \<Longrightarrow> extends s t \<Longrightarrow> extends r t"
  by (auto simp: extends_def)

lemma value_fuel: "n \<le> m \<Longrightarrow> extends (parseValue n ts) (parseValue m ts)
    \<and> extends (value_loop n vs ts) (value_loop m vs ts)"
proof (induction n arbitrary: m ts vs)
  case 0
  then show ?case by simp
next
  case (Suc n)
  then obtain k where m: "m = Suc k" and nk: "n \<le> k" by (cases m) auto
  note IH = Suc.IH [OF nk]
  have "extends (parseValue (Suc n) ts) (parseValue (Suc k) ts)"
    unfolding parseValue.simps
    by (intro extends_bind) (auto simp del: parser_simps split: token_type.split
        intro!: extends_bind conjunct2 [OF IH])
  moreover have "extends (value_loop (Suc n) vs ts) (value_loop (Suc k) vs ts)"
    unfolding value_loop.simps
    by (intro extends_bind conjunct1 [OF IH]) (auto simp del: parser_simps intro!: extends_bind conjunct2 [OF IH])
  ultimately show ?case unfolding m ..
qed

lemma condition_fuel: "n \<le> m \<Longrightarrow> extends (parseCondition n ts) (parseCondition m ts)"
  unfolding parseCondition_def
  by (auto simp: Let_def simp del: parser_simps intro!: extends_bind conjunct1 [OF value_fuel])

lemma node_fuel:
  "n \<le> m \<Longrightarrow>
   extends (parseOr n ts) (parseOr m ts) \<and> extends (or_loop n x ts) (or_loop m x ts)
   \<and> extends (parseAnd n ts) (parseAnd m ts) \<and> extends (and_loop n x ts) (and_loop m x ts)
   \<and> extends (parseNot n ts) (parseNot m ts) \<and> extends (parsePrimary n ts) (parsePrimary m ts)"
proof (induction n arbitrary: m ts x)
  case 0
  then show ?case by simp
next
  case (Suc n)
  then obtain k where m: "m = Suc k" and nk: "n \<le> k" by (cases m) auto
  have IH: "extends (parseOr n us) (parseOr k us)" "extends (or_loop n y us) (or_loop k y us)"
    "extends (parseAnd n us) (parseAnd k us)" "extends (and_loop n y us) (and_loop k y us)"
    "extends (parseNot n us) (parseNot k us)" "extends (parsePrimary n us) (parsePrimary k us)" for us y
    using Suc.IH [OF nk, of us y] by blast+
  have "extends (parseOr (Suc n) ts) (parseOr (Suc k) ts)"
    unfolding parseOr.simps by (intro extends_bind IH)
  moreover have "extends (or_loop (Suc n) x ts) (or_loop (Suc k) x ts)"
    unfolding or_loop.simps by (auto simp del: parser_simps intro!: extends_bind IH)
  moreover have "extends (parseAnd (Suc n) ts) (parseAnd (Suc k) ts)"
    unfolding parseAnd.simps by (intro extends_bind IH)
  moreover have "extends (and_loop (Suc n) x ts) (and_loop (Suc k) x ts)"
    unfolding and_loop.simps by (auto simp del: parser_simps intro!: extends_bind IH)
  moreover have "extends (parseNot (Suc n) ts) (parseNot (Suc k) ts)"
    unfolding parseNot.simps by (auto simp del: parser_simps intro!: extends_bind IH)
  moreover have "extends (parsePrimary (Suc n) ts) (parsePrimary (Suc k) ts)"
    unfolding parsePrimary.simps
    by (auto simp del: parser_simps intro!: extends_bind IH condition_fuel nk)
  ultimately show ?case unfolding m by blast
qed

lemma parse_tokens_fuel:
  assumes "parse_tokens n ts \<noteq> Unfinished" and "n \<le> m"
  shows "parse_tokens m ts = parse_tokens n ts"
proof -
  have "extends (parseOr n ts) (parseOr m ts)"
    using node_fuel [OF assms(2)] by blast
  with assms(1) show ?thesis by (auto simp: parse_tokens_def extends_def)
qed

section \<open>Boolean meaning\<close>

fun conditions :: "filter_node option \<Rightarrow> filter_condition set" where
  "conditions None = {}"
| "conditions (Some (FilterNode (Some c) logical left right)) = {c}"
| "conditions (Some (FilterNode None logical left right)) = conditions left \<union> conditions right"

text \<open>The meaning of a tree as a proposition about the client.\<close>

fun sat :: "filter_node option \<Rightarrow> client_metadata \<Rightarrow> bool" where
  "sat None client = True"
| "sat (Some (FilterNode (Some c) logical left right)) client =
     (\<exists>v. GetField client (fc_Field c) = Inr v \<and> CompareValues v (fc_Op c) (fc_Value c) = Inr True)"
| "sat (Some (FilterNode None LogicNot left right)) client = (\<not> sat left client)"
| "sat (Some (FilterNode None LogicAnd left right)) client = (sat left client \<and> sat right client)"
| "sat (Some (FilterNode None LogicOr left right)) client = (sat left client \<or> sat right client)"
| "sat (Some (FilterNode None LogicNone left right)) client = False"

lemma CompareValues_error:
  assumes "CompareValues a x b = Inl e" and "isKnownOp x"
  shows "e = ErrTypeMismatch"
proof -
  have num: "numericCompare a x b = Inl e \<Longrightarrow> x \<in> {OpLt, OpGt, OpLte, OpGte} \<Longrightarrow> e = ErrTypeMismatch"
    by (auto simp: numericCompare_def split: option.splits)
  have inA: "inAny a b = Inl d \<Longrightarrow> d = ErrTypeMismatch" for d
    by (auto simp: inAny_def split: gval.splits)
  have con: "containsAny a b = Inl d \<Longrightarrow> d = ErrTypeMismatch" for d
    by (cases a; cases b) (auto simp: containsAny_def)
  show ?thesis
    using assms num inA con by (cases x) (auto simp: negated_def isKnownOp_def split: sum.splits)
qed

lemma evalCondition_error:
  "evalCondition c client = Inl e \<Longrightarrow> isKnownOp (fc_Op c) \<Longrightarrow> e = ErrTypeMismatch"
  by (auto simp: evalCondition_def dest: CompareValues_error split: sum.splits)

lemma Evaluate_error: "wf_node n \<Longrightarrow> Evaluate (Some n) client = Inl e \<Longrightarrow> e = ErrTypeMismatch"
  by (induction n rule: wf_node.induct)
    (auto dest: evalCondition_error split: sum.splits if_splits)

lemma wf_conditions: "wf_node n \<Longrightarrow> c \<in> conditions (Some n) \<Longrightarrow> isKnownOp (fc_Op c)"
  by (induction n rule: wf_node.induct) auto

lemma Evaluate_sat:
  assumes "wf_node n" and "\<forall>c \<in> conditions (Some n). \<exists>b. evalCondition c client = Inr b"
  shows "Evaluate (Some n) client = Inr (sat (Some n) client)"
  using assms
proof (induction n rule: wf_node.induct)
  case (1 c)
  then show ?case by (auto simp: evalCondition_def split: sum.splits)
qed auto

section \<open>Printing a filter\<close>

text \<open>The tokens of a filter with as few parentheses as the grammar needs: level 0 is an
  alternative, 1 a conjunction, 2 a negation or a condition.\<close>

fun commas :: "token list list \<Rightarrow> token list" where
  "commas [] = []"
| "commas [ts] = ts"
| "commas (ts # us # tss) = ts @ tok TComma '','' # commas (us # tss)"

fun value_tokens :: "gval \<Rightarrow> token list" where
  "value_tokens (VStr s) = [tok TString s]"
| "value_tokens (VInt64 n) = [tok TNumber (show_int (sint n))]"
| "value_tokens (VBool b) = [tok TIdent (if b then ''true'' else ''false'')]"
| "value_tokens (VList vs) = tok TLBracket ''['' # commas (map value_tokens vs) @ [tok TRBracket '']'']"
| "value_tokens _ = []"

fun node_tokens :: "nat \<Rightarrow> filter_node \<Rightarrow> token list" where
  "node_tokens p (FilterNode (Some c) k l r) =
     tok TIdent (fc_Field c) # tok TOp (filter_op_text (fc_Op c)) # value_tokens (fc_Value c)"
| "node_tokens p (FilterNode None LogicNot (Some l) r) = tok TOp ''NOT'' # node_tokens 2 l"
| "node_tokens p (FilterNode None LogicAnd (Some l) (Some r)) =
     (let ts = node_tokens 1 l @ tok TOp ''AND'' # node_tokens 2 r in
      if p \<le> 1 then ts else tok TLParen ''('' # ts @ [tok TRParen '')''])"
| "node_tokens p (FilterNode None LogicOr (Some l) (Some r)) =
     (let ts = node_tokens 0 l @ tok TOp ''OR'' # node_tokens 1 r in
      if p = 0 then ts else tok TLParen ''('' # ts @ [tok TRParen '')''])"
| "node_tokens p _ = []"

text \<open>The values a filter text can spell: strings without one of the two quotes, integers,
  booleans and lists of these. (A decimal literal is a rounding, and is left out.)\<close>

fun printable_value :: "gval \<Rightarrow> bool" where
  "printable_value (VStr s) = (char_of (39::nat) \<notin> set s \<or> char_of (34::nat) \<notin> set s)"
| "printable_value (VInt64 n) = True"
| "printable_value (VBool b) = True"
| "printable_value (VList vs) = list_all printable_value vs"
| "printable_value _ = False"

definition plain_word :: "string \<Rightarrow> bool" where
  "plain_word w \<longleftrightarrow> w \<noteq> [] \<and> (IsLetter (hd w) \<or> hd w = CHR ''_'') \<and> list_all word_char w
     \<and> ToUpper w \<notin> set keywords_upper \<and> ToUpper w \<noteq> ''TRUE'' \<and> ToUpper w \<noteq> ''FALSE''"

definition printable :: "filter_node \<Rightarrow> bool" where
  "printable n \<longleftrightarrow> wf_node n \<and>
     (\<forall>c \<in> conditions (Some n). plain_word (fc_Field c) \<and> printable_value (fc_Value c))"

section \<open>Reading the tokens back\<close>

definition parses :: "(nat \<Rightarrow> 'a parse) \<Rightarrow> 'a \<Rightarrow> token list \<Rightarrow> bool" where
  "parses r a us \<longleftrightarrow> (\<exists>n. \<forall>m \<ge> n. r m = Parsed a us)"

lemma parses_Parsed [simp, intro]: "parses (\<lambda>_. Parsed a us) a us"
  by (auto simp: parses_def)

lemma parses_Suc: "parses (\<lambda>m. r (Suc m)) a us \<Longrightarrow> parses r a us"
  unfolding parses_def by (metis Suc_le_D Suc_le_mono)

lemma parses_bind:
  assumes "parses r a us" and "parses (\<lambda>m. q m a us) b vs"
  shows "parses (\<lambda>m. parse_bind (r m) (q m)) b vs"
proof -
  from assms obtain n k where "\<forall>m \<ge> n. r m = Parsed a us" "\<forall>m \<ge> k. q m a us = Parsed b vs"
    unfolding parses_def by blast
  then have "\<forall>m \<ge> max n k. parse_bind (r m) (q m) = Parsed b vs" by simp
  then show ?thesis unfolding parses_def by blast
qed

lemma parses_parseOr:
  assumes "parses (\<lambda>n. parseAnd n ts) l us" and "parses (\<lambda>n. or_loop n l us) x vs"
  shows "parses (\<lambda>n. parseOr n ts) x vs"
  by (rule parses_Suc, unfold parseOr.simps, rule parses_bind) (rule assms)+

lemma parses_parseAnd:
  assumes "parses (\<lambda>n. parseNot n ts) l us" and "parses (\<lambda>n. and_loop n l us) x vs"
  shows "parses (\<lambda>n. parseAnd n ts) x vs"
  by (rule parses_Suc, unfold parseAnd.simps, rule parses_bind) (rule assms)+

lemma parses_loop_stop:
  "ts \<noteq> [] \<Longrightarrow> \<not> is_op ''OR'' (hd ts) \<Longrightarrow> parses (\<lambda>n. or_loop n l ts) l ts"
  "ts \<noteq> [] \<Longrightarrow> \<not> is_op ''AND'' (hd ts) \<Longrightarrow> parses (\<lambda>n. and_loop n l ts) l ts"
  by (rule parses_Suc, simp)+

lemma is_op_tok [simp]: "is_op s (tok t v) \<longleftrightarrow> t = TOp \<and> v = s"
  by (simp add: is_op_def tok_def)

lemma tok_simps [simp]: "tk_typ (tok t v) = t" "tk_val (tok t v) = v"
  by (simp_all add: tok_def)

lemma parses_or_loop:
  assumes "parses (\<lambda>n. parseAnd n ts) r us"
    and "parses (\<lambda>n. or_loop n (FilterNode None LogicOr (Some l) (Some r)) us) x vs"
  shows "parses (\<lambda>n. or_loop n l (tok TOp ''OR'' # ts)) x vs"
  by (rule parses_Suc, simp del: parser_simps add: or_loop.simps(2), rule parses_bind) (rule assms)+

lemma parses_and_loop:
  assumes "parses (\<lambda>n. parseNot n ts) r us"
    and "parses (\<lambda>n. and_loop n (FilterNode None LogicAnd (Some l) (Some r)) us) x vs"
  shows "parses (\<lambda>n. and_loop n l (tok TOp ''AND'' # ts)) x vs"
  by (rule parses_Suc, simp del: parser_simps add: and_loop.simps(2), rule parses_bind) (rule assms)+

lemma parses_parseNot:
  assumes "parses (\<lambda>n. parseNot n ts) x us"
  shows "parses (\<lambda>n. parseNot n (tok TOp ''NOT'' # ts)) (FilterNode None LogicNot (Some x) None) us"
  by (rule parses_Suc, simp del: parser_simps add: parseNot.simps(2), rule parses_bind [OF assms]) simp

lemma parses_paren:
  assumes "parses (\<lambda>n. parseOr n ts) x (tok TRParen c # us)"
  shows "parses (\<lambda>n. parseNot n (tok TLParen d # ts)) x us"
proof -
  have "parses (\<lambda>n. parsePrimary n (tok TLParen d # ts)) x us"
    by (rule parses_Suc, simp del: parser_simps add: parsePrimary.simps(2), rule parses_bind [OF assms]) simp
  then show ?thesis by (intro parses_Suc [of "\<lambda>n. parseNot n _"]) simp
qed

section \<open>Values\<close>

lemma parses_list_end:
  assumes "\<And>us. parses (\<lambda>n. parseValue n (ts @ us)) v us"
  shows "parses (\<lambda>n. value_loop n vs (ts @ tok TRBracket c # us)) (VList (vs @ [v])) us"
  by (rule parses_Suc, unfold value_loop.simps, rule parses_bind [OF assms]) simp

lemma parses_list_more:
  assumes "\<And>us. parses (\<lambda>n. parseValue n (ts @ us)) v us"
    and "parses (\<lambda>n. value_loop n (vs @ [v]) us) x ws"
  shows "parses (\<lambda>n. value_loop n vs (ts @ tok TComma c # us)) x ws"
  by (rule parses_Suc, unfold value_loop.simps, rule parses_bind [OF assms(1)])
    (use assms(2) in \<open>simp del: parser_simps\<close>)

lemma parses_list:
  assumes "\<And>v us. v \<in> set (v1 # vs) \<Longrightarrow> parses (\<lambda>n. parseValue n (f v @ us)) v us"
  shows "parses (\<lambda>n. value_loop n ws (commas (map f (v1 # vs)) @ tok TRBracket c # us)) (VList (ws @ v1 # vs)) us"
  using assms
proof (induction vs arbitrary: v1 ws)
  case Nil
  then show ?case using parses_list_end [of "f v1" v1 ws c us] by simp
next
  case (Cons v2 vs)
  have "parses (\<lambda>n. value_loop n (ws @ [v1]) (commas (map f (v2 # vs)) @ tok TRBracket c # us))
      (VList ((ws @ [v1]) @ v2 # vs)) us"
    by (rule Cons.IH) (use Cons.prems in auto)
  with parses_list_more [of "f v1" v1 ws "commas (map f (v2 # vs)) @ tok TRBracket c # us"] Cons.prems
  show ?case by simp
qed

lemma number_value_int: "number_value (show_int (sint n)) = Inr (VInt64 n)"
proof -
  have "CHR ''.'' \<notin> set (show_nat k)" for k
    using show_nat_digits [of k] by (auto simp: list_all_iff is_ascii_digit_def ch_def)
  then have "CHR ''.'' \<notin> set (show_int (sint n))" by (auto simp: show_int_def)
  then have "\<not> strings_Contains (show_int (sint n)) ''.''"
    by (auto simp: strings_Contains_iff)
  then show ?thesis by (simp add: number_value_def ParseInt_show_int)
qed

lemma first_value_token: "printable_value v \<Longrightarrow>
    \<exists>t ts. value_tokens v = t # ts \<and> tk_typ t \<noteq> TRBracket"
  by (cases v) simp_all

lemma parses_value: "printable_value v \<Longrightarrow> parses (\<lambda>n. parseValue n (value_tokens v @ us)) v us"
proof (induction v arbitrary: us rule: value_tokens.induct)
  case (1 s)
  show ?case by (rule parses_Suc) simp
next
  case (2 n)
  show ?case by (rule parses_Suc) (simp add: number_value_int)
next
  case (3 b)
  show ?case by (rule parses_Suc) (simp add: ident_value_def)
next
  case (4 vs)
  show ?case
  proof (cases vs)
    case Nil
    show ?thesis by (rule parses_Suc) (simp add: Nil)
  next
    case (Cons v1 ws)
    have all: "parses (\<lambda>n. parseValue n (value_tokens v @ us)) v us" if "v \<in> set vs" for v us
      using 4 that by (simp add: list_all_iff)
    obtain t ts where t: "value_tokens v1 = t # ts" "tk_typ t \<noteq> TRBracket"
      using first_value_token [of v1] 4(2) Cons by auto
    obtain ts' where c: "commas (map value_tokens vs) = t # ts'"
      using t Cons by (cases ws) auto
    have "parses (\<lambda>n. value_loop n [] (commas (map value_tokens vs) @ tok TRBracket '']'' # us)) (VList vs) us"
      using parses_list [of v1 ws value_tokens "[]" "'']''" us] all Cons by simp
    then have "parses (\<lambda>n. value_loop n [] (t # ts' @ tok TRBracket '']'' # us)) (VList vs) us"
      by (simp only: c append_Cons)
    then show ?thesis
      by (intro parses_Suc [of "\<lambda>n. parseValue n _"]) (simp del: parser_simps add: parseValue.simps(2) c t)
  qed
qed simp_all

section \<open>Conditions and trees\<close>

lemma filter_op_of_text: "isKnownOp x \<Longrightarrow> filter_op_of (filter_op_text x) = x"
  by (cases x) (simp_all add: filter_op_of_def isKnownOp_def)

lemma parses_condition:
  assumes "isKnownOp (fc_Op c)" and "printable_value (fc_Value c)"
  shows "parses (\<lambda>n. parseNot n (node_tokens p (FilterNode (Some c) LogicNone None None) @ us))
    (FilterNode (Some c) LogicNone None None) us"
proof -
  let ?ts = "node_tokens p (FilterNode (Some c) LogicNone None None) @ us"
  have "parses (\<lambda>n. parse_bind (parseValue n (value_tokens (fc_Value c) @ us))
      (\<lambda>v. Parsed (FilterNode (Some \<lparr>fc_Field = fc_Field c, fc_Op = fc_Op c, fc_Value = v\<rparr>) LogicNone None None)))
    (FilterNode (Some c) LogicNone None None) us"
    by (rule parses_bind [OF parses_value [OF assms(2)]]) (cases c, simp)
  then have "parses (\<lambda>n. parseCondition n ?ts) (FilterNode (Some c) LogicNone None None) us"
    by (simp add: parseCondition_def filter_op_of_text assms(1))
  then have "parses (\<lambda>n. parsePrimary n ?ts) (FilterNode (Some c) LogicNone None None) us"
    by (intro parses_Suc [of "\<lambda>n. parsePrimary n _"]) (simp del: parser_simps add: parsePrimary.simps(2))
  then show ?thesis
    by (intro parses_Suc [of "\<lambda>n. parseNot n _"]) (simp del: parser_simps add: parseNot.simps(2))
qed

definition reads_back :: "filter_node \<Rightarrow> bool" where
  "reads_back n \<longleftrightarrow>
     (\<forall>us x vs. us \<noteq> [] \<longrightarrow> \<not> is_op ''AND'' (hd us) \<longrightarrow> parses (\<lambda>k. or_loop k n us) x vs
        \<longrightarrow> parses (\<lambda>k. parseOr k (node_tokens 0 n @ us)) x vs)
   \<and> (\<forall>us x vs. us \<noteq> [] \<longrightarrow> parses (\<lambda>k. and_loop k n us) x vs
        \<longrightarrow> parses (\<lambda>k. parseAnd k (node_tokens 1 n @ us)) x vs)
   \<and> (\<forall>us. us \<noteq> [] \<longrightarrow> parses (\<lambda>k. parseNot k (node_tokens 2 n @ us)) n us)"

lemma reads_back_atom:
  assumes "\<And>us. us \<noteq> [] \<Longrightarrow> parses (\<lambda>k. parseNot k (node_tokens 2 n @ us)) n us"
    and "node_tokens 1 n = node_tokens 2 n" and "node_tokens 0 n = node_tokens 1 n"
  shows "reads_back n"
  using assms unfolding reads_back_def
  by (auto intro!: parses_parseOr [where l = n] parses_parseAnd [where l = n] parses_loop_stop)

lemma reads_back_and:
  assumes l: "reads_back l" and r: "reads_back r"
  shows "reads_back (FilterNode None LogicAnd (Some l) (Some r))" (is "reads_back ?n")
proof -
  have 1: "parses (\<lambda>k. parseAnd k (node_tokens 1 ?n @ us)) x vs"
    if "us \<noteq> []" "parses (\<lambda>k. and_loop k ?n us) x vs" for us x vs
  proof -
    have "parses (\<lambda>k. and_loop k l (tok TOp ''AND'' # node_tokens 2 r @ us)) x vs"
      using that r by (intro parses_and_loop [where r = r]) (simp_all add: reads_back_def)
    with l show ?thesis by (simp add: reads_back_def Let_def)
  qed
  have 0: "parses (\<lambda>k. parseOr k (node_tokens 1 ?n @ us)) x vs"
    if "us \<noteq> []" "\<not> is_op ''AND'' (hd us)" "parses (\<lambda>k. or_loop k ?n us) x vs" for us x vs
    using that by (intro parses_parseOr [OF 1 [OF _ parses_loop_stop(2)]])
  have "parses (\<lambda>k. parseOr k (node_tokens 1 ?n @ tok TRParen '')'' # us)) ?n (tok TRParen '')'' # us)" for us
    by (intro 0 parses_loop_stop) simp_all
  then have 2: "parses (\<lambda>k. parseNot k (node_tokens 2 ?n @ us)) ?n us" for us
    using parses_paren [of "node_tokens 1 ?n @ tok TRParen '')'' # us" ?n "'')''" us "''(''"]
    by (simp add: Let_def)
  show ?thesis
    unfolding reads_back_def using 0 1 2 by (simp add: Let_def)
qed

lemma reads_back_or:
  assumes l: "reads_back l" and r: "reads_back r"
  shows "reads_back (FilterNode None LogicOr (Some l) (Some r))" (is "reads_back ?n")
proof -
  have 0: "parses (\<lambda>k. parseOr k (node_tokens 0 ?n @ us)) x vs"
    if "us \<noteq> []" "\<not> is_op ''AND'' (hd us)" "parses (\<lambda>k. or_loop k ?n us) x vs" for us x vs
  proof -
    have "parses (\<lambda>k. parseAnd k (node_tokens 1 r @ us)) r us"
      using r that(1,2) parses_loop_stop(2) [of us r] by (simp add: reads_back_def)
    then have "parses (\<lambda>k. or_loop k l (tok TOp ''OR'' # node_tokens 1 r @ us)) x vs"
      using that(3) by (rule parses_or_loop)
    with l show ?thesis by (simp add: reads_back_def Let_def)
  qed
  have "parses (\<lambda>k. parseOr k (node_tokens 0 ?n @ tok TRParen '')'' # us)) ?n (tok TRParen '')'' # us)" for us
    by (intro 0 parses_loop_stop) simp_all
  then have 2: "parses (\<lambda>k. parseNot k (node_tokens 2 ?n @ us)) ?n us" for us
    using parses_paren [of "node_tokens 0 ?n @ tok TRParen '')'' # us" ?n "'')''" us "''(''"]
    by (simp add: Let_def)
  then have 1: "parses (\<lambda>k. parseAnd k (node_tokens 1 ?n @ us)) x vs"
    if "parses (\<lambda>k. and_loop k ?n us) x vs" for us x vs
    using parses_parseAnd [OF 2 that] by (simp add: Let_def)
  show ?thesis
    unfolding reads_back_def using 0 1 2 by blast
qed

lemma reads_back_not:
  assumes "reads_back l"
  shows "reads_back (FilterNode None LogicNot (Some l) None)"
  using assms by (intro reads_back_atom) (simp_all add: reads_back_def parses_parseNot)

lemma printable_reads_back: "printable n \<Longrightarrow> reads_back n"
proof (induction n rule: wf_node.induct)
  case (1 c)
  then show ?case
    by (intro reads_back_atom parses_condition) (simp_all add: printable_def)
qed (simp_all add: printable_def reads_back_not reads_back_and reads_back_or)

lemma parse_tokens_node:
  assumes "printable n"
  shows "\<exists>k. \<forall>m \<ge> k. parse_tokens m (node_tokens 0 n @ [tok TEOF []]) = Parsed n [tok TEOF []]"
proof -
  have "parses (\<lambda>k. parseOr k (node_tokens 0 n @ [tok TEOF []])) n [tok TEOF []]"
    using printable_reads_back [OF assms] parses_loop_stop(1) [of "[tok TEOF []]" n]
    by (simp add: reads_back_def)
  then obtain k where "\<forall>m \<ge> k. parseOr m (node_tokens 0 n @ [tok TEOF []]) = Parsed n [tok TEOF []]"
    unfolding parses_def by blast
  then show ?thesis by (intro exI [of _ k]) (simp add: parse_tokens_def)
qed

section \<open>Spelling the tokens\<close>

definition token_text :: "token \<Rightarrow> string" where
  "token_text t = (if tk_typ t = TString
     then (let q = (if char_of (39::nat) \<in> set (tk_val t) then char_of (34::nat) else char_of (39::nat))
       in q # tk_val t @ [q])
     else tk_val t)"

definition print_filter :: "filter_node \<Rightarrow> string" where
  "print_filter n = join_with '' '' (map token_text (node_tokens 0 n))"

inductive lexable :: "token \<Rightarrow> bool" where
  "plain_word w \<Longrightarrow> lexable (tok TIdent w)"
| "lexable (tok TIdent ''true'')"
| "lexable (tok TIdent ''false'')"
| "char_of (39::nat) \<notin> set s \<or> char_of (34::nat) \<notin> set s \<Longrightarrow> lexable (tok TString s)"
| "lexable (tok TNumber (show_int (sint (n :: int64))))"
| "w \<in> set keywords_upper \<Longrightarrow> lexable (tok TOp w)"
| "w \<in> {''=='', ''!='', ''<'', ''>'', ''<='', ''>=''} \<Longrightarrow> lexable (tok TOp w)"
| "punctuation c = Some t \<Longrightarrow> lexable (tok t [c])"

lemma span_stop:
  assumes "list_all P xs" and "us = [] \<or> \<not> P (hd us)"
  shows "takeWhile P (xs @ us) = xs" "dropWhile P (xs @ us) = us"
  using assms by (induction xs) (cases us; simp)+

lemma punctuation_None: "ch c \<notin> {40, 41, 91, 93, 44} \<Longrightarrow> punctuation c = None"
  by (auto simp: punctuation_def ch_def)

lemma ch_simps [simp]: "ch CHR ''_'' = 95" "ch CHR ''.'' = 46" "ch CHR '' '' = 32" "ch CHR ''='' = 61"
  "ch CHR ''-'' = 45" "ch CHR ''<'' = 60" "ch CHR ''>'' = 62" "ch CHR ''!'' = 33"
  by (simp_all add: ch_def)

lemma ch_inject [simp]: "ch c = ch d \<longleftrightarrow> c = d"
  by (simp add: ch_def)

lemma word_start:
  assumes "IsLetter c \<or> c = CHR ''_''"
  shows "\<not> IsSpace c" "punctuation c = None" "\<not> is_quote c" "\<not> starts_number c cs" "\<not> is_op_char c"
proof -
  have r: "65 \<le> ch c" "ch c \<noteq> 91" "ch c \<noteq> 93" "ch c \<noteq> 133" "ch c \<noteq> 160"
    using assms by (auto simp: IsLetter_def)
  show "\<not> IsSpace c" "punctuation c = None" "\<not> is_quote c"
    using r punctuation_None [of c] by (auto simp: IsSpace_def is_quote_def)
  show "\<not> starts_number c cs" "\<not> is_op_char c"
    using r by (auto simp: starts_number_def IsDigit_def is_ascii_digit_def is_op_char_def)
qed

lemma lex_word:
  assumes "w \<noteq> []" "IsLetter (hd w) \<or> hd w = CHR ''_''" "list_all word_char w"
    and "us = [] \<or> hd us = CHR '' ''"
  shows "token_loop (w @ us) acc = token_loop us (acc @ [word_token w])"
proof -
  obtain c cs where w: "w = c # cs" using assms(1) by (cases w) auto
  have "us = [] \<or> \<not> word_char (hd us)"
    using assms(4) by (auto simp: word_char_def IsLetter_def IsDigit_def is_ascii_digit_def simp flip: ch_inject)
  then have "takeWhile word_char (cs @ us) = cs" "dropWhile word_char (cs @ us) = us"
    using assms(3) by (simp_all add: span_stop w)
  with word_start [of c] assms(2) show ?thesis by (simp add: w)
qed

lemma lex_quoted:
  assumes "is_quote q" and "q \<notin> set s"
  shows "token_loop (q # s @ q # us) acc = token_loop us (acc @ [tok TString s])"
proof -
  have "\<not> IsSpace q" "punctuation q = None"
    using assms(1) punctuation_None [of q] by (auto simp: is_quote_def IsSpace_def)
  moreover have "takeWhile (\<lambda>d. d \<noteq> q) (s @ q # us) = s" "dropWhile (\<lambda>d. d \<noteq> q) (s @ q # us) = q # us"
    using assms(2) by (induction s) auto
  ultimately show ?thesis using assms(1) by simp
qed

lemma lex_number:
  assumes "starts_number c cs" and "list_all number_char cs" and "us = [] \<or> hd us = CHR '' ''"
  shows "token_loop (c # cs @ us) acc = token_loop us (acc @ [tok TNumber (c # cs)])"
proof -
  have c: "45 \<le> ch c \<and> ch c \<le> 57" and start: "starts_number c (cs @ us)"
    using assms(1) by (auto simp: starts_number_def IsDigit_def is_ascii_digit_def)
  have "us = [] \<or> \<not> number_char (hd us)"
    using assms(3) by (auto simp: number_char_def IsDigit_def is_ascii_digit_def simp flip: ch_inject)
  then have "takeWhile number_char (cs @ us) = cs" "dropWhile number_char (cs @ us) = us"
    using assms(2) by (simp_all add: span_stop)
  moreover have "\<not> IsSpace c" "punctuation c = None" "\<not> is_quote c"
    using c punctuation_None [of c] by (auto simp: IsSpace_def is_quote_def)
  ultimately show ?thesis using start by simp
qed

lemma number_text:
  obtains c cs where "show_int i = c # cs" "starts_number c cs" "list_all number_char cs"
proof -
  have digits: "list_all number_char (show_nat k)" "IsDigit (hd (show_nat k))" for k
    using show_nat_digits [of k] hd_show_nat [of k] by (auto simp: list_all_iff number_char_def IsDigit_def)
  show ?thesis
  proof (cases "i < 0")
    case True
    then show ?thesis
      using digits [of "nat (- i)"] by (intro that [of "CHR ''-''" "show_nat (nat (- i))"])
        (simp_all add: show_int_def starts_number_def)
  next
    case False
    obtain d ds where "show_nat (nat i) = d # ds" by (cases "show_nat (nat i)") auto
    with False digits [of "nat i"] show ?thesis
      by (intro that [of d ds]) (simp_all add: show_int_def starts_number_def)
  qed
qed

lemma lex_op_char:
  assumes "is_op_char c"
  shows "token_loop (c # CHR ''='' # us) acc = token_loop us (acc @ [tok TOp [c, CHR ''='']])"
    and "us = [] \<or> hd us = CHR '' '' \<Longrightarrow> token_loop (c # us) acc = token_loop us (acc @ [tok TOp [c]])"
proof -
  have "ch c \<in> {33, 60, 61, 62}" using assms by (auto simp: is_op_char_def)
  then have "\<not> IsSpace c" "punctuation c = None" "\<not> is_quote c" "\<not> IsDigit c" "c \<noteq> CHR ''-''"
    using punctuation_None [of c] by (auto simp: IsSpace_def is_quote_def IsDigit_def is_ascii_digit_def)
  moreover from this have "\<not> starts_number c us" for us by (simp add: starts_number_def)
  ultimately show "token_loop (c # CHR ''='' # us) acc = token_loop us (acc @ [tok TOp [c, CHR ''='']])"
    and "us = [] \<or> hd us = CHR '' '' \<Longrightarrow> token_loop (c # us) acc = token_loop us (acc @ [tok TOp [c]])"
    using assms by auto
qed

lemma lex_op:
  assumes "w \<in> {''=='', ''!='', ''<'', ''>'', ''<='', ''>=''}" and "us = [] \<or> hd us = CHR '' ''"
  shows "token_loop (w @ us) acc = token_loop us (acc @ [tok TOp w])"
proof -
  have c: "is_op_char CHR ''=''" "is_op_char CHR ''!''" "is_op_char CHR ''<''" "is_op_char CHR ''>''"
    by (simp_all add: is_op_char_def)
  from assms(1) consider "w = ''==''" | "w = ''!=''" | "w = ''<''" | "w = ''>''" | "w = ''<=''" | "w = ''>=''"
    by blast
  then show ?thesis
    by cases (simp_all only: append.simps lex_op_char(1) [OF c(1)] lex_op_char(1) [OF c(2)]
        lex_op_char(1) [OF c(3)] lex_op_char(1) [OF c(4)] lex_op_char(2) [OF c(3) assms(2)]
        lex_op_char(2) [OF c(4) assms(2)])
qed

definition word_reads :: "token_type \<Rightarrow> string \<Rightarrow> bool" where
  "word_reads ty w \<longleftrightarrow> w \<noteq> [] \<and> (IsLetter (hd w) \<or> hd w = CHR ''_'') \<and> list_all word_char w
     \<and> tk_typ (word_token w) = ty \<and> tk_val (word_token w) = w"

lemma words_read: "list_all (word_reads TOp) keywords_upper" "list_all (word_reads TIdent) [''true'', ''false'']"
  by code_simp+

lemma lex_reserved:
  assumes "word_reads ty w" and "us = [] \<or> hd us = CHR '' ''"
  shows "token_loop (w @ us) acc = token_loop us (acc @ [tok ty w])"
proof -
  have "word_token w = tok ty w"
    using assms(1) by (simp add: word_reads_def tok_def)
  with assms lex_word [OF _ _ _ assms(2), of w acc] show ?thesis by (simp add: word_reads_def)
qed

lemma lex_token:
  assumes "lexable t" and us: "us = [] \<or> hd us = CHR '' ''"
  shows "token_loop (token_text t @ us) acc = token_loop us (acc @ [t])"
  using assms(1)
proof cases
  case (1 w)
  then have "word_token w = tok TIdent w" by (simp add: plain_word_def word_token_def Let_def)
  with 1 lex_word [OF _ _ _ us, of w acc] show ?thesis by (simp add: token_text_def plain_word_def)
next
  case 2
  with lex_reserved [OF _ us, of TIdent "''true''" acc] words_read(2) show ?thesis
    by (simp add: token_text_def del: append.simps)
next
  case 3
  with lex_reserved [OF _ us, of TIdent "''false''" acc] words_read(2) show ?thesis
    by (simp add: token_text_def del: append.simps)
next
  case (4 s)
  have "is_quote (char_of (39::nat))" "is_quote (char_of (34::nat))"
    by (simp_all add: is_quote_def ch_def)
  with 4 lex_quoted [of _ s us acc] show ?thesis by (auto simp: token_text_def Let_def)
next
  case (5 n)
  obtain c cs where "show_int (sint n) = c # cs" "starts_number c cs" "list_all number_char cs"
    by (rule number_text)
  with 5 lex_number [OF _ _ us, of c cs acc] show ?thesis by (simp add: token_text_def)
next
  case (6 w)
  with lex_reserved [OF _ us, of TOp w acc] words_read(1) show ?thesis
    by (simp add: token_text_def list_all_iff)
next
  case (7 w)
  with lex_op [OF _ us, of w acc] show ?thesis by (simp add: token_text_def)
next
  case (8 c ty)
  then have "\<not> IsSpace c" "ty \<noteq> TString"
    by (auto simp: punctuation_def IsSpace_def ch_def split: if_splits)
  with 8 show ?thesis by (simp add: token_text_def)
qed

lemma lex_tokens:
  "list_all lexable ts \<Longrightarrow> token_loop (join_with '' '' (map token_text ts)) acc = Inr (acc @ ts @ [tok TEOF []])"
proof (induction ts arbitrary: acc)
  case (Cons t ts)
  show ?case
  proof (cases ts)
    case Nil
    with Cons.prems lex_token [of t "[]" acc] show ?thesis by simp
  next
    case (Cons u us)
    let ?rest = "join_with '' '' (map token_text ts)"
    have "token_loop (token_text t @ '' '' @ ?rest) acc = token_loop ('' '' @ ?rest) (acc @ [t])"
      by (rule lex_token) (use Cons.prems in simp_all)
    also have "\<dots> = token_loop ?rest (acc @ [t])" by (simp add: IsSpace_def)
    finally show ?thesis using Cons Cons.IH [of "acc @ [t]"] Cons.prems by simp
  qed
qed simp

lemma list_all_commas:
  "P (tok TComma '','') \<Longrightarrow> (\<And>ts. ts \<in> set tss \<Longrightarrow> list_all P ts) \<Longrightarrow> list_all P (commas tss)"
  by (induction tss rule: commas.induct) auto

lemma value_lexable: "printable_value v \<Longrightarrow> list_all lexable (value_tokens v)"
proof (induction v rule: value_tokens.induct)
  case (3 b)
  show ?case by (auto intro: lexable.intros)
next
  case (4 vs)
  have punct: "lexable (tok TComma '','')" "lexable (tok TLBracket ''['')" "lexable (tok TRBracket '']'')"
    by (auto intro!: lexable.intros(8) simp: punctuation_def)
  have "list_all lexable (commas (map value_tokens vs))"
    using 4 by (intro list_all_commas punct) (auto simp: list_all_iff)
  with punct show ?case by simp
qed (auto intro: lexable.intros)

lemma op_lexable: "isKnownOp x \<Longrightarrow> lexable (tok TOp (filter_op_text x))"
proof -
  assume "isKnownOp x"
  then have "filter_op_text x \<in> set keywords_upper \<or> filter_op_text x \<in> {''=='', ''!='', ''<'', ''>'', ''<='', ''>=''}"
    by (cases x) (simp_all add: isKnownOp_def keywords_upper_def)
  then show ?thesis by (blast intro: lexable.intros(6) lexable.intros(7))
qed

lemma node_lexable: "printable n \<Longrightarrow> list_all lexable (node_tokens p n)"
proof (induction n arbitrary: p rule: wf_node.induct)
  case (1 c)
  then show ?case by (auto simp: printable_def op_lexable value_lexable intro: lexable.intros)
next
  case (2 l)
  have "lexable (tok TOp ''NOT'')" by (auto intro!: lexable.intros(6) simp: keywords_upper_def)
  with 2 show ?case by (simp add: printable_def)
next
  case (3 l r)
  have "lexable (tok TOp ''AND'')" "lexable (tok TLParen ''('')" "lexable (tok TRParen '')'')"
    by (auto intro!: lexable.intros(6) lexable.intros(8) simp: keywords_upper_def punctuation_def)
  with 3 show ?case by (simp add: printable_def Let_def)
next
  case (4 l r)
  have "lexable (tok TOp ''OR'')" "lexable (tok TLParen ''('')" "lexable (tok TRParen '')'')"
    by (auto intro!: lexable.intros(6) lexable.intros(8) simp: keywords_upper_def punctuation_def)
  with 4 show ?case by (simp add: printable_def Let_def)
qed (simp_all add: printable_def)

lemma node_tokens_not_Nil: "wf_node n \<Longrightarrow> node_tokens p n \<noteq> []"
  by (induction n rule: wf_node.induct) (simp_all add: Let_def)

definition tight :: "string \<Rightarrow> bool" where
  "tight s \<longleftrightarrow> s \<noteq> [] \<and> \<not> IsSpace (hd s) \<and> \<not> IsSpace (last s)"

lemma TrimSpace_tight:
  assumes "tight s"
  shows "TrimSpace s = s"
proof -
  have "dropWhile IsSpace s = s" using assms by (cases s) (simp_all add: tight_def)
  moreover have "dropWhile IsSpace (rev s) = rev s"
    using assms by (cases "rev s") (auto simp: tight_def last_conv_nth hd_rev [symmetric])
  ultimately show ?thesis by (simp add: TrimSpace_def)
qed

lemma word_char_not_space: "word_char c \<Longrightarrow> \<not> IsSpace c"
  by (auto simp: word_char_def IsLetter_def IsDigit_def is_ascii_digit_def IsSpace_def)

lemma tight_words: "w \<noteq> [] \<Longrightarrow> list_all word_char w \<Longrightarrow> tight w"
  by (simp add: tight_def list_all_iff word_char_not_space)

lemma tight_token:
  assumes "lexable t"
  shows "tight (token_text t)"
  using assms
proof cases
  case (1 w)
  then show ?thesis by (simp add: token_text_def plain_word_def tight_words)
next
  case (4 s)
  then show ?thesis by (simp add: token_text_def Let_def tight_def IsSpace_def ch_def)
next
  case (5 n)
  obtain c cs where n: "show_int (sint n) = c # cs" "starts_number c cs" "list_all number_char cs"
    by (rule number_text)
  have "\<not> IsSpace c" "\<And>d. number_char d \<Longrightarrow> \<not> IsSpace d"
    using n(2) by (auto simp: starts_number_def number_char_def IsDigit_def is_ascii_digit_def IsSpace_def)
  with 5 n show ?thesis by (auto simp: token_text_def tight_def list_all_iff)
next
  case (6 w)
  then have "word_reads TOp w" using words_read(1) by (simp add: list_all_iff)
  with 6 show ?thesis by (simp add: token_text_def word_reads_def tight_words)
next
  case (8 c ty)
  then have "\<not> IsSpace c" "ty \<noteq> TString"
    by (auto simp: punctuation_def IsSpace_def ch_def split: if_splits)
  with 8 show ?thesis by (simp add: token_text_def tight_def)
qed (auto simp: token_text_def tight_def IsSpace_def ch_def)

lemma tight_join:
  "list_all tight ss \<Longrightarrow> ss \<noteq> [] \<Longrightarrow> tight (join_with '' '' ss)"
proof (induction ss)
  case (Cons s ss)
  then show ?case by (cases ss) (auto simp: tight_def)
qed simp

lemma tokenize_print:
  assumes "printable n"
  shows "TrimSpace (print_filter n) = print_filter n \<and> print_filter n \<noteq> []
    \<and> tokenize (print_filter n) = Inr (node_tokens 0 n @ [tok TEOF []])"
proof -
  have ts: "list_all lexable (node_tokens 0 n)" "node_tokens 0 n \<noteq> []"
    using assms node_lexable [of n 0] node_tokens_not_Nil [of n 0] by (simp_all add: printable_def)
  then have "tight (print_filter n)"
    unfolding print_filter_def by (intro tight_join) (auto simp: list_all_iff tight_token)
  then show ?thesis
    using ts(1) TrimSpace_tight [of "print_filter n"]
    by (simp add: tight_def tokenize_def lex_tokens print_filter_def)
qed

section \<open>Resolving a filter to clients\<close>

text \<open>The result of \<open>ParseFilter\<close> as its callers see it; the theorem
  \<open>filter_parser_ends\<close> shows that the last case does not occur.\<close>

definition parsed_filter :: "string \<Rightarrow> go_error + filter_node option" where
  "parsed_filter expr = (case ParseFilter expr of
     Parsed f _ \<Rightarrow> Inr f
   | Failed e \<Rightarrow> Inl e
   | _ \<Rightarrow> Inl (ErrMsg ''unreachable''))"

fun resolve_loop :: "filter_node option \<Rightarrow> client_metadata list \<Rightarrow> filter_result \<Rightarrow> go_error + filter_result" where
  "resolve_loop node [] result = Inr result"
| "resolve_loop node (c # cs) result =
     (if \<not> cm_Active c then resolve_loop node cs result
      else (case Evaluate node c of
         Inl e \<Rightarrow> Inl e
       | Inr match \<Rightarrow> resolve_loop node cs (if match
           then result\<lparr>fr_MatchingClientIDs := fr_MatchingClientIDs result @ [cm_ClientID c],
             fr_MatchCount := fr_MatchCount result + 1\<rparr>
           else result)))"

definition ResolveClients :: "string \<Rightarrow> client_db \<Rightarrow> go_error + filter_result" where
  "ResolveClients filterExpr db = (case parsed_filter filterExpr of
     Inl e \<Rightarrow> Inl e
   | Inr node \<Rightarrow> (case ListClients db of
       Inl e \<Rightarrow> Inl e
     | Inr clients \<Rightarrow> resolve_loop node clients
         \<lparr>fr_MatchingClientIDs = [], fr_TotalEvaluated = int (length clients), fr_MatchCount = 0\<rparr>))"

definition selected :: "filter_node option \<Rightarrow> client_metadata list \<Rightarrow> string list" where
  "selected f cs = map cm_ClientID (filter (\<lambda>c. cm_Active c \<and> Evaluate f c = Inr True) cs)"

definition mismatched :: "filter_node option \<Rightarrow> client_metadata \<Rightarrow> bool" where
  "mismatched f c \<longleftrightarrow> cm_Active c \<and> Evaluate f c = Inl ErrTypeMismatch"

lemma resolve_loop_eq:
  assumes "\<And>c e. Evaluate f c = Inl e \<Longrightarrow> e = ErrTypeMismatch"
  shows "resolve_loop f cs r = (if \<exists>c \<in> set cs. mismatched f c then Inl ErrTypeMismatch
    else Inr (r\<lparr>fr_MatchingClientIDs := fr_MatchingClientIDs r @ selected f cs,
      fr_MatchCount := fr_MatchCount r + int (length (selected f cs))\<rparr>))"
proof (induction cs arbitrary: r)
  case Nil
  then show ?case by (simp add: selected_def)
next
  case (Cons c cs)
  show ?case
  proof (cases "Evaluate f c")
    case (Inl e)
    with assms [OF Inl] Cons show ?thesis by (simp add: mismatched_def selected_def)
  next
    case (Inr b)
    with Cons show ?thesis
      by (cases b; cases "cm_Active c") (simp_all add: mismatched_def selected_def)
  qed
qed

section \<open>Properties\<close>

text \<open>C14. The filter parser ends on every string and never reads past its tokens: the empty filter
  (after trimming) is the nil tree, any other text is either an error or a well-formed tree whose
  operators are known, and giving the parser more fuel than \<open>parser_fuel\<close> never changes its
  answer.\<close>

theorem filter_parser_ends:
  "(case ParseFilter s of Parsed f _ \<Rightarrow> (case f of None \<Rightarrow> TrimSpace s = [] | Some n \<Rightarrow> wf_node n)
      | Failed e \<Rightarrow> TrimSpace s \<noteq> [] | _ \<Rightarrow> False)
   \<and> (\<forall>toks m. tokenize (TrimSpace s) = Inr toks \<longrightarrow> parser_fuel toks \<le> m
        \<longrightarrow> parse_tokens m toks = parse_tokens (parser_fuel toks) toks)"
proof
  show "\<forall>toks m. tokenize (TrimSpace s) = Inr toks \<longrightarrow> parser_fuel toks \<le> m
      \<longrightarrow> parse_tokens m toks = parse_tokens (parser_fuel toks) toks"
  proof (intro allI impI)
    fix toks m
    assume "tokenize (TrimSpace s) = Inr toks" and le: "parser_fuel toks \<le> m"
    from parse_tokens_ok [OF this(1)] have "parse_tokens (parser_fuel toks) toks \<noteq> Unfinished"
      by (cases "parse_tokens (parser_fuel toks) toks") simp_all
    then show "parse_tokens m toks = parse_tokens (parser_fuel toks) toks"
      by (rule parse_tokens_fuel [OF _ le])
  qed
  show "case ParseFilter s of Parsed f _ \<Rightarrow> (case f of None \<Rightarrow> TrimSpace s = [] | Some n \<Rightarrow> wf_node n)
      | Failed e \<Rightarrow> TrimSpace s \<noteq> [] | _ \<Rightarrow> False"
  proof (cases "tokenize (TrimSpace s)")
    case (Inr toks)
    then show ?thesis
      using parse_tokens_ok [OF Inr]
      by (cases "parse_tokens (parser_fuel toks) toks") (simp_all add: ParseFilter_def Let_def)
  qed (simp add: ParseFilter_def Let_def)
qed

theorem filter_parser_ends_witness:
  "\<exists>toks. tokenize (TrimSpace ''os =='') = Inr toks \<and> parse_tokens 100 toks = parse_tokens (parser_fuel toks) toks"
proof -
  let ?toks = "[tok TIdent ''os'', tok TOp ''=='', tok TEOF []]"
  have "tokenize (TrimSpace ''os =='') = Inr ?toks" by code_simp
  moreover have "parser_fuel ?toks \<le> 100" by (simp add: parser_fuel_def)
  ultimately show ?thesis using filter_parser_ends [of "''os ==''"] by blast
qed

lemma parsed_filter_cases:
  assumes "parsed_filter s = Inr f"
  shows "case f of None \<Rightarrow> TrimSpace s = [] | Some n \<Rightarrow> wf_node n"
proof (cases "tokenize (TrimSpace s)")
  case (Inr toks)
  with assms parse_tokens_ok [OF Inr] show ?thesis
    by (cases "parse_tokens (parser_fuel toks) toks")
      (auto simp: parsed_filter_def ParseFilter_def Let_def split: if_splits)
qed (use assms in \<open>auto simp: parsed_filter_def ParseFilter_def Let_def split: if_splits\<close>)

lemma parsed_filter_mismatch:
  "parsed_filter s = Inr f \<Longrightarrow> Evaluate f client = Inl e \<Longrightarrow> e = ErrTypeMismatch"
  using parsed_filter_cases [of s f] Evaluate_error by (cases f) auto

text \<open>C33. Parsed filters are well typed up to the values of the client: evaluating one never meets
  an unknown operator or a malformed tree; the only error left is a comparison of values that do
  not compare.\<close>

theorem parsed_filter_only_mismatches:
  assumes "parsed_filter s = Inr f" and "Evaluate f client = Inl e"
  shows "e = ErrTypeMismatch \<and> (\<exists>c \<in> conditions f. evalCondition c client = Inl ErrTypeMismatch)"
proof
  show "e = ErrTypeMismatch" using assms by (rule parsed_filter_mismatch)
  have "\<not> (\<forall>c \<in> conditions f. \<exists>b. evalCondition c client = Inr b)"
  proof
    assume all: "\<forall>c \<in> conditions f. \<exists>b. evalCondition c client = Inr b"
    obtain n where n: "f = Some n" "wf_node n"
      using assms(2) parsed_filter_cases [OF assms(1)] by (cases f) auto
    from Evaluate_sat [OF n(2), of client] all assms(2) show False by (simp add: n(1))
  qed
  then obtain c where c: "c \<in> conditions f" "\<And>b. evalCondition c client \<noteq> Inr b" by blast
  have "isKnownOp (fc_Op c)"
    using c(1) parsed_filter_cases [OF assms(1)] by (cases f) (auto intro: wf_conditions)
  moreover from c(2) obtain d where "evalCondition c client = Inl d"
    by (cases "evalCondition c client") auto
  ultimately show "\<exists>c \<in> conditions f. evalCondition c client = Inl ErrTypeMismatch"
    using c(1) evalCondition_error by blast
qed

definition busy_client :: client_metadata where
  "busy_client = sample_client\<lparr>cm_InnerState := [(''x'', VList [])]\<rparr>"

definition busy_filter :: "filter_node option" where
  "busy_filter = Some (FilterNode (Some \<lparr>fc_Field = ''state.x'', fc_Op = OpGt, fc_Value = VInt64 3\<rparr>) LogicNone None None)"

lemma busy_filter_parsed: "parsed_filter ''state.x > 3'' = Inr busy_filter"
  unfolding busy_filter_def by code_simp

lemma busy_filter_mismatch: "Evaluate busy_filter busy_client = Inl ErrTypeMismatch"
  by (simp add: busy_filter_def busy_client_def evalCondition_def GetField_def numericCompare_def)

theorem parsed_filter_only_mismatches_witness:
  "\<exists>f. parsed_filter ''state.x > 3'' = Inr f
    \<and> (\<exists>c \<in> conditions f. evalCondition c busy_client = Inl ErrTypeMismatch)"
  using parsed_filter_only_mismatches [OF busy_filter_parsed busy_filter_mismatch] busy_filter_parsed by blast

text \<open>C13. A filter means the proposition it spells: when the values of the client compare in
  every condition, evaluating a parsed filter gives the truth of its conditions under and, or and
  not; a condition on a field the client does not have is false, so its negation is true.\<close>

theorem filter_evaluates_to_its_meaning:
  assumes "parsed_filter s = Inr f" and "\<forall>c \<in> conditions f. evalCondition c client \<noteq> Inl ErrTypeMismatch"
  shows "Evaluate f client = Inr (sat f client)"
proof (cases f)
  case (Some n)
  with parsed_filter_cases [OF assms(1)] have wfn: "wf_node n" by simp
  have "\<exists>b. evalCondition c client = Inr b" if "c \<in> conditions (Some n)" for c
    using assms(2) that wf_conditions [OF wfn that] evalCondition_error [of c client] Some
    by (cases "evalCondition c client") auto
  with Evaluate_sat [OF wfn, of client] Some show ?thesis by blast
qed simp

theorem filter_evaluates_to_its_meaning_witness:
  "\<exists>f. parsed_filter ''os == ubuntu AND NOT x == 5'' = Inr f
    \<and> Evaluate f sample_client = Inr (sat f sample_client) \<and> Evaluate f sample_client = Inr True"
proof -
  define c1 where "c1 = \<lparr>fc_Field = ''os'', fc_Op = OpEq, fc_Value = VStr ''ubuntu''\<rparr>"
  define c2 where "c2 = \<lparr>fc_Field = ''x'', fc_Op = OpEq, fc_Value = VInt64 5\<rparr>"
  define f where "f = Some (FilterNode None LogicAnd (Some (FilterNode (Some c1) LogicNone None None))
    (Some (FilterNode None LogicNot (Some (FilterNode (Some c2) LogicNone None None)) None)))"
  have f: "parsed_filter ''os == ubuntu AND NOT x == 5'' = Inr f"
    unfolding f_def c1_def c2_def by code_simp
  have "evalCondition c1 sample_client = Inr True" "evalCondition c2 sample_client = Inr False"
    unfolding c1_def c2_def by code_simp+
  then have "\<forall>c \<in> conditions f. evalCondition c sample_client \<noteq> Inl ErrTypeMismatch"
    and "Evaluate f sample_client = Inr True" by (simp_all add: f_def)
  with filter_evaluates_to_its_meaning [OF f, of sample_client] f show ?thesis by blast
qed

text \<open>C12. Printing and parsing: a filter tree printed with as few parentheses as the grammar needs
  is read back as the same tree, so negation binds closer than conjunction, conjunction closer
  than alternative, and both associate to the left.\<close>

theorem printed_filter_parses_back:
  assumes "printable n"
  shows "parsed_filter (print_filter n) = Inr (Some n)"
proof -
  let ?toks = "node_tokens 0 n @ [tok TEOF []]"
  have spelled: "TrimSpace (print_filter n) = print_filter n" "print_filter n \<noteq> []"
    "tokenize (print_filter n) = Inr ?toks"
    using tokenize_print [OF assms] by simp_all
  obtain k where "\<forall>m \<ge> k. parse_tokens m ?toks = Parsed n [tok TEOF []]"
    using parse_tokens_node [OF assms] by blast
  then have "parse_tokens (max k (parser_fuel ?toks)) ?toks = Parsed n [tok TEOF []]" by simp
  moreover have "parse_tokens (max k (parser_fuel ?toks)) ?toks = parse_tokens (parser_fuel ?toks) ?toks"
    using parse_tokens_ok [OF spelled(3)]
    by (intro parse_tokens_fuel) (cases "parse_tokens (parser_fuel ?toks) ?toks"; simp)+
  ultimately show ?thesis
    using spelled by (simp add: parsed_filter_def ParseFilter_def Let_def)
qed

definition sample_filter :: filter_node where
  "sample_filter = FilterNode None LogicAnd
     (Some (FilterNode None LogicOr
       (Some (FilterNode (Some \<lparr>fc_Field = ''os'', fc_Op = OpIn, fc_Value = VList [VStr ''a'', VInt64 (- 3)]\<rparr>) LogicNone None None))
       (Some (FilterNode (Some \<lparr>fc_Field = ''on'', fc_Op = OpEq, fc_Value = VBool True\<rparr>) LogicNone None None))))
     (Some (FilterNode None LogicNot
       (Some (FilterNode (Some \<lparr>fc_Field = ''disk'', fc_Op = OpGte, fc_Value = VInt64 90\<rparr>) LogicNone None None)) None))"

theorem printed_filter_parses_back_witness:
  "parsed_filter ''( os IN [ 'a' , -3 ] OR on == true ) AND NOT disk >= 90'' = Inr (Some sample_filter)"
proof -
  have "list_all plain_word [''os'', ''on'', ''disk'']" by code_simp
  then have "printable sample_filter"
    by (simp add: printable_def sample_filter_def isKnownOp_def) (simp flip: ch_inject add: ch_def)
  moreover have "print_filter sample_filter = ''( os IN [ 'a' , -3 ] OR on == true ) AND NOT disk >= 90''"
    unfolding sample_filter_def by code_simp
  ultimately show ?thesis using printed_filter_parses_back [of sample_filter] by simp
qed

text \<open>C32. Resolving a filter selects exactly the active clients it is true of, in the order of the
  table; a syntax error is returned as it is, and one active client whose values do not compare
  makes the whole resolution fail.\<close>

theorem resolve_selects_matching_clients:
  assumes "cd_faults db = no_faults"
  shows "ResolveClients expr db = (case parsed_filter expr of
      Inl e \<Rightarrow> Inl e
    | Inr f \<Rightarrow> if \<exists>c \<in> set (cd_rows db). mismatched f c then Inl ErrTypeMismatch
        else Inr \<lparr>fr_MatchingClientIDs = selected f (cd_rows db), fr_TotalEvaluated = int (length (cd_rows db)),
          fr_MatchCount = int (length (selected f (cd_rows db)))\<rparr>)"
proof (cases "parsed_filter expr")
  case (Inr f)
  with resolve_loop_eq [OF parsed_filter_mismatch [OF Inr]] assms show ?thesis
    by (simp add: ResolveClients_def ListClients_def)
qed (simp add: ResolveClients_def)

theorem resolve_selects_matching_clients_witness:
  "ResolveClients ''state.x > 3'' \<lparr>cd_rows = [sample_client, busy_client], cd_faults = no_faults\<rparr>
    = Inl ErrTypeMismatch"
proof -
  have "mismatched busy_filter busy_client"
    using busy_filter_mismatch by (simp add: mismatched_def busy_client_def sample_client_def)
  with resolve_selects_matching_clients [of "\<lparr>cd_rows = [sample_client, busy_client], cd_faults = no_faults\<rparr>"
      "''state.x > 3''"] busy_filter_parsed
  show ?thesis by simp
qed

text \<open>Two strings that are both numbers compare as numbers: a field holding \<open>nan\<close> is not equal to
  the literal \<open>nan\<close>, and \<open>inf\<close> is equal to \<open>Infinity\<close>.\<close>

lemma string_equality_is_numeric:
  "\<not> equalsAny (VStr ''nan'') (VStr ''nan'')" "equalsAny (VStr ''inf'') (VStr ''Infinity'')"
  by code_simp+

end
