(* ===== verification/Api_Types.thy ===== *)
theory Api_Types
  imports Workflows
begin

text \<open>
  The request and error types of the HTTP interface (\<open>internal/core/domain/api.go\<close>) and the
  translation of errors into API errors (\<open>internal/adapters/http/server.go\<close>). A pointer field of
  a request is an option; an \<open>*APIError\<close> is its code and message.
\<close>

type_synonym api_error = "string \<times> string"

definition NewAPIError :: "string \<Rightarrow> string \<Rightarrow> go_error" where
  "NewAPIError code message = ErrAPI code message"

definition GetHTTPStatus :: "api_error \<Rightarrow> int" where
  "GetHTTPStatus e = (let code = fst e in
     if code = ''NOT_FOUND'' then 404
     else if code = ''BAD_REQUEST'' \<or> code = ''INVALID_FILTER'' \<or> code = ''VALIDATION_ERROR'' then 400
     else if code = ''CONFLICT'' then 409
     else if code = ''FORBIDDEN'' then 403
     else 500)"

definition any_is :: "go_error \<Rightarrow> go_error list \<Rightarrow> bool" where
  "any_is e ts \<longleftrightarrow> list_ex (error_is e) ts"

definition toAPIError :: "go_error option \<Rightarrow> api_error" where
  "toAPIError err = (case err of
     None \<Rightarrow> (''INTERNAL'', ''unknown error'')
   | Some e \<Rightarrow> (case error_as_api e of
       Some a \<Rightarrow> a
     | None \<Rightarrow>
         if any_is e [ErrWorkflowNotFound, ErrRunNotFound, ErrClientNotFound, ErrBanNotFound,
             ErrCircuitStateNotFound] then (''NOT_FOUND'', error_text e)
         else if any_is e [ErrInvalidFilter, ErrInvalidWorkflow, ErrMissingRequiredField,
             ErrInvalidRequest, ErrInvalidPolicy] then (''VALIDATION_ERROR'', error_text e)
         else if any_is e [ErrWorkflowInactive] then (''CONFLICT'', error_text e)
         else (''INTERNAL'', error_text e)))"

record query_filter =
  qf_Limit :: int64
  qf_Offset :: int64
  qf_SortBy :: string
  qf_SortOrder :: string

definition QueryFilter_Validate :: "query_filter \<Rightarrow> go_error option" where
  "QueryFilter_Validate q =
     (if sint (qf_Limit q) < 0 \<or> 1000 < sint (qf_Limit q) then Some ErrInvalidRequest
      else if sint (qf_Offset q) < 0 then Some ErrInvalidRequest
      else None)"

definition GetLimit :: "query_filter \<Rightarrow> int64" where
  "GetLimit q = (if sint (qf_Limit q) \<le> 0 then 10 else qf_Limit q)"

definition GetOffset :: "query_filter \<Rightarrow> int64" where
  "GetOffset q = (if sint (qf_Offset q) < 0 then 0 else qf_Offset q)"

record create_request =
  cw_Name :: string
  cw_Description :: string
  cw_WorkflowType :: string
  cw_Activity :: activity_type
  cw_Params :: gmap
  cw_TargetFilter :: string
  cw_Trigger :: trigger_spec
  cw_SuccessThreshold :: float64
  cw_LoopThresholdMS :: int64
  cw_TimeoutMS :: int64
  cw_Enabled :: "bool option"

definition CreateRequest_Validate :: "create_request \<Rightarrow> go_error option" where
  "CreateRequest_Validate r =
     (if cw_Name r = [] then Some (NewAPIError ''VALIDATION_ERROR'' ''name required'')
      else if cw_WorkflowType r = [] then Some (NewAPIError ''VALIDATION_ERROR'' ''workflow_type required'')
      else if \<not> ActivityType_IsValid (cw_Activity r)
        then Some (NewAPIError ''VALIDATION_ERROR'' ''invalid activity'')
      else None)"

record edit_request =
  ew_Name :: "string option"
  ew_Description :: "string option"
  ew_Params :: "gmap option"
  ew_TargetFilter :: "string option"
  ew_SuccessThreshold :: "float64 option"
  ew_LoopThresholdMS :: "int64 option"
  ew_TimeoutMS :: "int64 option"
  ew_Enabled :: "bool option"

definition HasChanges :: "edit_request \<Rightarrow> bool" where
  "HasChanges r \<longleftrightarrow> ew_Name r \<noteq> None \<or> ew_Description r \<noteq> None \<or> ew_Params r \<noteq> None
     \<or> ew_TargetFilter r \<noteq> None \<or> ew_SuccessThreshold r \<noteq> None
     \<or> ew_LoopThresholdMS r \<noteq> None \<or> ew_TimeoutMS r \<noteq> None \<or> ew_Enabled r \<noteq> None"

definition EditRequest_Validate :: "edit_request \<Rightarrow> go_error option" where
  "EditRequest_Validate r =
     (if \<not> HasChanges r then Some (NewAPIError ''VALIDATION_ERROR'' ''at least one field required'') else None)"

record unban_request =
  ub_WorkflowType :: string
  ub_AdminID :: string
  ub_Reason :: string

definition UnbanRequest_Validate :: "unban_request \<Rightarrow> go_error option" where
  "UnbanRequest_Validate r =
     (if ub_AdminID r = [] then Some (NewAPIError ''VALIDATION_ERROR'' ''admin_id required'')
      else if ub_Reason r = [] then Some (NewAPIError ''VALIDATION_ERROR'' ''reason required'')
      else None)"

end
