(* ===== verification/Orchestration.thy ===== *)
theory Orchestration
  imports Server_State Filter_Language Api_Types
begin

text \<open>
  Workflow orchestration (\<open>internal/core/services/workflow_orchestration.go\<close>) and dispatch
  coordination (\<open>dispatch_coordination.go\<close>): creating and editing workflows, and triggering one:
  select the clients, create the run, send a dispatch to every client that is not banned, record
  the outcome, publish the completion event. The dispatcher is an argument, \<open>send\<close>; the contract the
  services rely on is the locale \<open>message_dispatcher\<close>, which both dispatchers of the server satisfy.
\<close>

section \<open>Creating and editing workflows\<close>

definition new_workflow :: "env \<Rightarrow> create_request \<Rightarrow> workflow" where
  "new_workflow E req =
     (let w = \<lparr>wf_ID = env_uuid E 0, wf_Name = cw_Name req, wf_Description = cw_Description req,
            wf_WorkflowType = cw_WorkflowType req, wf_Activity = cw_Activity req, wf_Params = cw_Params req,
            wf_TargetFilter = cw_TargetFilter req, wf_Trigger = cw_Trigger req,
            wf_SuccessThreshold = cw_SuccessThreshold req, wf_LoopThresholdMS = cw_LoopThresholdMS req,
            wf_TimeoutMS = cw_TimeoutMS req, wf_Active = True, wf_CreatedAt = 0, wf_UpdatedAt = 0,
            wf_DeactivatedReason = []\<rparr>;
          w = (case cw_Enabled req of None \<Rightarrow> w | Some b \<Rightarrow> w\<lparr>wf_Active := b\<rparr>);
          w = (if feq (wf_SuccessThreshold w) (f64_of_int 0) then w\<lparr>wf_SuccessThreshold := f64_of_int 80\<rparr> else w);
          w = (if wf_LoopThresholdMS w = 0 then w\<lparr>wf_LoopThresholdMS := 5000\<rparr> else w)
      in if wf_TimeoutMS w = 0 then w\<lparr>wf_TimeoutMS := 30000\<rparr> else w)"

lemma new_workflow_fields [simp]:
  "wf_ID (new_workflow E req) = env_uuid E 0" "wf_Trigger (new_workflow E req) = cw_Trigger req"
  by (simp_all add: new_workflow_def Let_def split: option.split)

definition CreateWorkflow ::
  "env \<Rightarrow> create_request \<Rightarrow> workflow_db \<Rightarrow> (go_error + workflow) \<times> workflow_db" where
  "CreateWorkflow E req db = (case CreateRequest_Validate req of
     Some e \<Rightarrow> (Inl e, db)
   | None \<Rightarrow>
      (let w = new_workflow E req
       in case ValidateDefinition w of
          Some e \<Rightarrow> (Inl e, db)
        | None \<Rightarrow> (case SaveWorkflow E w db of
            (Inl e, w, db) \<Rightarrow> (Inl e, db)
          | (Inr _, w, db) \<Rightarrow> (Inr w, db))))"

definition set_if :: "('a \<Rightarrow> 'b \<Rightarrow> 'b) \<Rightarrow> 'a option \<Rightarrow> 'b \<Rightarrow> 'b" where
  "set_if f v w = (case v of None \<Rightarrow> w | Some x \<Rightarrow> f x w)"

definition apply_edit :: "edit_request \<Rightarrow> workflow \<Rightarrow> workflow" where
  "apply_edit req w =
     (let w = set_if (\<lambda>x w. w\<lparr>wf_Name := x\<rparr>) (ew_Name req) w;
          w = set_if (\<lambda>x w. w\<lparr>wf_Description := x\<rparr>) (ew_Description req) w;
          w = set_if (\<lambda>x w. w\<lparr>wf_Params := x\<rparr>) (ew_Params req) w;
          w = set_if (\<lambda>x w. w\<lparr>wf_TargetFilter := x\<rparr>) (ew_TargetFilter req) w;
          w = set_if (\<lambda>x w. w\<lparr>wf_SuccessThreshold := x\<rparr>) (ew_SuccessThreshold req) w;
          w = set_if (\<lambda>x w. w\<lparr>wf_LoopThresholdMS := x\<rparr>) (ew_LoopThresholdMS req) w;
          w = set_if (\<lambda>x w. w\<lparr>wf_TimeoutMS := x\<rparr>) (ew_TimeoutMS req) w
      in set_if (\<lambda>x w. w\<lparr>wf_Active := x\<rparr>) (ew_Enabled req) w)"

definition EditWorkflow ::
  "env \<Rightarrow> string \<Rightarrow> edit_request \<Rightarrow> workflow_db \<Rightarrow> (go_error + workflow) \<times> workflow_db" where
  "EditWorkflow E wid req db = (case EditRequest_Validate req of
     Some e \<Rightarrow> (Inl e, db)
   | None \<Rightarrow> (case GetWorkflow wid db of
       Inl e \<Rightarrow> (Inl e, db)
     | Inr w \<Rightarrow>
        (let w = apply_edit req w in
         case ValidateDefinition w of
           Some e \<Rightarrow> (Inl e, db)
         | None \<Rightarrow> (case SaveWorkflow E w db of
             (Inl e, w, db) \<Rightarrow> (Inl e, db)
           | (Inr _, w, db) \<Rightarrow> (Inr w, db)))))"

definition Orch_DeleteWorkflow :: "string \<Rightarrow> workflow_db \<Rightarrow> (go_error + unit) \<times> workflow_db" where
  "Orch_DeleteWorkflow wid db = DeleteWorkflow wid db"

definition Orch_ActivateWorkflow :: "env \<Rightarrow> string \<Rightarrow> workflow_db \<Rightarrow> (go_error + unit) \<times> workflow_db" where
  "Orch_ActivateWorkflow E wid db = UpdateWorkflowState E wid True ''manually activated'' db"

definition Orch_DeactivateWorkflow :: "env \<Rightarrow> string \<Rightarrow> workflow_db \<Rightarrow> (go_error + unit) \<times> workflow_db" where
  "Orch_DeactivateWorkflow E wid db = UpdateWorkflowState E wid False ''manually deactivated'' db"

definition Orch_GetWorkflow :: "string \<Rightarrow> workflow_db \<Rightarrow> go_error + workflow" where
  "Orch_GetWorkflow wid db = GetWorkflow wid db"

definition ListWorkflows :: "workflow_db \<Rightarrow> go_error + workflow list" where
  "ListWorkflows db = ListAllWorkflows db"

section \<open>Filtering dispatches\<close>

text \<open>\<open>FilterDispatches\<close> of \<open>dispatch_filter.go\<close>.\<close>

fun filter_dispatches ::
  "env \<Rightarrow> enforcement \<Rightarrow> string \<Rightarrow> dispatch list \<Rightarrow> dispatch list \<Rightarrow> dispatch list
     \<Rightarrow> go_error + dispatch list \<times> dispatch list" where
  "filter_dispatches E S workflowType [] allowed filtered = Inr (allowed, filtered)"
| "filter_dispatches E S workflowType (d # ds) allowed filtered =
     (case IsBanned E S (di_ClientID d) workflowType of
        Inl e \<Rightarrow> Inl e
      | Inr blocked \<Rightarrow>
          if blocked then filter_dispatches E S workflowType ds allowed (filtered @ [d])
          else filter_dispatches E S workflowType ds (allowed @ [d]) filtered)"

definition FilterDispatches ::
  "env \<Rightarrow> enforcement \<Rightarrow> string \<Rightarrow> dispatch list \<Rightarrow> go_error + dispatch list \<times> dispatch list" where
  "FilterDispatches E S workflowType ds = filter_dispatches E S workflowType ds [] []"

text \<open>Filtering dispatches is filtering their clients.\<close>

lemma FilterDispatches_clients:
  "(case FilterDispatches E S t ds of Inl e \<Rightarrow> Inl e
     | Inr (allowed, filtered) \<Rightarrow> Inr (map di_ClientID allowed, map di_ClientID filtered))
   = FilterDispatchList E S t (map di_ClientID ds)"
proof -
  have "(case filter_dispatches E S t ds allowed filtered of Inl e \<Rightarrow> Inl e
       | Inr (allowed, filtered) \<Rightarrow> Inr (map di_ClientID allowed, map di_ClientID filtered))
     = filter_loop E S t (map di_ClientID ds) (map di_ClientID allowed) (map di_ClientID filtered)" for allowed filtered
    by (induction ds arbitrary: allowed filtered) (simp_all split: sum.split)
  from this [of "[]" "[]"] show ?thesis by (simp add: FilterDispatches_def FilterDispatchList_def)
qed

section \<open>Dispatch coordination\<close>

definition GenerateDispatches :: "env \<Rightarrow> run \<Rightarrow> workflow \<Rightarrow> string list \<Rightarrow> dispatch list" where
  "GenerateDispatches E r w clientIDs = map (\<lambda>cid. \<lparr>di_RunID = run_RunID r, di_WorkflowID = wf_ID w,
     di_ClientID = cid, di_Activity = wf_Activity w, di_Params = wf_Params w, di_DispatchedAt = env_now E\<rparr>)
     clientIDs"

text \<open>The loop over the dispatches: an invalid one is skipped, the first send error ends it.\<close>

fun send_loop :: "sender \<Rightarrow> dispatch list \<Rightarrow> dispatch list \<Rightarrow> outbox \<Rightarrow> go_error option \<times> dispatch list \<times> outbox" where
  "send_loop send [] sent ob = (None, sent, ob)"
| "send_loop send (d # ds) sent ob =
     (if \<not> Dispatch_IsValid d then send_loop send ds sent ob
      else (case send d ob of
        (Some e, ob) \<Rightarrow> (Some e, sent, ob)
      | (None, ob) \<Rightarrow> send_loop send ds (sent @ [d]) ob))"

text \<open>\<open>SendDispatches\<close> writes the clients that are not banned into the run it is given, so the run is
  returned as well.\<close>

definition SendDispatches ::
  "env \<Rightarrow> sender \<Rightarrow> run \<Rightarrow> workflow \<Rightarrow> string list \<Rightarrow> server
     \<Rightarrow> (dispatch list \<times> string list \<times> go_error option) \<times> run \<times> server" where
  "SendDispatches E send r w clientIDs S =
     (case FilterDispatchList E (sv_enf S) (wf_WorkflowType w) clientIDs of
       Inl e \<Rightarrow> (([], [], Some e), r, S)
     | Inr (allowed, filtered) \<Rightarrow>
        (let r = r\<lparr>run_ParticipatingClients := allowed\<rparr>;
             dispatches = GenerateDispatches E r w allowed;
             (err, sent, ob) = send_loop send dispatches [] (sv_outbox S);
             S = S\<lparr>sv_outbox := ob\<rparr>
         in case err of
           Some e \<Rightarrow> ((sent, filtered, Some e), r, S)
         | None \<Rightarrow>
            (let r = r\<lparr>run_DispatchedAt := env_now E, run_State := RunInProgress\<rparr>
             in ((sent, filtered, None), r, S\<lparr>sv_runs := snd (UpdateRun r (sv_runs S))\<rparr>))))"

section \<open>Triggering a workflow\<close>

definition target_clients :: "workflow \<Rightarrow> client_db \<Rightarrow> go_error + string list" where
  "target_clients w db =
     (if wf_TargetFilter w = [] then
        (case ListClients db of Inl e \<Rightarrow> Inl e | Inr cs \<Rightarrow> Inr (map cm_ClientID (filter cm_Active cs)))
      else (case ResolveClients (wf_TargetFilter w) db of
         Inl e \<Rightarrow> Inl e | Inr fr \<Rightarrow> Inr (fr_MatchingClientIDs fr)))"

text \<open>A trigger may set off others through the completion event, so the run identifiers drawn so far
  are counted in the state; \<open>publish\<close> is the event bus, and may never return.\<close>

type_synonym orch_state = "nat \<times> server"

definition TriggerWorkflow ::
  "env \<Rightarrow> sender \<Rightarrow> (event \<Rightarrow> orch_state \<Rightarrow> orch_state option) \<Rightarrow> string \<Rightarrow> string \<Rightarrow> orch_state
     \<Rightarrow> ((run option \<times> go_error option) \<times> orch_state) option" where
  "TriggerWorkflow E send publish wid reason st = (case st of (k, S) \<Rightarrow>
     (case GetWorkflow wid (sv_workflows S) of
       Inl e \<Rightarrow> Some ((None, Some e), st)
     | Inr w \<Rightarrow>
        if \<not> Workflow_IsActive w then Some ((None, Some (ErrWrap [] ErrWorkflowInactive ('': '' @ wid))), st)
        else (case target_clients w (sv_clients S) of
          Inl e \<Rightarrow> Some ((None, Some e), st)
        | Inr clientIDs \<Rightarrow>
           (let r = \<lparr>run_RunID = env_uuid E k, run_WorkflowID = wf_ID w, run_WorkflowType = wf_WorkflowType w,
                  run_TriggeredAt = env_now E, run_DispatchedAt = 0, run_ParticipatingClients = clientIDs,
                  run_State = RunPending, run_Reason = reason\<rparr>;
                k = k + 1
            in case CreateRun r (sv_runs S) of
              (Inl e, db) \<Rightarrow> Some ((None, Some e), k, S\<lparr>sv_runs := db\<rparr>)
            | (Inr _, db) \<Rightarrow>
               (case SendDispatches E send r w clientIDs (S\<lparr>sv_runs := db\<rparr>) of
                 ((_, _, Some e), r, S) \<Rightarrow> Some ((Some r, Some e), k, S)
               | ((_, _, None), r, S) \<Rightarrow>
                  map_option (Pair (Some r, None)) (publish (WorkflowCompletionEvent (wf_ID w)
                    (wf_WorkflowType w) (run_RunID r) (run_State r) (env_now E)) (k, S)))))))"

section \<open>The contract of a dispatcher\<close>

definition message_for :: "dispatch \<Rightarrow> string \<times> dispatch" where
  "message_for d = (defaultDispatchSubject (di_ClientID d), d)"

locale message_dispatcher =
  fixes send :: sender and ready :: "outbox \<Rightarrow> bool" and accepts :: "dispatch \<Rightarrow> bool"
  assumes send_ok: "ready ob \<Longrightarrow> accepts d \<Longrightarrow> fst (send d ob) = None \<and> ready (snd (send d ob))
      \<and> ob_sent (snd (send d ob)) = ob_sent ob @ [message_for d]"
    and send_any: "ob_sent (snd (send d ob)) = ob_sent ob \<or> ob_sent (snd (send d ob)) = ob_sent ob @ [message_for d]"
begin

lemma send_loop_ok:
  "ready ob \<Longrightarrow> \<forall>d \<in> set ds. accepts d \<Longrightarrow>
    \<exists>ob'. send_loop send ds sent ob = (None, sent @ filter Dispatch_IsValid ds, ob') \<and> ready ob'
      \<and> ob_sent ob' = ob_sent ob @ map message_for (filter Dispatch_IsValid ds)"
proof (induction ds arbitrary: sent ob)
  case (Cons d ds)
  show ?case
  proof (cases "Dispatch_IsValid d")
    case True
    obtain e ob1 where s: "send d ob = (e, ob1)" by fastforce
    with send_ok [of ob d] Cons.prems have ob1: "e = None" "ready ob1" "ob_sent ob1 = ob_sent ob @ [message_for d]"
      by simp_all
    from Cons.IH [OF ob1(2), of "sent @ [d]"] Cons.prems True s ob1 show ?thesis by auto
  qed (use Cons in simp)
qed simp

lemma send_loop_any:
  "\<exists>ms. ob_sent (snd (snd (send_loop send ds sent ob))) = ob_sent ob @ ms \<and> set ms \<subseteq> message_for ` set ds"
proof (induction ds arbitrary: sent ob)
  case (Cons d ds)
  obtain e ob1 where s: "send d ob = (e, ob1)" by fastforce
  have one: "\<exists>ms. ob_sent ob1 = ob_sent ob @ ms \<and> set ms \<subseteq> {message_for d}"
    using send_any [of d ob] s by (metis empty_set append_Nil2 empty_subsetI list.simps(15) order_refl snd_conv)
  show ?case
  proof (cases "Dispatch_IsValid d \<and> e = None")
    case True
    obtain ms where ms: "ob_sent (snd (snd (send_loop send ds (sent @ [d]) ob1))) = ob_sent ob1 @ ms"
      "set ms \<subseteq> message_for ` set ds" using Cons.IH by blast
    from one obtain ns where "ob_sent ob1 = ob_sent ob @ ns" "set ns \<subseteq> {message_for d}" by blast
    with ms True s show ?thesis by (intro exI [of _ "ns @ ms"]) auto
  next
    case False
    show ?thesis
    proof (cases "Dispatch_IsValid d")
      case True
      with False s one show ?thesis by (cases e) auto
    next
      case no: False
      obtain ms where "ob_sent (snd (snd (send_loop send ds sent ob))) = ob_sent ob @ ms" "set ms \<subseteq> message_for ` set ds"
        using Cons.IH by blast
      with no show ?thesis by auto
    qed
  qed
qed simp

end

definition params_ok :: "dispatch \<Rightarrow> bool" where
  "params_ok d \<longleftrightarrow> list_all (\<lambda>(k, v). json_ok v) (di_Params d)"

definition connection_ok :: "outbox \<Rightarrow> bool" where
  "connection_ok ob \<longleftrightarrow> ob_publish ob = (\<lambda>_. None) \<and> ob_flush ob = (\<lambda>_. None)"

interpretation nats: message_dispatcher NATS_SendDispatch connection_ok params_ok
  by unfold_locales
    (auto simp: NATS_SendDispatch_def connection_ok_def params_ok_def message_for_def Let_def split: option.split)

interpretation channel: message_dispatcher "Channel_SendDispatch None" "\<lambda>_. True" "\<lambda>_. True"
  by unfold_locales (auto simp: Channel_SendDispatch_def message_for_def)

section \<open>Filtering and sending\<close>

definition allowed_clients :: "enforcement \<Rightarrow> string \<Rightarrow> string list \<Rightarrow> string list" where
  "allowed_clients S t cs = filter (\<lambda>c. \<not> spec_blocked (banned_keys S) c t) cs"

lemma filter_loop_allowed:
  assumes "cache_sound S" and "healthy S"
  shows "filter_loop E S t cs as fs = Inr (as @ allowed_clients S t cs, fs @ filter (\<lambda>c. spec_blocked (banned_keys S) c t) cs)"
  by (induction cs arbitrary: as fs) (simp_all add: IsBanned_healthy [OF assms] allowed_clients_def)

lemma target_clients_distinct:
  assumes "tables_ok S" and "healthy_server S" and "target_clients w (sv_clients S) = Inr ids"
  shows "distinct ids"
proof -
  have d: "distinct (map cm_ClientID (filter P (cd_rows (sv_clients S))))" for P
    using assms(1) by (auto simp: tables_ok_def intro: distinct_map_filter)
  show ?thesis
  proof (cases "wf_TargetFilter w = []")
    case True
    with assms(2,3) d show ?thesis by (auto simp: target_clients_def ListClients_def healthy_server_def)
  next
    case False
    with assms(3) obtain fr where fr: "ResolveClients (wf_TargetFilter w) (sv_clients S) = Inr fr"
      "ids = fr_MatchingClientIDs fr" by (auto simp: target_clients_def split: sum.splits)
    then obtain f where f: "parsed_filter (wf_TargetFilter w) = Inr f"
      by (auto simp: ResolveClients_def split: sum.splits)
    from fr(1) resolve_loop_eq [OF parsed_filter_mismatch [OF f]] f assms(2)
    have "fr_MatchingClientIDs fr = selected f (cd_rows (sv_clients S))"
      by (auto simp: ResolveClients_def ListClients_def healthy_server_def split: if_splits)
    with fr(2) d show ?thesis by (simp add: selected_def)
  qed
qed

definition new_run :: "env \<Rightarrow> nat \<Rightarrow> workflow \<Rightarrow> string list \<Rightarrow> string \<Rightarrow> run" where
  "new_run E k w ids reason = \<lparr>run_RunID = env_uuid E k, run_WorkflowID = wf_ID w, run_WorkflowType = wf_WorkflowType w,
     run_TriggeredAt = env_now E, run_DispatchedAt = 0, run_ParticipatingClients = ids,
     run_State = RunPending, run_Reason = reason\<rparr>"

definition sent_run :: "env \<Rightarrow> string list \<Rightarrow> run \<Rightarrow> run" where
  "sent_run E allowed r = r\<lparr>run_ParticipatingClients := allowed, run_DispatchedAt := env_now E, run_State := RunInProgress\<rparr>"

lemma sent_run_stored:
  assumes "rd_faults db = no_faults" and "r \<in> set (rd_runs db)"
  shows "GetRun (run_RunID r) (snd (UpdateRun (sent_run E allowed r) db)) = Inr (sent_run E allowed r)"
proof -
  have "lookup_row run_RunID (run_RunID r) (rd_runs db) \<noteq> None" using assms(2) by (auto simp: lookup_row_None_iff)
  moreover have "run_RunID (sent_run E allowed r) = run_RunID r" by (simp add: sent_run_def)
  moreover have "rd_faults (snd (UpdateRun (sent_run E allowed r) db)) = no_faults"
    using assms(1) by (simp add: UpdateRun_def)
  ultimately show ?thesis by (simp add: GetRun_def lookup_UpdateRun [OF assms(1)])
qed

lemma SendDispatches_ok:
  assumes "cache_sound (sv_enf S)" and "healthy (sv_enf S)"
    and send: "send_loop send (GenerateDispatches E (r\<lparr>run_ParticipatingClients := allowed\<rparr>) w allowed) [] (sv_outbox S)
      = (None, sent, ob)"
    and allowed: "allowed = allowed_clients (sv_enf S) (wf_WorkflowType w) ids"
  shows "SendDispatches E send r w ids S = ((sent, filter (\<lambda>c. spec_blocked (banned_keys (sv_enf S)) c (wf_WorkflowType w)) ids, None),
    sent_run E allowed r, S\<lparr>sv_outbox := ob, sv_runs := snd (UpdateRun (sent_run E allowed r) (sv_runs S))\<rparr>)"
  using assms
  by (simp add: SendDispatches_def FilterDispatchList_def filter_loop_allowed sent_run_def Let_def)

lemma GenerateDispatches_participants [simp]:
  "GenerateDispatches E (r\<lparr>run_ParticipatingClients := x\<rparr>) w cs = GenerateDispatches E r w cs"
  by (simp add: GenerateDispatches_def)

text \<open>What a trigger leaves alone.\<close>

definition runs_and_outbox_only :: "server \<Rightarrow> server \<Rightarrow> bool" where
  "runs_and_outbox_only S S' \<longleftrightarrow> sv_workflows S' = sv_workflows S \<and> sv_clients S' = sv_clients S
    \<and> sv_results S' = sv_results S \<and> sv_health S' = sv_health S \<and> sv_circuits S' = sv_circuits S
    \<and> sv_enf S' = sv_enf S \<and> rd_faults (sv_runs S') = rd_faults (sv_runs S)"

lemma UpdateRun_frame [simp]:
  "rd_faults (snd (UpdateRun r db)) = rd_faults db"
  "run_RunID ` set (rd_runs (snd (UpdateRun r db))) = run_RunID ` set (rd_runs db)"
proof -
  show "rd_faults (snd (UpdateRun r db)) = rd_faults db" by (simp add: UpdateRun_def split: option.split)
  show "run_RunID ` set (rd_runs (snd (UpdateRun r db))) = run_RunID ` set (rd_runs db)"
    using UpdateRun_ids [of r db] by (metis list.set_map)
qed

lemma SendDispatches_shape:
  assumes "cache_sound (sv_enf S)" and "healthy (sv_enf S)"
    and "allowed = allowed_clients (sv_enf S) (wf_WorkflowType w) ids"
    and "send_loop send (GenerateDispatches E r w allowed) [] (sv_outbox S) = (err, sent, ob)"
    and "SendDispatches E send r w ids S = ((sent', filtered, e), r', S')"
  shows "e = err \<and> (case err of
      Some _ \<Rightarrow> r' = r\<lparr>run_ParticipatingClients := allowed\<rparr> \<and> S' = S\<lparr>sv_outbox := ob\<rparr>
    | None \<Rightarrow> r' = sent_run E allowed r
        \<and> S' = S\<lparr>sv_outbox := ob, sv_runs := snd (UpdateRun (sent_run E allowed r) (sv_runs S))\<rparr>)"
  using assms
  by (auto simp: SendDispatches_def FilterDispatchList_def filter_loop_allowed sent_run_def Let_def
      split: option.splits)

lemma SendDispatches_frame:
  assumes "cache_sound (sv_enf S)" and "healthy (sv_enf S)" and "runs_ok (sv_runs S)"
    and "SendDispatches E send r w ids S = ((sent', filtered, e), r', S')"
  shows "runs_and_outbox_only S S' \<and> runs_ok (sv_runs S')
    \<and> run_RunID ` set (rd_runs (sv_runs S')) = run_RunID ` set (rd_runs (sv_runs S))
    \<and> rd_clients (sv_runs S') = rd_clients (sv_runs S)
    \<and> sv_outbox S' = snd (snd (send_loop send (GenerateDispatches E r w
        (allowed_clients (sv_enf S) (wf_WorkflowType w) ids)) [] (sv_outbox S)))"
proof -
  obtain err sent ob where l: "send_loop send (GenerateDispatches E r w
      (allowed_clients (sv_enf S) (wf_WorkflowType w) ids)) [] (sv_outbox S) = (err, sent, ob)"
    using prod_cases3 by blast
  from SendDispatches_shape [OF assms(1,2) refl l assms(4)] assms(3) show ?thesis
    by (cases err) (auto simp: l runs_and_outbox_only_def UpdateRun_ok)
qed

text \<open>The steps of a trigger up to the publication of its event, on a healthy server.\<close>

lemma TriggerWorkflow_steps:
  assumes ok: "healthy_server S" "tables_ok S" "cache_sound (sv_enf S)"
    and w: "GetWorkflow wid (sv_workflows S) = Inr w" "wf_Active w" "target_clients w (sv_clients S) = Inr ids"
    and fresh: "env_uuid E k \<notin> run_RunID ` set (rd_runs (sv_runs S))"
    and r_def: "r = new_run E k w ids reason"
    and allowed_def: "allowed = allowed_clients (sv_enf S) (wf_WorkflowType w) ids"
  obtains err r' S2 where
    "\<And>publish. TriggerWorkflow E send publish wid reason (k, S) = (case err of
        Some e \<Rightarrow> Some ((Some r', Some e), k + 1, S2)
      | None \<Rightarrow> map_option (Pair (Some r', None)) (publish (WorkflowCompletionEvent wid (wf_WorkflowType w)
          (env_uuid E k) RunInProgress (env_now E)) (k + 1, S2)))"
    and "err = fst (send_loop send (GenerateDispatches E r w allowed) [] (sv_outbox S))"
    and "sv_outbox S2 = snd (snd (send_loop send (GenerateDispatches E r w allowed) [] (sv_outbox S)))"
    and "runs_and_outbox_only S S2" and "tables_ok S2" and "healthy_server S2"
    and "run_RunID ` set (rd_runs (sv_runs S2)) = insert (env_uuid E k) (run_RunID ` set (rd_runs (sv_runs S)))"
    and "{c. (env_uuid E k, c) \<in> set (rd_clients (sv_runs S2))} = set ids"
    and "err = None \<longrightarrow> r' = sent_run E allowed r \<and> GetRun (env_uuid E k) (sv_runs S2) = Inr r'"
proof -
  have wid: "wf_ID w = wid" using w(1) GetWorkflow_InrD by blast
  have runs: "runs_ok (sv_runs S)" "rd_faults (sv_runs S) = no_faults" and enf: "healthy (sv_enf S)"
    using ok by (simp_all add: tables_ok_def healthy_server_def healthy_def)
  have ids: "distinct ids" by (rule target_clients_distinct [OF ok(2,1) w(3)])
  have r: "run_RunID r = env_uuid E k" "run_ParticipatingClients r = ids" by (simp_all add: r_def new_run_def)
  have new: "(env_uuid E k, c) \<notin> set (rd_clients (sv_runs S))" for c
    using runs(1) fresh by (auto simp: runs_ok_def)
  define db where "db = (sv_runs S)\<lparr>rd_runs := rd_runs (sv_runs S) @ [r],
    rd_clients := rd_clients (sv_runs S) @ map (Pair (env_uuid E k)) ids\<rparr>"
  have created: "CreateRun r (sv_runs S) = (Inr (), db)"
    using CreateRun_fresh [OF runs(2), of r] fresh ids new by (simp add: r db_def)
  define S1 where "S1 = S\<lparr>sv_runs := db\<rparr>"
  have S1: "cache_sound (sv_enf S1)" "healthy (sv_enf S1)" "runs_ok (sv_runs S1)" "sv_enf S1 = sv_enf S"
    "sv_outbox S1 = sv_outbox S" "rd_faults (sv_runs S1) = no_faults"
    using ok(3) enf CreateRun_ok [OF created runs(1)] runs(2) by (simp_all add: S1_def db_def)
  obtain sent' filtered e r' S2 where send: "SendDispatches E send r w ids S1 = ((sent', filtered, e), r', S2)"
    by (metis surj_pair)
  obtain err sent ob where l: "send_loop send (GenerateDispatches E r w allowed) [] (sv_outbox S1) = (err, sent, ob)"
    using prod_cases3 by blast
  note shape = SendDispatches_shape [OF S1(1,2) _ l send, unfolded S1(4), OF allowed_def]
  note frame = SendDispatches_frame [OF S1(1-3) send, unfolded S1(4,5), folded allowed_def]
  have only: "runs_and_outbox_only S S2"
    using frame by (auto simp: runs_and_outbox_only_def S1_def db_def)
  have state: "run_RunID r' = env_uuid E k \<and> run_State r' = RunInProgress" if "e = None"
    using shape that by (auto simp: sent_run_def r)
  have trig: "TriggerWorkflow E send publish wid reason (k, S) = (case err of
        Some e \<Rightarrow> Some ((Some r', Some e), k + 1, S2)
      | None \<Rightarrow> map_option (Pair (Some r', None)) (publish (WorkflowCompletionEvent wid (wf_WorkflowType w)
          (env_uuid E k) RunInProgress (env_now E)) (k + 1, S2)))" for publish
  proof -
    note r_eq = new_run_def [symmetric, of E k w ids reason, folded r_def]
    have "TriggerWorkflow E send publish wid reason (k, S) = (case e of
        Some e \<Rightarrow> Some ((Some r', Some e), k + 1, S2)
      | None \<Rightarrow> map_option (Pair (Some r', None)) (publish (WorkflowCompletionEvent (wf_ID w) (wf_WorkflowType w)
          (run_RunID r') (run_State r') (env_now E)) (k + 1, S2)))"
      using w by (simp add: TriggerWorkflow_def Workflow_IsActive_def Let_def r_eq created S1_def [symmetric] send
          split: option.split)
    moreover have "e = err" using shape by simp
    ultimately show ?thesis using state wid by (simp split: option.splits)
  qed
  have ids2: "run_RunID ` set (rd_runs (sv_runs S2)) = insert (env_uuid E k) (run_RunID ` set (rd_runs (sv_runs S)))"
    using frame by (simp add: S1_def db_def r)
  have parts: "{c. (env_uuid E k, c) \<in> set (rd_clients (sv_runs S2))} = set ids"
    using frame new by (auto simp: S1_def db_def)
  have got: "err = None \<longrightarrow> r' = sent_run E allowed r \<and> GetRun (env_uuid E k) (sv_runs S2) = Inr r'"
  proof
    assume "err = None"
    then have r': "r' = sent_run E allowed r" "sv_runs S2 = snd (UpdateRun (sent_run E allowed r) (sv_runs S1))"
      using shape by auto
    then show "r' = sent_run E allowed r \<and> GetRun (env_uuid E k) (sv_runs S2) = Inr r'"
      using sent_run_stored [OF S1(6), of r E allowed] r by (simp add: S1_def db_def)
  qed
  show ?thesis
  proof (rule that [OF trig _ _ only _ _ ids2 parts got])
    show "err = fst (send_loop send (GenerateDispatches E r w allowed) [] (sv_outbox S))"
      using l by (simp add: S1(5))
    show "sv_outbox S2 = snd (snd (send_loop send (GenerateDispatches E r w allowed) [] (sv_outbox S)))"
      using frame by simp
    show "tables_ok S2" "healthy_server S2"
      using ok(1,2) only frame by (auto simp: tables_ok_def healthy_server_def runs_and_outbox_only_def)
  qed
qed

section \<open>Properties\<close>

definition server_sender :: "sender \<Rightarrow> bool" where
  "server_sender send \<longleftrightarrow> send = NATS_SendDispatch \<or> send = Channel_SendDispatch None"

definition can_send :: "sender \<Rightarrow> workflow \<Rightarrow> outbox \<Rightarrow> bool" where
  "can_send send w ob \<longleftrightarrow> send = Channel_SendDispatch None
     \<or> send = NATS_SendDispatch \<and> connection_ok ob \<and> list_all (\<lambda>(k, v). json_ok v) (wf_Params w)"

lemma send_loop_server:
  assumes "server_sender send"
  shows "\<exists>ms. ob_sent (snd (snd (send_loop send ds sent ob))) = ob_sent ob @ ms \<and> set ms \<subseteq> message_for ` set ds"
  using assms nats.send_loop_any channel.send_loop_any unfolding server_sender_def by blast

lemma send_loop_can:
  assumes "can_send send w ob"
  shows "\<exists>ob'. send_loop send (GenerateDispatches E r w cs) [] ob
        = (None, filter Dispatch_IsValid (GenerateDispatches E r w cs), ob')
      \<and> ob_sent ob' = ob_sent ob @ map message_for (filter Dispatch_IsValid (GenerateDispatches E r w cs))"
proof -
  have "\<forall>d \<in> set (GenerateDispatches E r w cs). params_ok d"
    if "list_all (\<lambda>(k, v). json_ok v) (wf_Params w)"
    using that by (auto simp: GenerateDispatches_def params_ok_def)
  then show ?thesis
    using assms nats.send_loop_ok [where ob = ob and ds = "GenerateDispatches E r w cs" and sent = "[]"]
      channel.send_loop_ok [where ob = ob and ds = "GenerateDispatches E r w cs" and sent = "[]"]
    unfolding can_send_def by (metis append_Nil)
qed

lemma GenerateDispatches_valid:
  assumes "run_RunID r \<noteq> []" and "wf_ID w \<noteq> []" and "ActivityType_IsValid (wf_Activity w)"
  shows "filter Dispatch_IsValid (GenerateDispatches E r w cs) = GenerateDispatches E r w cs"
  using assms by (auto simp: GenerateDispatches_def Dispatch_IsValid_def filter_id_conv)

text \<open>What holds of the dispatch filter whatever fails: an answer is the exact partition by the bans
  in the table, and a failed ban lookup is an error of the whole filter.\<close>

lemma filter_loop_answer:
  assumes "cache_sound S" and "filter_loop E S t cs as fs = Inr (as', fs')"
  shows "as' = as @ allowed_clients S t cs \<and> (\<forall>c \<in> set cs. \<exists>b. IsBanned E S c t = Inr b)"
  using assms(2)
proof (induction cs arbitrary: as fs)
  case (Cons c cs)
  then obtain b where b: "IsBanned E S c t = Inr b" by (cases "IsBanned E S c t") simp_all
  have iff: "b \<longleftrightarrow> spec_blocked (banned_keys S) c t" by (rule IsBanned_iff [OF assms(1) b])
  show ?case
  proof (cases b)
    case True
    with Cons.prems b have "filter_loop E S t cs as (fs @ [c]) = Inr (as', fs')" by simp
    from Cons.IH [OF this] b iff True show ?thesis by (auto simp: allowed_clients_def)
  next
    case False
    with Cons.prems b have "filter_loop E S t cs (as @ [c]) fs = Inr (as', fs')" by simp
    from Cons.IH [OF this] b iff False show ?thesis by (auto simp: allowed_clients_def)
  qed
qed (simp add: allowed_clients_def)

text \<open>What a trigger does to the outside: its answer \<open>ans\<close> and, if \<open>ev\<close> is an event, the event it hands to
  the bus before it returns.\<close>

definition after_publishing ::
  "run option \<times> go_error option \<Rightarrow> event option \<Rightarrow> orch_state \<Rightarrow> (event \<Rightarrow> orch_state \<Rightarrow> orch_state option)
     \<Rightarrow> ((run option \<times> go_error option) \<times> orch_state) option" where
  "after_publishing ans ev st publish = (case ev of None \<Rightarrow> Some (ans, st) | Some e \<Rightarrow> map_option (Pair ans) (publish e st))"

definition run_started :: "env \<Rightarrow> nat \<Rightarrow> workflow \<Rightarrow> event" where
  "run_started E k w = WorkflowCompletionEvent (wf_ID w) (wf_WorkflowType w) (env_uuid E k) RunInProgress (env_now E)"

lemma SendDispatches_any:
  assumes "cache_sound (sv_enf S)" and "server_sender send" and "run_RunID r = rid"
    and "SendDispatches E send r w ids S = ((sent, filtered, err), r', S')"
  shows "\<exists>ms. ob_sent (sv_outbox S') = ob_sent (sv_outbox S) @ ms \<and> sv_enf S' = sv_enf S \<and> run_RunID r' = rid
    \<and> set ms \<subseteq> {(''dispatch.'' @ c, d) | c d. c \<in> set (allowed_clients (sv_enf S) (wf_WorkflowType w) ids)
        \<and> di_ClientID d = c \<and> di_RunID d = rid}
    \<and> ((\<exists>c \<in> set ids. \<exists>e. IsBanned E (sv_enf S) c (wf_WorkflowType w) = Inl e) \<longrightarrow> ms = [] \<and> err \<noteq> None)"
proof (cases "FilterDispatchList E (sv_enf S) (wf_WorkflowType w) ids")
  case (Inl e)
  with assms(3,4) show ?thesis by (auto simp: SendDispatches_def)
next
  case (Inr p)
  obtain al fl where p: "p = (al, fl)" by fastforce
  note f = filter_loop_answer [OF assms(1), of E "wf_WorkflowType w" ids "[]" "[]" al fl]
  have al: "al = allowed_clients (sv_enf S) (wf_WorkflowType w) ids"
    and no: "\<forall>c \<in> set ids. \<exists>b. IsBanned E (sv_enf S) c (wf_WorkflowType w) = Inr b"
    using f Inr by (auto simp: FilterDispatchList_def p)
  define ds where "ds = GenerateDispatches E r w al"
  obtain e st ob where l: "send_loop send ds [] (sv_outbox S) = (e, st, ob)" using prod_cases3 by blast
  obtain ms where ms: "ob_sent ob = ob_sent (sv_outbox S) @ ms" "set ms \<subseteq> message_for ` set ds"
    using send_loop_server [OF assms(2), of ds "[]" "sv_outbox S"] l by auto
  have to: "message_for ` set ds \<subseteq> {(''dispatch.'' @ c, d) | c d. c \<in> set al \<and> di_ClientID d = c \<and> di_RunID d = rid}"
    using assms(3) by (auto simp: ds_def GenerateDispatches_def message_for_def defaultDispatchSubject_def)
  have "sv_outbox S' = ob \<and> sv_enf S' = sv_enf S \<and> run_RunID r' = rid"
    using assms(3,4) Inr p l by (auto simp: SendDispatches_def Let_def ds_def split: option.splits)
  with ms to no al show ?thesis by (intro exI [of _ ms]) auto
qed

lemma TriggerWorkflow_any:
  assumes "cache_sound (sv_enf S)" and "server_sender send"
    and "GetWorkflow wid (sv_workflows S) = Inr w" and "wf_Active w" and "target_clients w (sv_clients S) = Inr ids"
  shows "\<exists>ans ev k' S' ms. (\<forall>publish. TriggerWorkflow E send publish wid reason (k, S) = after_publishing ans ev (k', S') publish)
    \<and> ob_sent (sv_outbox S') = ob_sent (sv_outbox S) @ ms \<and> sv_enf S' = sv_enf S
    \<and> set ms \<subseteq> {(''dispatch.'' @ c, d) | c d. c \<in> set (allowed_clients (sv_enf S) (wf_WorkflowType w) ids)
        \<and> di_ClientID d = c \<and> di_RunID d = env_uuid E k}
    \<and> ((\<exists>c \<in> set ids. \<exists>e. IsBanned E (sv_enf S) c (wf_WorkflowType w) = Inl e) \<longrightarrow> ms = [] \<and> ev = None \<and> snd ans \<noteq> None)"
proof -
  define r where "r = new_run E k w ids reason"
  note r_eq = new_run_def [symmetric, of E k w ids reason, folded r_def]
  obtain x db where c: "CreateRun r (sv_runs S) = (x, db)" by fastforce
  show ?thesis
  proof (cases x)
    case (Inl e)
    have "TriggerWorkflow E send publish wid reason (k, S)
        = after_publishing (None, Some e) None (k + 1, S\<lparr>sv_runs := db\<rparr>) publish" for publish
      using assms(3-5) c Inl by (simp add: TriggerWorkflow_def Workflow_IsActive_def Let_def r_eq after_publishing_def)
    then show ?thesis
      by (intro exI [of _ "(None, Some e)"] exI [of _ None] exI [of _ "k + 1"] exI [of _ "S\<lparr>sv_runs := db\<rparr>"]
          exI [of _ "[]"]) simp
  next
    case (Inr u)
    define S1 where "S1 = S\<lparr>sv_runs := db\<rparr>"
    obtain sent fl err r' S2 where s: "SendDispatches E send r w ids S1 = ((sent, fl, err), r', S2)"
      by (metis surj_pair)
    define ev where "ev = (case err of Some _ \<Rightarrow> None
      | None \<Rightarrow> Some (WorkflowCompletionEvent (wf_ID w) (wf_WorkflowType w) (run_RunID r') (run_State r') (env_now E)))"
    have trig: "TriggerWorkflow E send publish wid reason (k, S) = after_publishing (Some r', err) ev (k + 1, S2) publish" for publish
      using assms(3-5) c Inr s
      by (simp add: TriggerWorkflow_def Workflow_IsActive_def Let_def r_eq after_publishing_def ev_def S1_def split: option.split)
    have "sv_enf S1 = sv_enf S" "sv_outbox S1 = sv_outbox S" by (simp_all add: S1_def)
    with SendDispatches_any [of S1 send r "env_uuid E k", OF _ assms(2) _ s] assms(1)
    obtain ms where ms: "ob_sent (sv_outbox S2) = ob_sent (sv_outbox S) @ ms" "sv_enf S2 = sv_enf S"
      "set ms \<subseteq> {(''dispatch.'' @ c, d) | c d. c \<in> set (allowed_clients (sv_enf S) (wf_WorkflowType w) ids)
        \<and> di_ClientID d = c \<and> di_RunID d = env_uuid E k}"
      "(\<exists>c \<in> set ids. \<exists>e. IsBanned E (sv_enf S) c (wf_WorkflowType w) = Inl e) \<longrightarrow> ms = [] \<and> err \<noteq> None"
      by (auto simp: r_def new_run_def)
    show ?thesis
      by (rule exI [of _ "(Some r', err)"], rule exI [of _ ev], rule exI [of _ "k + 1"], rule exI [of _ S2],
          rule exI [of _ ms]) (use trig ms in \<open>auto simp: ev_def\<close>)
  qed
qed

text \<open>When nothing stands in the way of a trigger before the sends: the database answers, and the run
  identifier is new.\<close>

definition trigger_ready :: "env \<Rightarrow> nat \<Rightarrow> server \<Rightarrow> workflow \<Rightarrow> bool" where
  "trigger_ready E k S w \<longleftrightarrow> healthy_server S \<and> tables_ok S \<and> wf_ID w \<noteq> [] \<and> ActivityType_IsValid (wf_Activity w)
     \<and> env_uuid E k \<noteq> [] \<and> env_uuid E k \<notin> run_RunID ` set (rd_runs (sv_runs S))"

lemma TriggerWorkflow_ready:
  assumes ready: "trigger_ready E k S w" and "cache_sound (sv_enf S)" and "server_sender send"
    and w: "GetWorkflow wid (sv_workflows S) = Inr w" "wf_Active w" "target_clients w (sv_clients S) = Inr ids"
    and allowed: "allowed = allowed_clients (sv_enf S) (wf_WorkflowType w) ids"
  shows "\<exists>err r S' ms. (\<forall>publish. TriggerWorkflow E send publish wid reason (k, S)
        = after_publishing (Some r, err) (if err = None then Some (run_started E k w) else None) (k + 1, S') publish)
    \<and> ob_sent (sv_outbox S') = ob_sent (sv_outbox S) @ ms \<and> sv_enf S' = sv_enf S
    \<and> set ms \<subseteq> {(''dispatch.'' @ c, d) | c d. c \<in> set allowed \<and> di_ClientID d = c \<and> di_RunID d = env_uuid E k}
    \<and> {c. (env_uuid E k, c) \<in> set (rd_clients (sv_runs S'))} = set ids
    \<and> (can_send send w (sv_outbox S) \<longrightarrow> err = None \<and> map (di_ClientID \<circ> snd) ms = allowed)
    \<and> (err = None \<longrightarrow> GetRun (env_uuid E k) (sv_runs S') = Inr r \<and> run_State r = RunInProgress
        \<and> run_ParticipatingClients r = allowed)"
proof -
  define r where "r = new_run E k w ids reason"
  have rd: "healthy_server S" "tables_ok S" "wf_ID w \<noteq> []" "ActivityType_IsValid (wf_Activity w)" "env_uuid E k \<noteq> []"
    "env_uuid E k \<notin> run_RunID ` set (rd_runs (sv_runs S))"
    using ready by (simp_all add: trigger_ready_def)
  have wid: "wf_ID w = wid" using w(1) GetWorkflow_InrD by blast
  define ds where "ds = GenerateDispatches E r w allowed"
  obtain err r' S2 where st: "\<And>publish. TriggerWorkflow E send publish wid reason (k, S) = (case err of
        Some e \<Rightarrow> Some ((Some r', Some e), k + 1, S2)
      | None \<Rightarrow> map_option (Pair (Some r', None)) (publish (WorkflowCompletionEvent wid (wf_WorkflowType w)
          (env_uuid E k) RunInProgress (env_now E)) (k + 1, S2)))"
    "err = fst (send_loop send ds [] (sv_outbox S))"
    "sv_outbox S2 = snd (snd (send_loop send ds [] (sv_outbox S)))"
    "runs_and_outbox_only S S2" "{c. (env_uuid E k, c) \<in> set (rd_clients (sv_runs S2))} = set ids"
    "err = None \<longrightarrow> r' = sent_run E allowed r \<and> GetRun (env_uuid E k) (sv_runs S2) = Inr r'"
    by (rule TriggerWorkflow_steps [OF rd(1,2) assms(2) w rd(6) r_def allowed, of send, folded ds_def])
      (rule that; assumption)
  obtain ms where ms: "ob_sent (sv_outbox S2) = ob_sent (sv_outbox S) @ ms" "set ms \<subseteq> message_for ` set ds"
    using send_loop_server [OF assms(3)] st(3) by metis
  have to: "set ms \<subseteq> {(''dispatch.'' @ c, d) | c d. c \<in> set allowed \<and> di_ClientID d = c \<and> di_RunID d = env_uuid E k}"
    using ms(2) by (auto simp: message_for_def defaultDispatchSubject_def ds_def GenerateDispatches_def r_def new_run_def)
  have valid: "filter Dispatch_IsValid ds = ds"
    using rd(3-5) by (simp add: ds_def GenerateDispatches_valid r_def new_run_def)
  have sent: "err = None \<and> map (di_ClientID \<circ> snd) ms = allowed" if "can_send send w (sv_outbox S)"
  proof -
    from send_loop_can [OF that, of E r allowed, folded ds_def, unfolded valid] st(2,3) ms(1)
    have "err = None" "ms = map message_for ds" by auto
    then show ?thesis by (simp add: message_for_def ds_def GenerateDispatches_def comp_def)
  qed
  have stored: "GetRun (env_uuid E k) (sv_runs S2) = Inr r' \<and> run_State r' = RunInProgress
      \<and> run_ParticipatingClients r' = allowed" if "err = None"
    using st(6) that by (auto simp: sent_run_def)
  have trig: "TriggerWorkflow E send publish wid reason (k, S)
      = after_publishing (Some r', err) (if err = None then Some (run_started E k w) else None) (k + 1, S2) publish" for publish
    using st(1) by (simp add: after_publishing_def run_started_def wid split: option.split)
  have "sv_enf S2 = sv_enf S" using st(4) by (simp add: runs_and_outbox_only_def)
  with trig st(5) ms(1) to sent stored show ?thesis by blast
qed

text \<open>C5. What triggering an active workflow sends. Once the workflow is read and its clients
  are selected, and whatever then fails in the database or on the connection, the new messages are dispatches of the new run that go, under the client's subject, to
  target clients that no ban in the table blocks for the type, and a ban lookup that fails for any
  target client stops the trigger with an error before anything is sent or published. When the
  database answers and the run identifier is new, the run's participant rows are all the target
  clients, banned or not; and over a working connection every unbanned target client gets exactly one
  dispatch, in order, and the run is stored as in progress with the unbanned clients, before the
  completion event is published.\<close>

theorem trigger_sends_to_allowed_clients:
  assumes "cache_sound (sv_enf S)" and "server_sender send"
    and "GetWorkflow wid (sv_workflows S) = Inr w" and "wf_Active w"
    and "target_clients w (sv_clients S) = Inr ids"
    and "allowed = filter (\<lambda>c. \<not> spec_blocked (banned_keys (sv_enf S)) c (wf_WorkflowType w)) ids"
  shows "\<exists>ans ev k' S' ms.
    (\<forall>publish. TriggerWorkflow E send publish wid reason (k, S) = after_publishing ans ev (k', S') publish)
    \<and> ob_sent (sv_outbox S') = ob_sent (sv_outbox S) @ ms
    \<and> (\<forall>(subject, d) \<in> set ms. di_ClientID d \<in> set allowed \<and> di_RunID d = env_uuid E k
        \<and> subject = ''dispatch.'' @ di_ClientID d)
    \<and> banned_keys (sv_enf S') = banned_keys (sv_enf S)
    \<and> ((\<exists>c \<in> set ids. \<exists>e. IsBanned E (sv_enf S) c (wf_WorkflowType w) = Inl e)
        \<longrightarrow> ms = [] \<and> ev = None \<and> snd ans \<noteq> None)
    \<and> (trigger_ready E k S w \<longrightarrow> (\<exists>r. fst ans = Some r
        \<and> k' = k + 1 \<and> ev = (if snd ans = None then Some (run_started E k w) else None)
        \<and> {c. (env_uuid E k, c) \<in> set (rd_clients (sv_runs S'))} = set ids
        \<and> (can_send send w (sv_outbox S) \<longrightarrow> snd ans = None \<and> map (di_ClientID \<circ> snd) ms = allowed
            \<and> GetRun (env_uuid E k) (sv_runs S') = Inr r \<and> run_State r = RunInProgress
            \<and> run_ParticipatingClients r = allowed)))"
proof -
  have allowed: "allowed = allowed_clients (sv_enf S) (wf_WorkflowType w) ids"
    by (simp add: assms(6) allowed_clients_def)
  show ?thesis
  proof (cases "trigger_ready E k S w")
    case True
    obtain err r S' ms where t: "\<forall>publish. TriggerWorkflow E send publish wid reason (k, S)
          = after_publishing (Some r, err) (if err = None then Some (run_started E k w) else None) (k + 1, S') publish"
      "ob_sent (sv_outbox S') = ob_sent (sv_outbox S) @ ms" "sv_enf S' = sv_enf S"
      "set ms \<subseteq> {(''dispatch.'' @ c, d) | c d. c \<in> set allowed \<and> di_ClientID d = c \<and> di_RunID d = env_uuid E k}"
      "{c. (env_uuid E k, c) \<in> set (rd_clients (sv_runs S'))} = set ids"
      "can_send send w (sv_outbox S) \<longrightarrow> err = None \<and> map (di_ClientID \<circ> snd) ms = allowed"
      "err = None \<longrightarrow> GetRun (env_uuid E k) (sv_runs S') = Inr r \<and> run_State r = RunInProgress
        \<and> run_ParticipatingClients r = allowed"
      using TriggerWorkflow_ready [OF True assms(1-5) allowed, of reason] by blast
    have "IsBanned E (sv_enf S) c t \<noteq> Inl e" for c t e
      using True IsBanned_healthy [OF assms(1)] by (simp add: trigger_ready_def healthy_server_def healthy_def)
    with t show ?thesis
      by (intro exI [of _ "(Some r, err)"] exI [of _ "if err = None then Some (run_started E k w) else None"]
          exI [of _ "k + 1"] exI [of _ S'] exI [of _ ms]) auto
  next
    case False
    with TriggerWorkflow_any [OF assms(1-5), of E reason k, folded allowed] show ?thesis by fastforce
  qed
qed

definition fleet_workflow :: workflow where
  "fleet_workflow = sample_workflow\<lparr>wf_TargetFilter := []\<rparr>"

definition fleet_server :: server where
  "fleet_server = empty_server\<lparr>sv_workflows := \<lparr>wd_rows = [fleet_workflow], wd_faults = no_faults\<rparr>,
     sv_clients := \<lparr>cd_rows = [sample_client\<lparr>cm_ClientID := ''c1''\<rparr>, sample_client\<lparr>cm_ClientID := ''c2''\<rparr>],
       cd_faults = no_faults\<rparr>, sv_enf := one_ban\<rparr>"

lemma fleet_server_ok: "healthy_server fleet_server" "tables_ok fleet_server" "cache_sound (sv_enf fleet_server)"
proof -
  show "healthy_server fleet_server"
    using empty_server_ok one_ban_eval(1) by (simp add: fleet_server_def healthy_server_def healthy_def)
  show "tables_ok fleet_server"
    using empty_server_ok by (simp add: fleet_server_def tables_ok_def)
  show "cache_sound (sv_enf fleet_server)"
    using one_ban_reachable by (simp add: fleet_server_def ban_reachable_sound)
qed

lemma fleet_server_rows:
  "GetWorkflow ''w1'' (sv_workflows fleet_server) = Inr fleet_workflow"
  "target_clients fleet_workflow (sv_clients fleet_server) = Inr [''c1'', ''c2'']"
  "wf_Active fleet_workflow" "wf_WorkflowType fleet_workflow = ''upgrade''"
  "ActivityType_IsValid (wf_Activity fleet_workflow)"
  "banned_keys (sv_enf fleet_server) = {(''c1'', ''upgrade'')}"
  by (simp_all add: fleet_server_def fleet_workflow_def GetWorkflow_def sample_workflow_def target_clients_def
      ListClients_def sample_client_def ActivityType_IsValid_iff one_ban_eval)

lemma sample_uuid: "env_uuid sample_env 0 = ''u0''"
proof -
  have "show_nat 0 = ''0''" by code_simp
  then show ?thesis by (simp add: sample_env_def)
qed

lemma fleet_can_send:
  "server_sender NATS_SendDispatch" "can_send NATS_SendDispatch fleet_workflow (sv_outbox fleet_server)"
  by (simp_all add: server_sender_def can_send_def connection_ok_def fleet_server_def
      empty_server_def fleet_workflow_def sample_workflow_def)

lemma fleet_trigger_ready: "trigger_ready sample_env 0 fleet_server fleet_workflow"
proof -
  have "wf_ID fleet_workflow = ''w1''" by (simp add: fleet_workflow_def sample_workflow_def)
  then show ?thesis
    using fleet_server_ok fleet_server_rows(5)
    by (simp add: trigger_ready_def sample_uuid) (simp add: fleet_server_def empty_server_def)
qed

text \<open>The same server after a restart with an empty cache, its ban lookups failing.\<close>

definition blind_server :: server where
  "blind_server = fleet_server\<lparr>sv_enf := one_ban\<lparr>en_blocker := None,
     en_bans := (en_bans one_ban)\<lparr>bd_faults := (\<lambda>_. Some (ErrMsg ''disk I/O error''))\<rparr>\<rparr>\<rparr>"

lemma blind_server_facts:
  "cache_sound (sv_enf blind_server)"
  "GetWorkflow ''w1'' (sv_workflows blind_server) = Inr fleet_workflow"
  "target_clients fleet_workflow (sv_clients blind_server) = Inr [''c1'', ''c2'']"
  "IsBanned sample_env (sv_enf blind_server) ''c1'' (wf_WorkflowType fleet_workflow) = Inl (ErrMsg ''disk I/O error'')"
  "ob_sent (sv_outbox blind_server) = []"
proof -
  have "all_permanent (en_bans one_ban)"
    using fleet_server_ok(3) by (simp add: fleet_server_def cache_sound_def)
  then show "cache_sound (sv_enf blind_server)"
    by (simp add: blind_server_def cache_sound_def cached_def all_permanent_def)
  show "GetWorkflow ''w1'' (sv_workflows blind_server) = Inr fleet_workflow"
    "target_clients fleet_workflow (sv_clients blind_server) = Inr [''c1'', ''c2'']"
    using fleet_server_rows(1,2) by (simp_all add: blind_server_def)
  show "IsBanned sample_env (sv_enf blind_server) ''c1'' (wf_WorkflowType fleet_workflow) = Inl (ErrMsg ''disk I/O error'')"
    by (simp add: blind_server_def IsBanned_def GetActiveBans_def)
  show "ob_sent (sv_outbox blind_server) = []"
    by (simp add: blind_server_def fleet_server_def empty_server_def)
qed

theorem trigger_sends_to_allowed_clients_witness:
  "(\<exists>r S' ms. TriggerWorkflow sample_env NATS_SendDispatch (\<lambda>_. Some) ''w1'' ''manual'' (0, fleet_server)
      = Some ((Some r, None), 1, S')
    \<and> map (di_ClientID \<circ> snd) ms = [''c2''] \<and> ob_sent (sv_outbox S') = ms \<and> GetRun ''u0'' (sv_runs S') = Inr r)
  \<and> (\<exists>r e k S'. TriggerWorkflow sample_env NATS_SendDispatch (\<lambda>_ _. None) ''w1'' ''manual'' (0, blind_server)
      = Some ((r, Some e), k, S') \<and> ob_sent (sv_outbox S') = [])"
proof
  note t = trigger_sends_to_allowed_clients [where E = sample_env and k = 0 and reason = "''manual''", OF _ _ _ _ _ refl]
  have "ob_sent (sv_outbox fleet_server) = []"
    by (simp add: fleet_server_def empty_server_def)
  moreover have "filter (\<lambda>c. \<not> spec_blocked (banned_keys (sv_enf fleet_server)) c (wf_WorkflowType fleet_workflow))
      [''c1'', ''c2''] = [''c2'']"
    by (simp add: fleet_server_rows spec_blocked_def)
  ultimately show "\<exists>r S' ms. TriggerWorkflow sample_env NATS_SendDispatch (\<lambda>_. Some) ''w1'' ''manual'' (0, fleet_server)
      = Some ((Some r, None), 1, S')
    \<and> map (di_ClientID \<circ> snd) ms = [''c2''] \<and> ob_sent (sv_outbox S') = ms \<and> GetRun ''u0'' (sv_runs S') = Inr r"
    using t [OF fleet_server_ok(3) fleet_can_send(1) fleet_server_rows(1,3,2)] fleet_can_send(2) fleet_trigger_ready
    by (auto simp: after_publishing_def sample_uuid)
  obtain ans ev k' S' ms where "TriggerWorkflow sample_env NATS_SendDispatch (\<lambda>_ _. None) ''w1'' ''manual'' (0, blind_server)
      = after_publishing ans ev (k', S') (\<lambda>_ _. None)"
    "ob_sent (sv_outbox S') = ms" "ms = [] \<and> ev = None \<and> snd ans \<noteq> None"
    using t [OF blind_server_facts(1) fleet_can_send(1) blind_server_facts(2) fleet_server_rows(3) blind_server_facts(3)]
      blind_server_facts(4,5) by (metis (no_types, lifting) list.set_intros(1) append_Nil)
  then show "\<exists>r e k S'. TriggerWorkflow sample_env NATS_SendDispatch (\<lambda>_ _. None) ''w1'' ''manual'' (0, blind_server)
      = Some ((r, Some e), k, S') \<and> ob_sent (sv_outbox S') = []"
    by (cases ans) (auto simp: after_publishing_def)
qed

end
