(* ===== verification/Triggers.thy ===== *)
theory Triggers
  imports Orchestration
begin

text \<open>
  Triggers: the cron evaluator (\<open>internal/adapters/trigger/cron_evaluator.go\<close>) and the
  coordination service (\<open>internal/core/services/trigger_coordination.go\<close>), which fires the
  scheduled workflows on every tick and, on every completion event, the workflows that wait for it.
  The completion event is published inside \<open>TriggerWorkflow\<close> and handled synchronously, so a
  trigger may set off others, which set off others: \<open>chain_trigger\<close> closes that loop, with the
  number of nested triggers as fuel and \<open>None\<close> for one that needs more.
\<close>

section \<open>The cron evaluator\<close>

text \<open>The cron library is an argument: \<open>parse\<close> reads an expression and yields the next time after a
  given one. The evaluator remembers the next time per workflow.\<close>

type_synonym cron_parser = "string \<Rightarrow> go_error + (time \<Rightarrow> time)"
type_synonym cron_state = "string \<rightharpoonup> time"

definition NewCronEvaluator :: cron_state where
  "NewCronEvaluator = Map.empty"

definition ShouldFire ::
  "cron_parser \<Rightarrow> string \<Rightarrow> trigger_spec \<Rightarrow> time \<Rightarrow> cron_state \<Rightarrow> (go_error + bool) \<times> cron_state" where
  "ShouldFire parse workflowID spec now e =
     (if tr_Kind spec \<noteq> TriggerScheduled \<or> tr_Cron spec = [] then (Inr False, e)
      else (case parse (tr_Cron spec) of
        Inl err \<Rightarrow> (Inl err, e)
      | Inr sched \<Rightarrow> (case e workflowID of
            None \<Rightarrow> (Inr False, e(workflowID \<mapsto> sched now))
          | Some nxt \<Rightarrow> if now < nxt then (Inr False, e)
              else (Inr True, e(workflowID \<mapsto> sched now)))))"

definition Cron_Reset :: "string \<Rightarrow> cron_state \<Rightarrow> cron_state" where
  "Cron_Reset workflowID e = e(workflowID := None)"

text \<open>The instants at which one workflow fires, over a sequence of evaluations.\<close>

fun cron_fires :: "cron_parser \<Rightarrow> string \<Rightarrow> trigger_spec \<Rightarrow> time list \<Rightarrow> cron_state \<Rightarrow> time list" where
  "cron_fires parse wid spec [] e = []"
| "cron_fires parse wid spec (now # ticks) e = (case ShouldFire parse wid spec now e of
     (res, e') \<Rightarrow> (if res = Inr True then [now] else []) @ cron_fires parse wid spec ticks e')"

text \<open>A schedule never fires twice for one slot, however often it is evaluated, and not at all before
  the slot that follows its first evaluation; slots that pass between two evaluations fire once.\<close>

lemma cron_fires_apart:
  assumes "parse (tr_Cron spec) = Inr sched"
  shows "successively (\<lambda>s t. sched s \<le> t) (cron_fires parse wid spec ticks e)
    \<and> (\<forall>nxt. e wid = Some nxt \<longrightarrow> cron_fires parse wid spec ticks e = [] \<or> nxt \<le> hd (cron_fires parse wid spec ticks e))"
proof (induction ticks arbitrary: e)
  case (Cons now ticks)
  define e' where "e' = e(wid \<mapsto> sched now)"
  have "e' wid = Some (sched now)" by (simp add: e'_def)
  with Cons.IH [of e'] have next_slot: "successively (\<lambda>s t. sched s \<le> t) (cron_fires parse wid spec ticks e')"
    "cron_fires parse wid spec ticks e' = [] \<or> sched now \<le> hd (cron_fires parse wid spec ticks e')"
    by blast+
  note same = Cons.IH [of e]
  show ?case
  proof (cases "tr_Kind spec \<noteq> TriggerScheduled \<or> tr_Cron spec = []")
    case True
    with same show ?thesis by (simp add: ShouldFire_def)
  next
    case False
    note fire = ShouldFire_def [of parse wid spec now e, unfolded assms]
    show ?thesis
    proof (cases "e wid")
      case None
      with False next_slot show ?thesis by (simp add: fire flip: e'_def)
    next
      case (Some nxt)
      with False next_slot same show ?thesis by (auto simp: fire successively_Cons simp flip: e'_def)
    qed
  qed
qed simp

lemma cron_fires_not_at_first: "e wid = None \<Longrightarrow> cron_fires parse wid spec [now] e = []"
  by (auto simp: ShouldFire_def split: sum.split)

section \<open>Firing workflows\<close>

type_synonym trigger_fn = "string \<Rightarrow> string \<Rightarrow> orch_state \<Rightarrow> ((run option \<times> go_error option) \<times> orch_state) option"

text \<open>The error of a fired workflow is only logged.\<close>

definition fire :: "trigger_fn \<Rightarrow> workflow \<Rightarrow> string \<Rightarrow> orch_state \<Rightarrow> orch_state option" where
  "fire trig w reason st = map_option snd (trig (wf_ID w) reason st)"

fun evaluate_triggers ::
  "cron_parser \<Rightarrow> trigger_fn \<Rightarrow> time \<Rightarrow> workflow list \<Rightarrow> cron_state \<Rightarrow> orch_state
     \<Rightarrow> (cron_state \<times> orch_state) option" where
  "evaluate_triggers parse trig now [] e st = Some (e, st)"
| "evaluate_triggers parse trig now (w # ws) e st =
     (if tr_Kind (wf_Trigger w) \<noteq> TriggerScheduled \<or> tr_Cron (wf_Trigger w) = []
      then evaluate_triggers parse trig now ws e st
      else (case ShouldFire parse (wf_ID w) (wf_Trigger w) now e of
        (Inl _, e) \<Rightarrow> evaluate_triggers parse trig now ws e st
      | (Inr False, e) \<Rightarrow> evaluate_triggers parse trig now ws e st
      | (Inr True, e) \<Rightarrow> (case fire trig w ''scheduled'' st of
            None \<Rightarrow> None
          | Some st \<Rightarrow> evaluate_triggers parse trig now ws e st)))"

definition evaluate ::
  "cron_parser \<Rightarrow> trigger_fn \<Rightarrow> time \<Rightarrow> cron_state \<Rightarrow> orch_state \<Rightarrow> (cron_state \<times> orch_state) option" where
  "evaluate parse trig now e st = (case ListActiveWorkflows (sv_workflows (snd st)) of
     Inl _ \<Rightarrow> Some (e, st)
   | Inr wfs \<Rightarrow> evaluate_triggers parse trig now wfs e st)"

text \<open>\<open>loop\<close>: the ticks the ticker delivers before the context is cancelled, each with what triggering
  does at that moment.\<close>

fun trigger_loop ::
  "cron_parser \<Rightarrow> (time \<times> trigger_fn) list \<Rightarrow> cron_state \<Rightarrow> orch_state \<Rightarrow> (cron_state \<times> orch_state) option" where
  "trigger_loop parse [] e st = Some (e, st)"
| "trigger_loop parse ((now, trig) # ticks) e st = (case evaluate parse trig now e st of
     None \<Rightarrow> None
   | Some (e, st) \<Rightarrow> trigger_loop parse ticks e st)"

fun fire_waiting :: "trigger_fn \<Rightarrow> string \<Rightarrow> workflow list \<Rightarrow> orch_state \<Rightarrow> orch_state option" where
  "fire_waiting trig completed [] st = Some st"
| "fire_waiting trig completed (w # ws) st =
     (if tr_Kind (wf_Trigger w) \<noteq> TriggerEvent then fire_waiting trig completed ws st
      else if tr_OnComplete (wf_Trigger w) = [] \<or> tr_OnComplete (wf_Trigger w) \<noteq> completed
        then fire_waiting trig completed ws st
      else (case fire trig w (''event:'' @ completed) st of
        None \<Rightarrow> None
      | Some st \<Rightarrow> fire_waiting trig completed ws st))"

definition onWorkflowCompleted :: "trigger_fn \<Rightarrow> event \<Rightarrow> orch_state \<Rightarrow> (go_error option \<times> orch_state) option" where
  "onWorkflowCompleted trig evt st = (case evt of
     WorkflowCompletionEvent workflowID _ _ _ _ \<Rightarrow>
       (case ListActiveWorkflows (sv_workflows (snd st)) of
          Inl e \<Rightarrow> Some (Some e, st)
        | Inr wfs \<Rightarrow> map_option (Pair None) (fire_waiting trig workflowID wfs st))
   | _ \<Rightarrow> Some (None, st))"

text \<open>The bus as \<open>Start\<close> leaves it: the service is the one subscriber of \<open>workflow.completed\<close>.\<close>

definition completed_bus ::
  "(event \<Rightarrow> orch_state \<Rightarrow> (go_error option \<times> orch_state) option) \<Rightarrow> event \<Rightarrow> orch_state \<Rightarrow> orch_state option" where
  "completed_bus handler evt st =
     (if EventType evt = ''workflow.completed'' then map_option snd (handler evt st) else Some st)"

fun chain_trigger :: "env \<Rightarrow> sender \<Rightarrow> nat \<Rightarrow> trigger_fn" where
  "chain_trigger E send 0 wid reason st = None"
| "chain_trigger E send (Suc n) wid reason st =
     TriggerWorkflow E send (completed_bus (onWorkflowCompleted (chain_trigger E send n))) wid reason st"

section \<open>Nested triggers\<close>

text \<open>What an invariant of the state needs to survive a trigger and everything it sets off.\<close>

lemma fire_waiting_keeps:
  assumes "\<And>wid reason st x st'. P st \<Longrightarrow> trig wid reason st = Some (x, st') \<Longrightarrow> P st'"
  shows "P st \<Longrightarrow> fire_waiting trig completed ws st = Some st' \<Longrightarrow> P st'"
proof (induction ws arbitrary: st)
  case (Cons w ws)
  show ?case
  proof (cases "tr_Kind (wf_Trigger w) \<noteq> TriggerEvent \<or> tr_OnComplete (wf_Trigger w) = []
      \<or> tr_OnComplete (wf_Trigger w) \<noteq> completed")
    case True
    then have "fire_waiting trig completed (w # ws) st = fire_waiting trig completed ws st" by auto
    with Cons show ?thesis by metis
  next
    case False
    with Cons.prems obtain x st1 where "trig (wf_ID w) (''event:'' @ completed) st = Some (x, st1)"
      "fire_waiting trig completed ws st1 = Some st'"
      by (auto simp: fire_def split: option.splits)
    with assms Cons show ?thesis by blast
  qed
qed simp

lemma completed_bus_keeps:
  assumes "\<And>wid reason st x st'. P st \<Longrightarrow> trig wid reason st = Some (x, st') \<Longrightarrow> P st'"
    and "P st" and "completed_bus (onWorkflowCompleted trig) evt st = Some st'"
  shows "P st'"
proof -
  have "P st'" if "fire_waiting trig completed ws st = Some st'" for completed ws
    using fire_waiting_keeps [of P trig st completed ws st'] assms(1,2) that by blast
  then show ?thesis
    using assms(2,3)
    by (auto simp: completed_bus_def onWorkflowCompleted_def split: if_splits event.splits sum.splits)
qed

text \<open>A trigger reads the workflows and never writes them.\<close>

lemma SendDispatches_workflows:
  "SendDispatches E send r w ids S = (x, r', S') \<Longrightarrow> sv_workflows S' = sv_workflows S"
  by (auto simp: SendDispatches_def Let_def split: sum.splits prod.splits option.splits)

lemma TriggerWorkflow_cases:
  obtains (returned) x k' S' where
      "\<And>publish. TriggerWorkflow E send publish wid reason (k, S) = Some (x, k', S')"
      "sv_workflows S' = sv_workflows S"
  | (published) r t s S' where
      "\<And>publish. TriggerWorkflow E send publish wid reason (k, S) = map_option (Pair (Some r, None))
        (publish (WorkflowCompletionEvent wid t (run_RunID r) s (env_now E)) (k + 1, S'))"
      "sv_workflows S' = sv_workflows S"
proof (cases "GetWorkflow wid (sv_workflows S)")
  case (Inr w)
  have wid: "wf_ID w = wid" using Inr GetWorkflow_InrD by blast
  note unfold = TriggerWorkflow_def Let_def prod.case Inr sum.case
  show ?thesis
  proof (cases "Workflow_IsActive w")
    case active: True
    show ?thesis
    proof (cases "target_clients w (sv_clients S)")
      case ids: (Inr ids)
      define r where "r = new_run E k w ids reason"
      note r_eq = new_run_def [symmetric, of E k w ids reason, folded r_def]
      obtain c db where c: "CreateRun r (sv_runs S) = (c, db)" by fastforce
      obtain a b e r' S' where s: "SendDispatches E send r w ids (S\<lparr>sv_runs := db\<rparr>) = ((a, b, e), r', S')"
        by (metis surj_pair)
      from SendDispatches_workflows [OF s] have same: "sv_workflows S' = sv_workflows S" by simp
      show ?thesis
      proof (cases c)
        case (Inl err)
        have "\<And>publish. TriggerWorkflow E send publish wid reason (k, S) = Some ((None, Some err), k + 1, S\<lparr>sv_runs := db\<rparr>)"
          using Inl s c active ids by (simp add: unfold r_eq)
        then show ?thesis by (rule returned) simp
      next
        case (Inr u)
        show ?thesis
        proof (cases e)
          case None
          have "\<And>publish. TriggerWorkflow E send publish wid reason (k, S) = map_option (Pair (Some r', None))
            (publish (WorkflowCompletionEvent (wf_ID w) (wf_WorkflowType w) (run_RunID r') (run_State r') (env_now E)) (k + 1, S'))"
            using Inr None s c active ids by (simp add: unfold r_eq)
          then show ?thesis using same unfolding wid by (rule published)
        next
          case (Some err)
          have "\<And>publish. TriggerWorkflow E send publish wid reason (k, S) = Some ((Some r', Some err), k + 1, S')"
            using Inr Some s c active ids by (simp add: unfold r_eq)
          then show ?thesis using same by (rule returned)
        qed
      qed
    qed (use active in \<open>auto simp: unfold intro: returned\<close>)
  qed (auto simp: unfold intro: returned)
qed (auto simp: TriggerWorkflow_def intro: returned)

lemma chain_trigger_workflows:
  "chain_trigger E send n wid reason st = Some (x, st') \<Longrightarrow> sv_workflows (snd st') = sv_workflows (snd st)"
proof (induction n arbitrary: wid reason st x st')
  case (Suc n)
  obtain k S where st: "st = (k, S)" by fastforce
  let ?bus = "completed_bus (onWorkflowCompleted (chain_trigger E send n))"
  have bus: "sv_workflows (snd st2) = sv_workflows S" if "?bus evt st1 = Some st2" "sv_workflows (snd st1) = sv_workflows S"
    for evt st1 st2
    by (rule completed_bus_keeps [of "\<lambda>st. sv_workflows (snd st) = sv_workflows S", OF _ that(2,1)])
      (use Suc.IH in auto)
  show ?case
  proof (cases rule: TriggerWorkflow_cases [of E send wid reason k S])
    case (returned x k' S')
    with Suc.prems show ?thesis by (auto simp: st)
  next
    case (published r t s S')
    with Suc.prems obtain st1 where "?bus (WorkflowCompletionEvent wid t (run_RunID r) s (env_now E)) (k + 1, S') = Some st'"
      by (auto simp: st)
    from bus [OF this] published(2) show ?thesis by (simp add: st)
  qed
qed simp

text \<open>More fuel never changes an answer.\<close>

lemma fire_waiting_mono:
  assumes "\<And>wid reason st y. trig wid reason st = Some y \<Longrightarrow> trig' wid reason st = Some y"
  shows "fire_waiting trig v ws st = Some st' \<Longrightarrow> fire_waiting trig' v ws st = Some st'"
proof (induction ws arbitrary: st)
  case (Cons w ws)
  show ?case
  proof (cases "tr_Kind (wf_Trigger w) \<noteq> TriggerEvent \<or> tr_OnComplete (wf_Trigger w) = []
      \<or> tr_OnComplete (wf_Trigger w) \<noteq> v")
    case True
    then have "fire_waiting f v (w # ws) st = fire_waiting f v ws st" for f by auto
    with Cons show ?thesis by metis
  next
    case False
    with Cons.prems obtain x st1 where "trig (wf_ID w) (''event:'' @ v) st = Some (x, st1)"
      "fire_waiting trig v ws st1 = Some st'"
      by (auto simp: fire_def split: option.splits)
    moreover have "trig' (wf_ID w) (''event:'' @ v) st = Some (x, st1)" by (rule assms) fact
    ultimately show ?thesis using Cons.IH False by (auto simp: fire_def)
  qed
qed simp

lemma chain_trigger_Suc:
  "chain_trigger E send n wid reason st = Some y \<Longrightarrow> chain_trigger E send (Suc n) wid reason st = Some y"
proof (induction n arbitrary: wid reason st y)
  case (Suc n)
  obtain k S where st: "st = (k, S)" by fastforce
  let ?bus = "\<lambda>n. completed_bus (onWorkflowCompleted (chain_trigger E send n))"
  have bus: "?bus (Suc n) evt st1 = Some st2" if "?bus n evt st1 = Some st2" for evt st1 st2
    using that
    by (auto simp: completed_bus_def onWorkflowCompleted_def simp del: chain_trigger.simps
        split: if_splits event.splits sum.splits
        intro: fire_waiting_mono [where trig = "chain_trigger E send n", OF Suc.IH])
  show ?case
  proof (cases rule: TriggerWorkflow_cases [of E send wid reason k S])
    case (returned x k' S')
    with Suc.prems show ?thesis by (simp add: st)
  next
    case (published r t s S')
    with Suc.prems bus show ?thesis by (auto simp: st simp del: chain_trigger.simps(2)) (auto simp: published)
  qed
qed simp

lemma chain_trigger_mono:
  assumes "chain_trigger E send n wid reason st = Some y" and "n \<le> m"
  shows "chain_trigger E send m wid reason st = Some y"
  using assms(2) by (induction m rule: dec_induct) (rule assms(1), rule chain_trigger_Suc)


section \<open>Chains that end\<close>

definition triggered_by :: "workflow \<Rightarrow> string \<Rightarrow> bool" where
  "triggered_by w v \<longleftrightarrow> tr_Kind (wf_Trigger w) = TriggerEvent \<and> tr_OnComplete (wf_Trigger w) = v \<and> v \<noteq> []"

lemma fire_waiting_step:
  "fire_waiting trig v (w # ws) st =
     (if triggered_by w v then Option.bind (fire trig w (''event:'' @ v) st) (fire_waiting trig v ws)
      else fire_waiting trig v ws st)"
  by (auto simp: triggered_by_def split: option.split)

definition chain_ranked :: "(string \<Rightarrow> nat) \<Rightarrow> workflow_db \<Rightarrow> bool" where
  "chain_ranked rank db \<longleftrightarrow> (\<forall>w \<in> set (wd_rows db). \<forall>v. triggered_by w v \<longrightarrow> rank (wf_ID w) < rank v)"

lemma fire_waiting_returns:
  assumes "\<And>w st. w \<in> set ws \<Longrightarrow> triggered_by w v \<Longrightarrow> sv_workflows (snd st) = db \<Longrightarrow>
      trig (wf_ID w) (''event:'' @ v) st \<noteq> None"
    and "\<And>wid reason st x st'. trig wid reason st = Some (x, st') \<Longrightarrow> sv_workflows (snd st') = sv_workflows (snd st)"
  shows "sv_workflows (snd st) = db \<Longrightarrow> fire_waiting trig v ws st \<noteq> None"
  using assms(1)
proof (induction ws arbitrary: st)
  case (Cons w ws)
  show ?case
  proof (cases "triggered_by w v")
    case True
    then obtain x st' where t: "trig (wf_ID w) (''event:'' @ v) st = Some (x, st')"
      using Cons.prems(1) Cons.prems(2) [of w st] by auto
    with assms(2) [OF t] Cons.prems(1) have "sv_workflows (snd st') = db" by simp
    with Cons.IH [of st'] Cons.prems(2) True t show ?thesis
      by (auto simp: fire_waiting_step fire_def simp del: fire_waiting.simps)
  next
    case False
    with Cons.IH [of st] Cons.prems show ?thesis by (auto simp: fire_waiting_step simp del: fire_waiting.simps)
  qed
qed simp

lemma active_workflows_rows:
  "ListActiveWorkflows db = Inr ws \<Longrightarrow> set ws = {w \<in> set (wd_rows db). wf_Active w}"
  by (auto simp: ListActiveWorkflows_def split: option.splits)

lemma chain_trigger_ranked:
  assumes "\<And>w v. w \<in> set (wd_rows db) \<Longrightarrow> wf_Active w \<Longrightarrow> triggered_by w v \<Longrightarrow> rank (wf_ID w) < rank v"
  shows "sv_workflows (snd st) = db \<Longrightarrow> rank wid < n \<Longrightarrow> chain_trigger E send n wid reason st \<noteq> None"
proof (induction n arbitrary: wid reason st)
  case (Suc n)
  obtain k S where st: "st = (k, S)" by fastforce
  let ?bus = "completed_bus (onWorkflowCompleted (chain_trigger E send n))"
  show ?case
  proof (cases rule: TriggerWorkflow_cases [of E send wid reason k S])
    case (returned x k' S')
    then show ?thesis by (simp add: st)
  next
    case (published r t s S')
    let ?st = "(k + 1, S')"
    have "fire_waiting (chain_trigger E send n) wid ws ?st \<noteq> None" if "ListActiveWorkflows db = Inr ws" for ws
    proof (rule fire_waiting_returns [where db = db])
      show "chain_trigger E send n (wf_ID w) (''event:'' @ wid) st' \<noteq> None"
        if "w \<in> set ws" "triggered_by w wid" "sv_workflows (snd st') = db" for w st'
        using Suc.IH [OF that(3)] assms [OF _ _ that(2)] that(1) active_workflows_rows [OF \<open>ListActiveWorkflows db = Inr ws\<close>]
          Suc.prems(2) by force
    qed (use published(2) Suc.prems(1) st chain_trigger_workflows in auto)
    then have "?bus (WorkflowCompletionEvent wid t (run_RunID r) s (env_now E)) ?st \<noteq> None"
      using published(2) Suc.prems(1) st
      by (auto simp: completed_bus_def onWorkflowCompleted_def split: sum.split)
    then show ?thesis by (simp add: st published(1))
  qed
qed simp

section \<open>Chains that never end\<close>

lemma send_loop_connection:
  assumes "server_sender send"
  shows "ob_publish (snd (snd (send_loop send ds sent ob))) = ob_publish ob
    \<and> ob_flush (snd (snd (send_loop send ds sent ob))) = ob_flush ob"
proof (induction ds arbitrary: sent ob)
  case (Cons d ds)
  obtain e ob1 where s: "send d ob = (e, ob1)" by fastforce
  have "ob_publish ob1 = ob_publish ob \<and> ob_flush ob1 = ob_flush ob"
    using assms s by (auto simp: server_sender_def NATS_SendDispatch_def Channel_SendDispatch_def Let_def
        split: if_splits option.splits)
  with Cons [of sent ob] Cons [of "sent @ [d]" ob1] s show ?case by (auto split: option.split)
qed simp

text \<open>The invariant of a chain: \<open>P\<close> is a condition on the connection that sending keeps.\<close>

definition chain_ready :: "env \<Rightarrow> (outbox \<Rightarrow> bool) \<Rightarrow> workflow_db \<Rightarrow> client_db \<Rightarrow> orch_state \<Rightarrow> bool" where
  "chain_ready E P W C st \<longleftrightarrow> healthy_server (snd st) \<and> tables_ok (snd st) \<and> cache_sound (sv_enf (snd st))
     \<and> sv_workflows (snd st) = W \<and> sv_clients (snd st) = C
     \<and> (\<forall>j \<ge> fst st. env_uuid E j \<notin> run_RunID ` set (rd_runs (sv_runs (snd st))))
     \<and> P (sv_outbox (snd st))"

definition sending_keeps :: "sender \<Rightarrow> (outbox \<Rightarrow> bool) \<Rightarrow> bool" where
  "sending_keeps send P \<longleftrightarrow> (\<forall>ds ob. P ob \<longrightarrow> P (snd (snd (send_loop send ds [] ob))))"

definition chain_runs :: "workflow_db \<Rightarrow> client_db \<Rightarrow> string \<Rightarrow> bool" where
  "chain_runs W C wid \<longleftrightarrow> (\<exists>w ids. GetWorkflow wid W = Inr w \<and> wf_Active w \<and> target_clients w C = Inr ids)"

definition all_sendable :: "sender \<Rightarrow> workflow_db \<Rightarrow> outbox \<Rightarrow> bool" where
  "all_sendable send W ob \<longleftrightarrow> (\<forall>w \<in> set (wd_rows W). can_send send w ob)"

lemma all_sendable_keeps: "sending_keeps send (all_sendable send W)"
proof (unfold sending_keeps_def all_sendable_def, intro allI impI ballI)
  fix ds ob w
  assume "\<forall>w \<in> set (wd_rows W). can_send send w ob" and "w \<in> set (wd_rows W)"
  then have can: "can_send send w ob" by blast
  then have "server_sender send" by (auto simp: can_send_def server_sender_def)
  from send_loop_connection [OF this, of ds "[]" ob] can show "can_send send w (snd (snd (send_loop send ds [] ob)))"
    by (auto simp: can_send_def connection_ok_def)
qed

text \<open>One trigger of a chain: it returns on its own, or it publishes its event, and it does publish
  when the workflow is active, its targets can be found and its dispatches can be sent.\<close>

lemma TriggerWorkflow_publishes:
  assumes ready: "chain_ready E P W C st" and "inj (env_uuid E)" and keeps: "sending_keeps send P"
  shows "\<exists>st'. chain_ready E P W C st' \<and>
     ((\<exists>x. TriggerWorkflow E send publish wid reason st = Some (x, st'))
        \<and> \<not> (chain_runs W C wid \<and> all_sendable send W (sv_outbox (snd st)))
      \<or> (\<exists>r t u. TriggerWorkflow E send publish wid reason st = map_option (Pair (Some r, None))
            (publish (WorkflowCompletionEvent wid t u RunInProgress (env_now E)) st')))"
proof -
  obtain k S where st: "st = (k, S)" by fastforce
  have S: "healthy_server S" "tables_ok S" "cache_sound (sv_enf S)" "sv_workflows S = W" "sv_clients S = C"
    and new: "\<And>j. k \<le> j \<Longrightarrow> env_uuid E j \<notin> run_RunID ` set (rd_runs (sv_runs S))" and P: "P (sv_outbox S)"
    using ready by (auto simp: chain_ready_def st)
  show ?thesis
  proof (cases "chain_runs W C wid")
    case True
    then obtain w ids where w: "GetWorkflow wid W = Inr w" "wf_Active w" "target_clients w C = Inr ids"
      by (auto simp: chain_runs_def)
    have row: "w \<in> set (wd_rows W)" using w(1) GetWorkflow_InrD by blast
    define r where "r = new_run E k w ids reason"
    define al where "al = allowed_clients (sv_enf S) (wf_WorkflowType w) ids"
    obtain err r' S2 where s: "\<And>publish. TriggerWorkflow E send publish wid reason (k, S) = (case err of
        Some e \<Rightarrow> Some ((Some r', Some e), k + 1, S2)
      | None \<Rightarrow> map_option (Pair (Some r', None)) (publish (WorkflowCompletionEvent wid (wf_WorkflowType w)
          (env_uuid E k) RunInProgress (env_now E)) (k + 1, S2)))"
      "err = fst (send_loop send (GenerateDispatches E r w al) [] (sv_outbox S))"
      "sv_outbox S2 = snd (snd (send_loop send (GenerateDispatches E r w al) [] (sv_outbox S)))"
      "runs_and_outbox_only S S2" "tables_ok S2" "healthy_server S2"
      "run_RunID ` set (rd_runs (sv_runs S2)) = insert (env_uuid E k) (run_RunID ` set (rd_runs (sv_runs S)))"
      by (rule TriggerWorkflow_steps [OF S(1,2,3) w(1) [folded S(4)] w(2) w(3) [folded S(5)] new [OF le_refl] r_def al_def,
          of send]) (rule that; assumption)
    have "P (sv_outbox S2)" using keeps P unfolding s(3) sending_keeps_def by blast
    then have ready2: "chain_ready E P W C (k + 1, S2)"
      using S s(4-7) new
      by (auto simp: chain_ready_def runs_and_outbox_only_def Suc_le_eq dest: injD [OF assms(2)])
    show ?thesis
    proof (cases err)
      case None
      then have "TriggerWorkflow E send publish wid reason st = map_option (Pair (Some r', None))
          (publish (WorkflowCompletionEvent wid (wf_WorkflowType w) (env_uuid E k) RunInProgress (env_now E)) (k + 1, S2))"
        using s(1) by (simp add: st)
      with ready2 show ?thesis by blast
    next
      case (Some e)
      then have "TriggerWorkflow E send publish wid reason st = Some ((Some r', Some e), k + 1, S2)"
        using s(1) by (simp add: st)
      moreover have "\<not> all_sendable send W (sv_outbox (snd st))"
      proof
        assume "all_sendable send W (sv_outbox (snd st))"
        with row have "can_send send w (sv_outbox S)" by (simp add: all_sendable_def st)
        from send_loop_can [OF this, of E r al] s(2) Some show False by auto
      qed
      ultimately show ?thesis using ready2 by blast
    qed
  next
    case False
    have "\<exists>x. TriggerWorkflow E send publish wid reason st = Some (x, st)"
      using False
      by (cases "GetWorkflow wid W"; cases "target_clients (projr (GetWorkflow wid W)) C")
        (auto simp: st TriggerWorkflow_def S Workflow_IsActive_def chain_runs_def)
    with ready False show ?thesis by blast
  qed
qed

lemma chain_trigger_ready:
  assumes "inj (env_uuid E)" and "sending_keeps send P"
  shows "chain_trigger E send n wid reason st = Some (x, st') \<Longrightarrow> chain_ready E P W C st \<Longrightarrow> chain_ready E P W C st'"
proof (induction n arbitrary: wid reason st x st')
  case (Suc n)
  let ?bus = "completed_bus (onWorkflowCompleted (chain_trigger E send n))"
  have bus: "chain_ready E P W C st2" if "?bus evt st1 = Some st2" "chain_ready E P W C st1" for evt st1 st2
    by (rule completed_bus_keeps [of "chain_ready E P W C", OF _ that(2,1)]) (rule Suc.IH)
  from TriggerWorkflow_publishes [OF Suc.prems(2) assms, of ?bus wid reason] show ?case
  proof (elim disjE exE conjE)
    fix st1 y assume "TriggerWorkflow E send ?bus wid reason st = Some (y, st1)" "chain_ready E P W C st1"
    with Suc.prems show ?thesis by simp
  next
    fix st1 r t u
    assume st1: "chain_ready E P W C st1" and "TriggerWorkflow E send ?bus wid reason st
      = map_option (Pair (Some r, None)) (?bus (WorkflowCompletionEvent wid t u RunInProgress (env_now E)) st1)"
    with Suc.prems(1) have "?bus (WorkflowCompletionEvent wid t u RunInProgress (env_now E)) st1 = Some st'" by auto
    then show ?thesis by (rule bus [OF _ st1])
  qed
qed simp

text \<open>Once a listed workflow that is waiting does not return, neither does the handler.\<close>

lemma fire_waiting_stuck:
  assumes "\<And>wid reason st x st'. P st \<Longrightarrow> trig wid reason st = Some (x, st') \<Longrightarrow> P st'"
    and "\<And>reason st. P st \<Longrightarrow> trig (wf_ID w) reason st = None" and "triggered_by w v"
  shows "P st \<Longrightarrow> w \<in> set ws \<Longrightarrow> fire_waiting trig v ws st = None"
proof (induction ws arbitrary: st)
  case (Cons a ws)
  show ?case
  proof (cases "triggered_by a v")
    case True
    show ?thesis
    proof (cases "trig (wf_ID a) (''event:'' @ v) st")
      case (Some y)
      obtain x st1 where y: "y = (x, st1)" by (cases y)
      have "P st1" using assms(1) [OF Cons.prems(1)] Some y by blast
      moreover have "a \<noteq> w" using assms(2) [OF Cons.prems(1)] Some by auto
      ultimately show ?thesis
        using Cons Some y True by (simp add: fire_waiting_step fire_def del: fire_waiting.simps)
    qed (simp add: True fire_waiting_step fire_def del: fire_waiting.simps)
  next
    case False
    with Cons.prems assms(3) have "w \<in> set ws" by auto
    with Cons.IH [OF Cons.prems(1)] False show ?thesis by (simp add: fire_waiting_step del: fire_waiting.simps)
  qed
qed simp

lemma chain_trigger_stuck:
  assumes "inj (env_uuid E)" and "wd_faults W = no_faults"
    and runs: "\<And>v. v \<in> K \<Longrightarrow> chain_runs W C v"
    and cycle: "\<And>v. v \<in> K \<Longrightarrow> \<exists>w \<in> set (wd_rows W). wf_Active w \<and> triggered_by w v \<and> wf_ID w \<in> K"
  shows "v \<in> K \<Longrightarrow> chain_ready E (all_sendable send W) W C st \<Longrightarrow> chain_trigger E send n v reason st = None"
proof (induction n arbitrary: v reason st)
  case (Suc n)
  let ?trig = "chain_trigger E send n"
  let ?bus = "completed_bus (onWorkflowCompleted ?trig)"
  from cycle [OF Suc.prems(1)] obtain w where w: "w \<in> set (wd_rows W)" "wf_Active w" "triggered_by w v" "wf_ID w \<in> K"
    by blast
  obtain ws where ws: "ListActiveWorkflows W = Inr ws" using assms(2) by (simp add: ListActiveWorkflows_def)
  from TriggerWorkflow_publishes [OF Suc.prems(2) assms(1) all_sendable_keeps, of ?bus v reason] runs [OF Suc.prems(1)] Suc.prems(2)
  obtain r st1 t u where tr: "TriggerWorkflow E send ?bus v reason st = map_option (Pair (Some r, None))
        (?bus (WorkflowCompletionEvent v t u RunInProgress (env_now E)) st1)" and st1: "chain_ready E (all_sendable send W) W C st1"
    unfolding chain_ready_def by blast
  have "fire_waiting ?trig v ws st1 = None"
  proof (rule fire_waiting_stuck [where P = "chain_ready E (all_sendable send W) W C" and w = w])
    show "w \<in> set ws" using w active_workflows_rows [OF ws] by simp
  qed (use chain_trigger_ready [OF assms(1) all_sendable_keeps] Suc.IH [OF w(4)] w(3) st1 in auto)
  then have "?bus (WorkflowCompletionEvent v t u RunInProgress (env_now E)) st1 = None"
    using st1 ws by (simp add: completed_bus_def onWorkflowCompleted_def chain_ready_def)
  with tr show ?case by simp
qed simp

section \<open>Properties\<close>

text \<open>C16. Chains of triggers end when they go downhill: whatever fails on the way, if some rank of the
  identifiers decreases from a workflow to every active workflow its completion fires, a trigger
  returns, nested at most as deep as the rank of its workflow, with one answer however much deeper
  the stack could grow, and it has changed no workflow.\<close>

theorem trigger_chain_ends:
  assumes "\<forall>w \<in> set (wd_rows (sv_workflows S)). \<forall>v. wf_Active w \<and> triggered_by w v \<longrightarrow> rank (wf_ID w) < rank v"
  shows "\<exists>res k' S'. sv_workflows S' = sv_workflows S
    \<and> (\<forall>n > rank wid. chain_trigger E send n wid reason (k, S) = Some (res, k', S'))"
proof -
  have "chain_trigger E send (Suc (rank wid)) wid reason (k, S) \<noteq> None"
    by (rule chain_trigger_ranked [where rank = rank]) (use assms in auto)
  then obtain res k' S' where y: "chain_trigger E send (Suc (rank wid)) wid reason (k, S) = Some (res, k', S')"
    by (metis not_None_eq surj_pair)
  with chain_trigger_workflows [OF y] chain_trigger_mono [OF y] show ?thesis
    by (intro exI [of _ res] exI [of _ k'] exI [of _ S']) auto
qed

definition follows :: "workflow \<Rightarrow> string \<Rightarrow> string \<Rightarrow> workflow" where
  "follows w k v = w\<lparr>wf_ID := k, wf_Trigger := \<lparr>tr_Kind = TriggerEvent, tr_Cron = [], tr_OnComplete = v,
     tr_Condition = [], tr_Params = []\<rparr>\<rparr>"

definition chain_server :: "workflow list \<Rightarrow> server" where
  "chain_server ws = fleet_server\<lparr>sv_workflows := \<lparr>wd_rows = ws, wd_faults = no_faults\<rparr>\<rparr>"

lemma follows_simps:
  "triggered_by (follows w k v) u \<longleftrightarrow> u = v \<and> v \<noteq> []" "wf_ID (follows w k v) = k"
  "wf_Active (follows w k v) = wf_Active w" "wf_TargetFilter (follows w k v) = wf_TargetFilter w"
  "wf_Params (follows w k v) = wf_Params w"
  by (auto simp: follows_def triggered_by_def)

theorem trigger_chain_ends_witness:
  "\<exists>res k' S'. chain_trigger sample_env NATS_SendDispatch 2 ''w1'' ''manual''
     (0, chain_server [fleet_workflow, follows fleet_workflow ''w2'' ''w1'']) = Some (res, k', S')"
proof -
  have "\<not> triggered_by fleet_workflow v" for v
    by (simp add: triggered_by_def fleet_workflow_def sample_workflow_def)
  then show ?thesis
    using trigger_chain_ends [of "chain_server [fleet_workflow, follows fleet_workflow ''w2'' ''w1'']"
        "\<lambda>w. if w = ''w1'' then 1 else 0" "''w1''" sample_env NATS_SendDispatch "''manual''" 0]
    by (auto simp: chain_server_def follows_simps)
qed

text \<open>C17. And a cycle never ends: on a healthy server with a working dispatcher, if every workflow of
  a set is active, can be triggered and is waited for by an active workflow of the set, triggering
  one of them does not return at any depth of nesting. The completion event is published when the
  dispatches have left, and nothing bounds or remembers the chain.\<close>

theorem trigger_cycle_never_returns:
  assumes "healthy_server S" and "tables_ok S" and "cache_sound (sv_enf S)"
    and "inj (env_uuid E)" and "\<forall>j \<ge> k. env_uuid E j \<notin> run_RunID ` set (rd_runs (sv_runs S))"
    and "\<forall>w \<in> set (wd_rows (sv_workflows S)). can_send send w (sv_outbox S)"
    and "\<forall>v \<in> K. \<exists>w ids. GetWorkflow v (sv_workflows S) = Inr w \<and> wf_Active w
      \<and> target_clients w (sv_clients S) = Inr ids"
    and "\<forall>v \<in> K. \<exists>w \<in> set (wd_rows (sv_workflows S)). wf_Active w \<and> triggered_by w v \<and> wf_ID w \<in> K"
    and "wid \<in> K"
  shows "chain_trigger E send n wid reason (k, S) = None"
proof (rule chain_trigger_stuck [OF assms(4) _ _ _ assms(9)])
  show "chain_ready E (all_sendable send (sv_workflows S)) (sv_workflows S) (sv_clients S) (k, S)"
    using assms(1-3,5,6) by (simp add: chain_ready_def all_sendable_def)
  show "wd_faults (sv_workflows S) = no_faults" using assms(1) by (simp add: healthy_server_def)
  show "chain_runs (sv_workflows S) (sv_clients S) v" if "v \<in> K" for v
    using assms(7) that by (simp add: chain_runs_def)
  show "\<exists>w \<in> set (wd_rows (sv_workflows S)). wf_Active w \<and> triggered_by w v \<and> wf_ID w \<in> K" if "v \<in> K" for v
    using assms(8) that by blast
qed

theorem trigger_cycle_never_returns_witness:
  "chain_trigger \<lparr>env_now = 1, env_uuid = \<lambda>k. replicate k CHR ''u''\<rparr> NATS_SendDispatch 100 ''w1'' ''manual''
     (0, chain_server [follows fleet_workflow ''w1'' ''w2'', follows fleet_workflow ''w2'' ''w1'']) = None"
proof (rule trigger_cycle_never_returns [where K = "{''w1'', ''w2''}"])
  let ?S = "chain_server [follows fleet_workflow ''w1'' ''w2'', follows fleet_workflow ''w2'' ''w1'']"
  note defs = chain_server_def follows_simps fleet_server_rows
  show "healthy_server ?S" "tables_ok ?S" "cache_sound (sv_enf ?S)"
    using fleet_server_ok by (simp_all add: healthy_server_def tables_ok_def defs)
  show "inj (env_uuid \<lparr>env_now = 1, env_uuid = \<lambda>k. replicate k CHR ''u''\<rparr>)"
    by (auto intro!: injI dest: arg_cong [where f = length])
  show "\<forall>j \<ge> 0. env_uuid \<lparr>env_now = 1, env_uuid = \<lambda>k. replicate k CHR ''u''\<rparr> j \<notin> run_RunID ` set (rd_runs (sv_runs ?S))"
    by (simp add: chain_server_def fleet_server_def empty_server_def)
  show "\<forall>w \<in> set (wd_rows (sv_workflows ?S)). can_send NATS_SendDispatch w (sv_outbox ?S)"
    by (simp add: can_send_def connection_ok_def defs fleet_server_def empty_server_def fleet_workflow_def sample_workflow_def)
  have targets: "target_clients (follows fleet_workflow v u) (sv_clients ?S) = Inr [''c1'', ''c2'']" for v u
    using fleet_server_rows(2) by (simp add: target_clients_def defs fleet_workflow_def)
  then show "\<forall>v \<in> {''w1'', ''w2''}. \<exists>w ids. GetWorkflow v (sv_workflows ?S) = Inr w \<and> wf_Active w
      \<and> target_clients w (sv_clients ?S) = Inr ids"
    by (simp add: GetWorkflow_def defs)
  show "\<forall>v \<in> {''w1'', ''w2''}. \<exists>w \<in> set (wd_rows (sv_workflows ?S)). wf_Active w \<and> triggered_by w v \<and> wf_ID w \<in> {''w1'', ''w2''}"
    by (simp add: defs)
qed simp

end
