(* ===== verification/Api.thy ===== *)
theory Api
  imports Triggers Result_Handling
begin

text \<open>
  The HTTP interface: the coordinator \<open>internal/core/services/api_handler.go\<close> and the handlers of
  \<open>internal/adapters/http/server.go\<close>. A response is the status and the value given to the JSON
  encoder. The handlers start from decoded requests, a body being \<open>None\<close> when it does not decode; how
  a path and a body become such a request is in \<open>Requests\<close>.
\<close>

section \<open>The API service\<close>

definition Api_CreateWorkflow :: "env \<Rightarrow> create_request \<Rightarrow> server \<Rightarrow> (go_error + workflow) \<times> server" where
  "Api_CreateWorkflow E req S = (case CreateWorkflow E req (sv_workflows S) of
     (r, db) \<Rightarrow> (r, S\<lparr>sv_workflows := db\<rparr>))"

definition Api_EditWorkflow :: "env \<Rightarrow> string \<Rightarrow> edit_request \<Rightarrow> server \<Rightarrow> (go_error + workflow) \<times> server" where
  "Api_EditWorkflow E wid req S = (case EditWorkflow E wid req (sv_workflows S) of
     (r, db) \<Rightarrow> (r, S\<lparr>sv_workflows := db\<rparr>))"

definition Api_DeleteWorkflow :: "string \<Rightarrow> server \<Rightarrow> (go_error + unit) \<times> server" where
  "Api_DeleteWorkflow wid S = (case Orch_DeleteWorkflow wid (sv_workflows S) of
     (r, db) \<Rightarrow> (r, S\<lparr>sv_workflows := db\<rparr>))"

definition Api_ActivateWorkflow :: "env \<Rightarrow> string \<Rightarrow> server \<Rightarrow> (go_error + workflow) \<times> server" where
  "Api_ActivateWorkflow E wid S = (case Orch_ActivateWorkflow E wid (sv_workflows S) of
     (Inl e, db) \<Rightarrow> (Inl e, S\<lparr>sv_workflows := db\<rparr>)
   | (Inr _, db) \<Rightarrow> (GetWorkflow wid db, S\<lparr>sv_workflows := db\<rparr>))"

definition Api_DeactivateWorkflow :: "env \<Rightarrow> string \<Rightarrow> server \<Rightarrow> (go_error + workflow) \<times> server" where
  "Api_DeactivateWorkflow E wid S = (case Orch_DeactivateWorkflow E wid (sv_workflows S) of
     (Inl e, db) \<Rightarrow> (Inl e, S\<lparr>sv_workflows := db\<rparr>)
   | (Inr _, db) \<Rightarrow> (GetWorkflow wid db, S\<lparr>sv_workflows := db\<rparr>))"

definition Api_GetWorkflow :: "string \<Rightarrow> server \<Rightarrow> go_error + workflow" where
  "Api_GetWorkflow wid S = GetWorkflow wid (sv_workflows S)"

definition Api_ListWorkflows :: "server \<Rightarrow> go_error + workflow list" where
  "Api_ListWorkflows S = ListAllWorkflows (sv_workflows S)"

definition Api_TriggerWorkflow :: "trigger_fn \<Rightarrow> trigger_fn" where
  "Api_TriggerWorkflow trig wid reason st = trig wid reason st"

definition Api_GetClient :: "string \<Rightarrow> server \<Rightarrow> go_error + client_metadata" where
  "Api_GetClient cid S = GetClientByID cid (sv_clients S)"

definition Api_ListClients :: "server \<Rightarrow> go_error + client_metadata list" where
  "Api_ListClients S = ListClients (sv_clients S)"

definition Api_GetRun :: "string \<Rightarrow> server \<Rightarrow> go_error + run" where
  "Api_GetRun rid S = GetRun rid (sv_runs S)"

definition Api_ListRuns :: "string \<Rightarrow> int64 \<Rightarrow> server \<Rightarrow> go_error + run list" where
  "Api_ListRuns wid limit S = ListRuns wid limit (sv_runs S)"

definition Api_ListAllRuns :: "int64 \<Rightarrow> int64 \<Rightarrow> server \<Rightarrow> go_error + run list" where
  "Api_ListAllRuns limit offset S = ListAllRuns limit offset (sv_runs S)"

definition Api_GetRunResults :: "string \<Rightarrow> server \<Rightarrow> go_error + result list" where
  "Api_GetRunResults rid S = GetRunResults rid (sv_results S)"

definition Api_GetHealth :: "string \<Rightarrow> server \<Rightarrow> go_error + type_health" where
  "Api_GetHealth t S = GetCurrentHealth t S"

definition Api_GetBans :: "string \<Rightarrow> server \<Rightarrow> go_error + ban_record list" where
  "Api_GetBans cid S = GetBans cid (en_bans (sv_enf S))"

definition Api_ListAllBans :: "server \<Rightarrow> go_error + ban_record list" where
  "Api_ListAllBans S = ListAllBans (en_bans (sv_enf S))"

definition Api_UnbanClient :: "env \<Rightarrow> string \<Rightarrow> unban_request \<Rightarrow> server \<Rightarrow> (go_error + unit) \<times> server" where
  "Api_UnbanClient E cid req S = (case UnbanRequest_Validate req of
     Some e \<Rightarrow> (Inl e, S)
   | None \<Rightarrow> (case UnbanClient E cid (ub_WorkflowType req) (ub_AdminID req) (ub_Reason req) (sv_enf S) of
       (r, enf) \<Rightarrow> (r, S\<lparr>sv_enf := enf\<rparr>)))"

definition Api_GetCircuitState :: "string \<Rightarrow> server \<Rightarrow> go_error + breaker" where
  "Api_GetCircuitState wid S = Service_GetCircuitState wid S"

definition Api_ListCircuitStates :: "server \<Rightarrow> go_error + breaker list" where
  "Api_ListCircuitStates S = Service_ListCircuitStates S"

record system_status =
  ss_Uptime :: duration
  ss_UptimeSec :: int64
  ss_DBStatus :: string
  ss_NATSStatus :: string
  ss_StartedAt :: time
  ss_Goroutines :: int64

text \<open>\<open>Duration.Seconds\<close>: whole seconds plus the fraction, in binary64; \<open>int64(x)\<close> of a float cuts
  towards zero.\<close>

definition Seconds :: "duration \<Rightarrow> float64" where
  "Seconds d = (let n = sint d; sec = (if n < 0 then - ((- n) div 1000000000) else n div 1000000000);
      nsec = n - sec * 1000000000
    in fadd (f64_of_int sec) (fdiv (f64_of_int nsec) (f64_of_int 1000000000)))"

definition int64_of_f64 :: "float64 \<Rightarrow> int64" where
  "int64_of_f64 f = (case f of
     FFin x \<Rightarrow> word_of_int (if x < 0 then - \<lfloor>- x\<rfloor> else \<lfloor>x\<rfloor>)
   | _ \<Rightarrow> word_of_int min_int64)"

definition Api_SystemStatus :: "env \<Rightarrow> time \<Rightarrow> int64 \<Rightarrow> bool \<Rightarrow> bool \<Rightarrow> system_status" where
  "Api_SystemStatus E startedAt goroutines natsConnected dbHealthy =
     (let uptime = Time_Sub (env_now E) startedAt;
          dbStatus = (if \<not> dbHealthy then ''unhealthy'' else ''healthy'');
          natsStatus = (if \<not> natsConnected then ''disconnected'' else ''connected'')
      in \<lparr>ss_Uptime = uptime, ss_UptimeSec = int64_of_f64 (Seconds uptime), ss_DBStatus = dbStatus,
          ss_NATSStatus = natsStatus, ss_StartedAt = startedAt, ss_Goroutines = goroutines\<rparr>)"

section \<open>Responses\<close>

datatype document =
    ErrorDoc api_error
  | WorkflowDoc workflow
  | ClientDoc client_metadata
  | RunDoc run
  | ResultDoc result
  | HealthDoc type_health
  | BanDoc ban_record
  | BreakerDoc breaker
  | AlertDoc alert
  | StatusDoc system_status
  | TextDoc "(string \<times> string) list"
  | FlagDoc "(string \<times> bool) list"
  | SuccessDoc string

text \<open>A list comes with its length; the bodies are written after the status.\<close>

datatype body = NoBody | Document document | Items "document list" int

type_synonym response = "int \<times> body"

definition writeJSON :: "int \<Rightarrow> body \<Rightarrow> response" where
  "writeJSON status b = (status, b)"

definition writeError :: "go_error \<Rightarrow> response" where
  "writeError err = (let apiErr = toAPIError (Some err) in writeJSON (GetHTTPStatus apiErr) (Document (ErrorDoc apiErr)))"

definition invalid_JSON :: response where
  "invalid_JSON = writeError (NewAPIError ''BAD_REQUEST'' ''invalid JSON'')"

definition answer_one :: "int \<Rightarrow> ('a \<Rightarrow> document) \<Rightarrow> go_error + 'a \<Rightarrow> response" where
  "answer_one status f r = (case r of Inl e \<Rightarrow> writeError e | Inr x \<Rightarrow> writeJSON status (Document (f x)))"

definition answer_list :: "('a \<Rightarrow> document) \<Rightarrow> go_error + 'a list \<Rightarrow> response" where
  "answer_list f r = (case r of
     Inl e \<Rightarrow> writeError e | Inr xs \<Rightarrow> writeJSON 200 (Items (map f xs) (int (length xs))))"

section \<open>Handlers\<close>

definition createWorkflow :: "env \<Rightarrow> create_request option \<Rightarrow> server \<Rightarrow> response \<times> server" where
  "createWorkflow E req S = (case req of
     None \<Rightarrow> (invalid_JSON, S)
   | Some req \<Rightarrow> (case Api_CreateWorkflow E req S of (r, S) \<Rightarrow> (answer_one 201 WorkflowDoc r, S)))"

definition listWorkflows :: "server \<Rightarrow> response" where
  "listWorkflows S = answer_list WorkflowDoc (Api_ListWorkflows S)"

definition getWorkflow :: "string \<Rightarrow> server \<Rightarrow> response" where
  "getWorkflow wid S = answer_one 200 WorkflowDoc (Api_GetWorkflow wid S)"

definition editWorkflow :: "env \<Rightarrow> string \<Rightarrow> edit_request option \<Rightarrow> server \<Rightarrow> response \<times> server" where
  "editWorkflow E wid req S = (case req of
     None \<Rightarrow> (invalid_JSON, S)
   | Some req \<Rightarrow> (case Api_EditWorkflow E wid req S of (r, S) \<Rightarrow> (answer_one 200 WorkflowDoc r, S)))"

definition deleteWorkflow :: "string \<Rightarrow> server \<Rightarrow> response \<times> server" where
  "deleteWorkflow wid S = (case Api_DeleteWorkflow wid S of
     (Inl e, S) \<Rightarrow> (writeError e, S) | (Inr _, S) \<Rightarrow> ((204, NoBody), S))"

text \<open>The reason is what the decoder left in the request: empty when there is no body.\<close>

definition triggerWorkflow :: "trigger_fn \<Rightarrow> string \<Rightarrow> string \<Rightarrow> orch_state \<Rightarrow> (response \<times> orch_state) option" where
  "triggerWorkflow trig wid reason st = map_option (\<lambda>((run, err), st). (case err of
     Some e \<Rightarrow> (writeError e, st)
   | None \<Rightarrow> (writeJSON 200 (case run of None \<Rightarrow> NoBody | Some r \<Rightarrow> Document (RunDoc r)), st)))
     (Api_TriggerWorkflow trig wid reason st)"

definition activateWorkflow :: "env \<Rightarrow> string \<Rightarrow> server \<Rightarrow> response \<times> server" where
  "activateWorkflow E wid S = (case Api_ActivateWorkflow E wid S of (r, S) \<Rightarrow> (answer_one 200 WorkflowDoc r, S))"

definition deactivateWorkflow :: "env \<Rightarrow> string \<Rightarrow> server \<Rightarrow> response \<times> server" where
  "deactivateWorkflow E wid S = (case Api_DeactivateWorkflow E wid S of (r, S) \<Rightarrow> (answer_one 200 WorkflowDoc r, S))"

text \<open>\<open>strconv.Atoi\<close>: the value, which on a range error is the nearest one and on a syntax error
  0, and whether there was no error. The handlers use the value alone.\<close>

definition Atoi :: "string \<Rightarrow> int64 \<times> bool" where
  "Atoi s = (let neg = (s \<noteq> [] \<and> hd s = CHR ''-'');
      ds = (if s \<noteq> [] \<and> (hd s = CHR ''-'' \<or> hd s = CHR ''+'') then tl s else s);
      n = (if neg then - int (nat_of_digits ds) else int (nat_of_digits ds))
    in if ds = [] \<or> \<not> list_all is_ascii_digit ds then (0, False)
       else if n < min_int64 then (word_of_int min_int64, False)
       else if max_int64 < n then (word_of_int max_int64, False)
       else (word_of_int n, True))"

definition query_limit :: "string \<Rightarrow> int64" where
  "query_limit s = (let limit = fst (Atoi s) in if sint limit \<le> 0 then 50 else limit)"

definition listAllRuns :: "string \<Rightarrow> string \<Rightarrow> server \<Rightarrow> response" where
  "listAllRuns limit offset S = (let limit = query_limit limit; offset = fst (Atoi offset) in
     answer_list RunDoc (Api_ListAllRuns limit offset S))"

definition listRuns :: "string \<Rightarrow> string \<Rightarrow> server \<Rightarrow> response" where
  "listRuns wid limit S = (let limit = query_limit limit in answer_list RunDoc (Api_ListRuns wid limit S))"

definition listClients :: "server \<Rightarrow> response" where
  "listClients S = answer_list ClientDoc (Api_ListClients S)"

definition getClient :: "string \<Rightarrow> server \<Rightarrow> response" where
  "getClient cid S = answer_one 200 ClientDoc (Api_GetClient cid S)"

definition getRun :: "string \<Rightarrow> server \<Rightarrow> response" where
  "getRun rid S = answer_one 200 RunDoc (Api_GetRun rid S)"

definition getRunResults :: "string \<Rightarrow> server \<Rightarrow> response" where
  "getRunResults rid S = answer_list ResultDoc (Api_GetRunResults rid S)"

definition listAllHealth :: "server \<Rightarrow> response" where
  "listAllHealth S = answer_list HealthDoc (ListAllWorkflowTypeHealths (sv_health S))"

definition getHealth :: "string \<Rightarrow> server \<Rightarrow> response" where
  "getHealth t S = answer_one 200 HealthDoc (Api_GetHealth t S)"

definition liveness :: response where
  "liveness = writeJSON 200 (Document (TextDoc [(''status'', ''alive'')]))"

text \<open>The two probes are functions that may be nil.\<close>

definition probe :: "bool option \<Rightarrow> bool" where
  "probe p = (p = None \<or> the p)"

definition readiness :: "bool option \<Rightarrow> bool option \<Rightarrow> response" where
  "readiness DBHealthy NATSConnected = (let dbOk = probe DBHealthy; natsOk = probe NATSConnected in
     if \<not> dbOk \<or> \<not> natsOk then writeJSON 503 (Document (FlagDoc [(''db'', dbOk), (''nats'', natsOk)]))
     else writeJSON 200 (Document (TextDoc [(''status'', ''ready'')])))"

definition listBans :: "server \<Rightarrow> response" where
  "listBans S = answer_list BanDoc (Api_ListAllBans S)"

definition getClientBans :: "string \<Rightarrow> server \<Rightarrow> response" where
  "getClientBans cid S = answer_list BanDoc (Api_GetBans cid S)"

definition unbanClient :: "env \<Rightarrow> string \<Rightarrow> unban_request option \<Rightarrow> server \<Rightarrow> response \<times> server" where
  "unbanClient E cid req S = (case req of
     None \<Rightarrow> (invalid_JSON, S)
   | Some req \<Rightarrow> (case Api_UnbanClient E cid req S of
       (r, S) \<Rightarrow> (answer_one 200 (\<lambda>_. SuccessDoc cid) r, S)))"

definition listCircuitStates :: "server \<Rightarrow> response" where
  "listCircuitStates S = answer_list BreakerDoc (Api_ListCircuitStates S)"

definition getCircuitState :: "string \<Rightarrow> server \<Rightarrow> response" where
  "getCircuitState wid S = answer_one 200 BreakerDoc (Api_GetCircuitState wid S)"

definition systemStatus :: "env \<Rightarrow> time \<Rightarrow> int64 \<Rightarrow> bool option \<Rightarrow> bool option \<Rightarrow> response" where
  "systemStatus E startedAt goroutines DBHealthy NATSConnected = (let dbOk = probe DBHealthy; natsOk = probe NATSConnected in
     writeJSON 200 (Document (StatusDoc (Api_SystemStatus E startedAt goroutines natsOk dbOk))))"

definition listAlerts :: "server \<Rightarrow> response" where
  "listAlerts S = (case en_alerts (sv_enf S) of
     None \<Rightarrow> writeJSON 200 (Items [] 0)
   | Some p \<Rightarrow> (let alerts = GetAlerts p in writeJSON 200 (Items (map AlertDoc alerts) (int (length alerts)))))"

section \<open>Routes\<close>

datatype request =
    CreateWorkflowReq "create_request option"
  | ListWorkflowsReq
  | GetWorkflowReq string
  | EditWorkflowReq string "edit_request option"
  | DeleteWorkflowReq string
  | TriggerReq string string
  | ActivateReq string
  | DeactivateReq string
  | ListRunsReq string string
  | ListClientsReq
  | GetClientReq string
  | ListAllRunsReq string string
  | GetRunReq string
  | GetRunResultsReq string
  | ListAllHealthReq
  | GetHealthReq string
  | LivenessReq
  | ReadinessReq
  | ListBansReq
  | GetClientBansReq string
  | UnbanReq string "unban_request option"
  | ListCircuitStatesReq
  | GetCircuitStateReq string
  | SystemStatusReq
  | ListAlertsReq

record deps =
  dp_startedAt :: time
  dp_goroutines :: int64
  dp_DBHealthy :: "bool option"
  dp_NATSConnected :: "bool option"

text \<open>One request at the instant of \<open>E\<close>; \<open>None\<close> when the handler does not return. This is the level of the
  handlers: the router's own 404 and 405 for a path or method it does not know are not here.\<close>

fun serve :: "env \<Rightarrow> deps \<Rightarrow> trigger_fn \<Rightarrow> request \<Rightarrow> server \<Rightarrow> (response \<times> server) option" where
  "serve E dp trig (CreateWorkflowReq req) S = Some (createWorkflow E req S)"
| "serve E dp trig ListWorkflowsReq S = Some (listWorkflows S, S)"
| "serve E dp trig (GetWorkflowReq wid) S = Some (getWorkflow wid S, S)"
| "serve E dp trig (EditWorkflowReq wid req) S = Some (editWorkflow E wid req S)"
| "serve E dp trig (DeleteWorkflowReq wid) S = Some (deleteWorkflow wid S)"
| "serve E dp trig (TriggerReq wid reason) S =
     map_option (\<lambda>(resp, st). (resp, snd st)) (triggerWorkflow trig wid reason (0, S))"
| "serve E dp trig (ActivateReq wid) S = Some (activateWorkflow E wid S)"
| "serve E dp trig (DeactivateReq wid) S = Some (deactivateWorkflow E wid S)"
| "serve E dp trig (ListRunsReq wid limit) S = Some (listRuns wid limit S, S)"
| "serve E dp trig ListClientsReq S = Some (listClients S, S)"
| "serve E dp trig (GetClientReq cid) S = Some (getClient cid S, S)"
| "serve E dp trig (ListAllRunsReq limit offset) S = Some (listAllRuns limit offset S, S)"
| "serve E dp trig (GetRunReq rid) S = Some (getRun rid S, S)"
| "serve E dp trig (GetRunResultsReq rid) S = Some (getRunResults rid S, S)"
| "serve E dp trig ListAllHealthReq S = Some (listAllHealth S, S)"
| "serve E dp trig (GetHealthReq t) S = Some (getHealth t S, S)"
| "serve E dp trig LivenessReq S = Some (liveness, S)"
| "serve E dp trig ReadinessReq S = Some (readiness (dp_DBHealthy dp) (dp_NATSConnected dp), S)"
| "serve E dp trig ListBansReq S = Some (listBans S, S)"
| "serve E dp trig (GetClientBansReq cid) S = Some (getClientBans cid S, S)"
| "serve E dp trig (UnbanReq cid req) S = Some (unbanClient E cid req S)"
| "serve E dp trig ListCircuitStatesReq S = Some (listCircuitStates S, S)"
| "serve E dp trig (GetCircuitStateReq wid) S = Some (getCircuitState wid S, S)"
| "serve E dp trig SystemStatusReq S =
     Some (systemStatus E (dp_startedAt dp) (dp_goroutines dp) (dp_DBHealthy dp) (dp_NATSConnected dp), S)"
| "serve E dp trig ListAlertsReq S = Some (listAlerts S, S)"

section \<open>What a request leaves behind\<close>

lemma handler_states:
  "snd (createWorkflow E None S) = S"
  "snd (createWorkflow E (Some r) S) = S\<lparr>sv_workflows := snd (CreateWorkflow E r (sv_workflows S))\<rparr>"
  "snd (editWorkflow E wid None S) = S"
  "snd (editWorkflow E wid (Some q) S) = S\<lparr>sv_workflows := snd (EditWorkflow E wid q (sv_workflows S))\<rparr>"
  "snd (deleteWorkflow wid S) = S\<lparr>sv_workflows := snd (DeleteWorkflow wid (sv_workflows S))\<rparr>"
  "snd (activateWorkflow E wid S)
     = S\<lparr>sv_workflows := snd (UpdateWorkflowState E wid True ''manually activated'' (sv_workflows S))\<rparr>"
  "snd (deactivateWorkflow E wid S)
     = S\<lparr>sv_workflows := snd (UpdateWorkflowState E wid False ''manually deactivated'' (sv_workflows S))\<rparr>"
  "snd (unbanClient E cid None S) = S"
  "snd (unbanClient E cid (Some u) S) = (if UnbanRequest_Validate u = None
     then S\<lparr>sv_enf := snd (UnbanClient E cid (ub_WorkflowType u) (ub_AdminID u) (ub_Reason u) (sv_enf S))\<rparr> else S)"
  by (simp_all add: createWorkflow_def Api_CreateWorkflow_def editWorkflow_def Api_EditWorkflow_def deleteWorkflow_def
      Api_DeleteWorkflow_def Orch_DeleteWorkflow_def activateWorkflow_def Api_ActivateWorkflow_def Orch_ActivateWorkflow_def
      deactivateWorkflow_def Api_DeactivateWorkflow_def Orch_DeactivateWorkflow_def unbanClient_def Api_UnbanClient_def
      split: prod.split sum.split option.split)

lemma GetHTTPStatus_range: "GetHTTPStatus a \<in> {400, 403, 404, 409, 500}"
  by (simp add: GetHTTPStatus_def Let_def)

lemma writeError_status: "fst (writeError e) \<in> {400, 403, 404, 409, 500}"
  using GetHTTPStatus_range by (simp add: writeError_def writeJSON_def Let_def)

lemma answer_status:
  "fst (answer_one st f r) \<in> (case r of Inl _ \<Rightarrow> {400, 403, 404, 409, 500} | Inr _ \<Rightarrow> {st})"
  "fst (answer_list f' r') \<in> (case r' of Inl _ \<Rightarrow> {400, 403, 404, 409, 500} | Inr _ \<Rightarrow> {200})"
  using writeError_status
  by (simp_all add: answer_one_def answer_list_def writeJSON_def split: sum.split)

lemma answer_error: "400 \<le> fst (answer_one st f r) \<Longrightarrow> st < 400 \<Longrightarrow> \<exists>e. r = Inl e"
  using answer_status(1) [of st f r] by (cases r) auto

text \<open>An operation on the workflows that returns an error has changed nothing.\<close>

lemma SaveWorkflow_error: "SaveWorkflow E w db = (Inl e, w', db') \<Longrightarrow> db' = db"
  by (auto simp: SaveWorkflow_def Let_def split: option.splits)

lemma CreateWorkflow_error: "CreateWorkflow E r db = (Inl e, db') \<Longrightarrow> db' = db"
  by (auto simp: CreateWorkflow_def Let_def split: option.splits prod.splits sum.splits dest: SaveWorkflow_error)

lemma EditWorkflow_error: "EditWorkflow E wid q db = (Inl e, db') \<Longrightarrow> db' = db"
  by (auto simp: EditWorkflow_def Let_def split: option.splits prod.splits sum.splits dest: SaveWorkflow_error)

lemma DeleteWorkflow_error: "DeleteWorkflow wid db = (Inl e, db') \<Longrightarrow> db' = db"
proof -
  have "wd_rows db = filter (\<lambda>w. wf_ID w \<noteq> wid) (wd_rows db)" if "filter (\<lambda>w. wf_ID w = wid) (wd_rows db) = []"
    using that by (simp add: filter_empty_conv filter_id_conv)
  then show "DeleteWorkflow wid db = (Inl e, db') \<Longrightarrow> db' = db"
    by (auto simp: DeleteWorkflow_def Let_def split: option.splits if_splits)
qed

lemma UpdateWorkflowState_error: "UpdateWorkflowState E wid b why db = (Inl e, db') \<Longrightarrow> db' = db"
proof -
  have "map (\<lambda>w. if wf_ID w = wid then f w else w) (wd_rows db) = wd_rows db"
    if "filter (\<lambda>w. wf_ID w = wid) (wd_rows db) = []" for f
    using that by (intro map_idI) (auto simp: filter_empty_conv)
  then show "UpdateWorkflowState E wid b why db = (Inl e, db') \<Longrightarrow> db' = db"
    by (auto simp: UpdateWorkflowState_def Let_def split: option.splits if_splits)
qed

lemma UpdateWorkflowState_found:
  assumes "wd_faults db = no_faults" and "UpdateWorkflowState E wid b why db = (Inr u, db')"
  shows "\<exists>w. GetWorkflow wid db' = Inr w"
proof -
  let ?upd = "\<lambda>w. if wf_ID w = wid then workflow_state_row E b why w else w"
  have db': "db' = db\<lparr>wd_rows := map ?upd (wd_rows db)\<rparr>" and found: "\<exists>w \<in> set (wd_rows db). wf_ID w = wid"
    using assms by (auto simp: UpdateWorkflowState_def Let_def filter_empty_conv split: option.splits if_splits)
  have "wf_ID \<circ> ?upd = wf_ID" by (auto simp: fun_eq_iff)
  then have "map wf_ID (wd_rows db') = map wf_ID (wd_rows db)" by (simp add: db')
  then have "wf_ID ` set (wd_rows db') = wf_ID ` set (wd_rows db)" by (metis list.set_map)
  with found have "lookup_row wf_ID wid (wd_rows db') \<noteq> None" by (auto simp: lookup_row_None_iff)
  with assms(1) show ?thesis by (auto simp: GetWorkflow_def db')
qed

lemma workflow_update_same: "S\<lparr>sv_workflows := sv_workflows S\<rparr> = (S :: server)"
  by simp

lemma switch_error:
  assumes "wd_faults (sv_workflows S) = no_faults"
  shows "400 \<le> fst (fst (activateWorkflow E wid S)) \<Longrightarrow> snd (activateWorkflow E wid S) = S"
    "400 \<le> fst (fst (deactivateWorkflow E wid S)) \<Longrightarrow> snd (deactivateWorkflow E wid S) = S"
proof -
  have "db = sv_workflows S" if "UpdateWorkflowState E wid b why (sv_workflows S) = (r, db)"
    "400 \<le> fst (answer_one 200 WorkflowDoc (case r of Inl e \<Rightarrow> Inl e | Inr _ \<Rightarrow> GetWorkflow wid db))" for b why r db
  proof (cases r)
    case (Inl e)
    with UpdateWorkflowState_error that(1) show ?thesis by simp
  next
    case (Inr u)
    with that UpdateWorkflowState_found [OF assms, of E wid b why u db] show ?thesis
      by (auto simp: answer_one_def writeJSON_def)
  qed
  then show "400 \<le> fst (fst (activateWorkflow E wid S)) \<Longrightarrow> snd (activateWorkflow E wid S) = S"
    "400 \<le> fst (fst (deactivateWorkflow E wid S)) \<Longrightarrow> snd (deactivateWorkflow E wid S) = S"
    by (fastforce simp: activateWorkflow_def deactivateWorkflow_def Api_ActivateWorkflow_def Api_DeactivateWorkflow_def
        Orch_ActivateWorkflow_def Orch_DeactivateWorkflow_def split: prod.splits sum.splits)+
qed

definition status_codes :: "int set" where
  "status_codes = {200, 201, 204, 400, 403, 404, 409, 500, 503}"

lemma status_codes [simp]:
  "fst (writeError e) \<in> status_codes" "fst invalid_JSON \<in> status_codes"
  "fst (answer_one 200 f r) \<in> status_codes" "fst (answer_one 201 f r) \<in> status_codes"
  "fst (answer_list g q) \<in> status_codes" "fst (writeJSON 200 b) \<in> status_codes" "fst (writeJSON 503 b) \<in> status_codes"
  "204 \<in> status_codes"
proof -
  have codes: "{400, 403, 404, 409, 500} \<subseteq> status_codes" "200 \<in> status_codes" "201 \<in> status_codes" "503 \<in> status_codes"
    by (auto simp: status_codes_def)
  with writeError_status show err: "fst (writeError e) \<in> status_codes" for e by blast
  then show "fst invalid_JSON \<in> status_codes" by (simp add: invalid_JSON_def)
  show "fst (answer_one 200 f r) \<in> status_codes" "fst (answer_one 201 f r) \<in> status_codes"
    "fst (answer_list g q) \<in> status_codes"
    using codes err by (simp_all add: answer_one_def answer_list_def writeJSON_def split: sum.split)
  show "fst (writeJSON 200 b) \<in> status_codes" "fst (writeJSON 503 b) \<in> status_codes"
    using codes by (simp_all add: writeJSON_def)
  show "204 \<in> status_codes" by (simp add: status_codes_def)
qed

lemma handler_status:
  "fst (fst (createWorkflow E q S)) \<in> status_codes" "fst (fst (editWorkflow E wid e S)) \<in> status_codes"
  "fst (fst (deleteWorkflow wid S)) \<in> status_codes" "fst (fst (activateWorkflow E wid S)) \<in> status_codes"
  "fst (fst (deactivateWorkflow E wid S)) \<in> status_codes" "fst (fst (unbanClient E cid u S)) \<in> status_codes"
  by (simp_all add: createWorkflow_def editWorkflow_def deleteWorkflow_def activateWorkflow_def deactivateWorkflow_def
      unbanClient_def split: option.split prod.split sum.split)

lemma trigger_status: "triggerWorkflow trig wid reason st = Some (resp, st') \<Longrightarrow> fst resp \<in> status_codes"
proof -
  assume t: "triggerWorkflow trig wid reason st = Some (resp, st')"
  then obtain run err st1 where "Api_TriggerWorkflow trig wid reason st = Some ((run, err), st1)"
    by (auto simp: triggerWorkflow_def)
  with t show ?thesis by (cases err) (simp_all add: triggerWorkflow_def, (metis status_codes(1,6))+)
qed

lemma serve_status:
  assumes "serve E dp trig req S = Some (resp, S')"
  shows "fst resp \<in> status_codes"
proof (cases req)
  case (CreateWorkflowReq q)
  with assms handler_status(1) [of E q S] show ?thesis by simp
next
  case (EditWorkflowReq wid q)
  with assms handler_status(2) [of E wid q S] show ?thesis by simp
next
  case (DeleteWorkflowReq wid)
  with assms handler_status(3) [of wid S] show ?thesis by simp
next
  case (ActivateReq wid)
  with assms handler_status(4) [of E wid S] show ?thesis by simp
next
  case (DeactivateReq wid)
  with assms handler_status(5) [of E wid S] show ?thesis by simp
next
  case (UnbanReq cid q)
  with assms handler_status(6) [of E cid q S] show ?thesis by simp
next
  case (TriggerReq wid reason)
  with assms obtain st' where "triggerWorkflow trig wid reason (0, S) = Some (resp, st')" by auto
  then show ?thesis by (rule trigger_status)
qed (use assms in \<open>auto simp: listWorkflows_def getWorkflow_def listRuns_def listClients_def getClient_def
    listAllRuns_def getRun_def getRunResults_def listAllHealth_def getHealth_def liveness_def readiness_def listBans_def
    getClientBans_def listCircuitStates_def getCircuitState_def systemStatus_def listAlerts_def Let_def
    split: option.split\<close>)

lemma request_error:
  assumes "400 \<le> fst (fst p)"
  shows "p = createWorkflow E q S \<Longrightarrow> snd p = S" "p = editWorkflow E wid e S \<Longrightarrow> snd p = S"
    "p = deleteWorkflow wid S \<Longrightarrow> snd p = S" "p = unbanClient E cid u S \<Longrightarrow> snd p = S"
proof -
  have same: "S\<lparr>sv_workflows := sv_workflows S\<rparr> = S" "S\<lparr>sv_enf := sv_enf S\<rparr> = S" by simp_all
  show "snd p = S" if p: "p = createWorkflow E q S"
  proof (cases q)
    case (Some req)
    obtain r db where c: "CreateWorkflow E req (sv_workflows S) = (r, db)" by fastforce
    with p Some assms have "400 \<le> fst (answer_one 201 WorkflowDoc r)"
      by (simp add: createWorkflow_def Api_CreateWorkflow_def)
    then obtain err where "r = Inl err" using answer_error by fastforce
    with c CreateWorkflow_error have "db = sv_workflows S" by blast
    with c p Some show ?thesis by (simp add: handler_states)
  qed (simp add: p handler_states)
  show "snd p = S" if p: "p = editWorkflow E wid e S"
  proof (cases e)
    case (Some req)
    obtain r db where c: "EditWorkflow E wid req (sv_workflows S) = (r, db)" by fastforce
    with p Some assms have "400 \<le> fst (answer_one 200 WorkflowDoc r)"
      by (simp add: editWorkflow_def Api_EditWorkflow_def)
    then obtain err where "r = Inl err" using answer_error by fastforce
    with c EditWorkflow_error have "db = sv_workflows S" by blast
    with c p Some show ?thesis by (simp add: handler_states)
  qed (simp add: p handler_states)
  show "snd p = S" if p: "p = deleteWorkflow wid S"
  proof -
    obtain r db where c: "DeleteWorkflow wid (sv_workflows S) = (r, db)" by fastforce
    with p assms obtain err where "r = Inl err"
      by (cases r) (simp_all add: deleteWorkflow_def Api_DeleteWorkflow_def Orch_DeleteWorkflow_def)
    with c DeleteWorkflow_error have "db = sv_workflows S" by blast
    with c p show ?thesis by (simp add: handler_states)
  qed
  show "snd p = S" if p: "p = unbanClient E cid u S"
  proof (cases u)
    case (Some req)
    show ?thesis
    proof (cases "UnbanRequest_Validate req")
      case None
      obtain r enf where c: "UnbanClient E cid (ub_WorkflowType req) (ub_AdminID req) (ub_Reason req) (sv_enf S) = (r, enf)"
        by fastforce
      with p Some None assms have "400 \<le> fst (answer_one 200 (\<lambda>_. SuccessDoc cid) r)"
        by (simp add: unbanClient_def Api_UnbanClient_def)
      then obtain err where "r = Inl err" using answer_error by fastforce
      with c UnbanClient_error have "enf = sv_enf S" by blast
      with c p Some None show ?thesis by (simp add: handler_states)
    qed (simp add: p Some handler_states)
  qed (simp add: p handler_states)
qed

lemma serve_error_state:
  assumes "serve E dp trig req S = Some (resp, S')" and "healthy_server S"
    and "400 \<le> fst resp" and "\<And>wid reason. req \<noteq> TriggerReq wid reason"
  shows "S' = S"
proof (cases req)
  case (CreateWorkflowReq q)
  with assms have "(resp, S') = createWorkflow E q S" by simp
  from request_error(1) [OF _ this, unfolded fst_conv snd_conv] assms(3) show ?thesis by blast
next
  case (EditWorkflowReq wid q)
  with assms have "(resp, S') = editWorkflow E wid q S" by simp
  from request_error(2) [OF _ this, unfolded fst_conv snd_conv] assms(3) show ?thesis by blast
next
  case (DeleteWorkflowReq wid)
  with assms have "(resp, S') = deleteWorkflow wid S" by simp
  from request_error(3) [OF _ this, unfolded fst_conv snd_conv] assms(3) show ?thesis by blast
next
  case (UnbanReq cid u)
  with assms have "(resp, S') = unbanClient E cid u S" by simp
  from request_error(4) [OF _ this, unfolded fst_conv snd_conv] assms(3) show ?thesis by blast
next
  case (ActivateReq wid)
  with assms switch_error(1) [of S E wid] show ?thesis by (simp add: healthy_server_def)
next
  case (DeactivateReq wid)
  with assms switch_error(2) [of S E wid] show ?thesis by (simp add: healthy_server_def)
qed (use assms in auto)

lemma writeError_workflow_not_found:
  "writeError ErrWorkflowNotFound = (404, Document (ErrorDoc (''NOT_FOUND'', ''workflow not found'')))"
  by (simp add: writeError_def writeJSON_def toAPIError_def any_is_def GetHTTPStatus_def)

lemma serve_missing_workflow:
  assumes "wid \<notin> wf_ID ` set (wd_rows (sv_workflows S))" and "wd_faults (sv_workflows S) = no_faults"
    and "req \<in> {GetWorkflowReq wid, DeleteWorkflowReq wid, ActivateReq wid, DeactivateReq wid}"
    and "serve E dp trig req S = Some (resp, S')"
  shows "resp = writeError ErrWorkflowNotFound"
proof -
  have "filter (\<lambda>w. wf_ID w = wid) (wd_rows (sv_workflows S)) = []" and "GetWorkflow wid (sv_workflows S) = Inl ErrWorkflowNotFound"
    using assms(1,2) by (auto simp: filter_empty_conv GetWorkflow_def lookup_row_None_iff [THEN iffD2])
  with assms(2-4) show ?thesis
    by (auto simp: getWorkflow_def Api_GetWorkflow_def deleteWorkflow_def Api_DeleteWorkflow_def Orch_DeleteWorkflow_def
        DeleteWorkflow_def activateWorkflow_def Api_ActivateWorkflow_def Orch_ActivateWorkflow_def deactivateWorkflow_def
        Api_DeactivateWorkflow_def Orch_DeactivateWorkflow_def UpdateWorkflowState_def answer_one_def Let_def)
qed

section \<open>Properties\<close>

text \<open>C19. Errors of the interface: every answer of a handler has one of the nine status codes the code uses; on a
  healthy database a request (other than a trigger) that is answered with a status of 400 or more
  has changed nothing; and asking for, deleting, activating or deactivating a workflow that does
  not exist is answered 404 with code \<open>NOT_FOUND\<close>.\<close>

theorem error_answers_change_nothing:
  assumes "serve E dp trig req S = Some (resp, S')" and "healthy_server S"
  shows "fst resp \<in> {200, 201, 204, 400, 403, 404, 409, 500, 503}
    \<and> (400 \<le> fst resp \<and> (\<forall>wid reason. req \<noteq> TriggerReq wid reason) \<longrightarrow> S' = S)
    \<and> (\<forall>wid. wid \<notin> wf_ID ` set (wd_rows (sv_workflows S))
        \<and> req \<in> {GetWorkflowReq wid, DeleteWorkflowReq wid, ActivateReq wid, DeactivateReq wid}
        \<longrightarrow> resp = (404, Document (ErrorDoc (''NOT_FOUND'', ''workflow not found''))) \<and> S' = S)"
proof (intro conjI allI impI)
  show "fst resp \<in> {200, 201, 204, 400, 403, 404, 409, 500, 503}"
    using serve_status [OF assms(1)] by (simp add: status_codes_def)
  show "S' = S" if "400 \<le> fst resp \<and> (\<forall>wid reason. req \<noteq> TriggerReq wid reason)"
    using serve_error_state [OF assms] that by blast
  fix wid
  assume missing: "wid \<notin> wf_ID ` set (wd_rows (sv_workflows S))
    \<and> req \<in> {GetWorkflowReq wid, DeleteWorkflowReq wid, ActivateReq wid, DeactivateReq wid}"
  have wf: "wd_faults (sv_workflows S) = no_faults" using assms(2) by (simp add: healthy_server_def)
  from missing show resp: "resp = (404, Document (ErrorDoc (''NOT_FOUND'', ''workflow not found'')))"
    using serve_missing_workflow [OF _ wf _ assms(1), of wid] by (simp add: writeError_workflow_not_found)
  show "S' = S" using serve_error_state [OF assms] missing resp by auto
qed

definition sample_deps :: deps where
  "sample_deps = \<lparr>dp_startedAt = 0, dp_goroutines = 12, dp_DBHealthy = Some True, dp_NATSConnected = None\<rparr>"

theorem error_answers_change_nothing_witness:
  "\<exists>resp S'. serve sample_env sample_deps (\<lambda>_ _ _. None) (DeleteWorkflowReq ''w9'') fleet_server = Some (resp, S')
     \<and> fst resp = 404 \<and> S' = fleet_server"
proof -
  obtain resp S' where s: "serve sample_env sample_deps (\<lambda>_ _ _. None) (DeleteWorkflowReq ''w9'') fleet_server = Some (resp, S')"
    by (cases "deleteWorkflow ''w9'' fleet_server") simp
  have "''w9'' \<notin> wf_ID ` set (wd_rows (sv_workflows fleet_server))"
    by (simp add: fleet_server_def fleet_workflow_def sample_workflow_def)
  with error_answers_change_nothing [OF s fleet_server_ok(1)] s show ?thesis by auto
qed

end
