(* ===== verification/Server.thy ===== *)
theory Server
  imports Result_Pipeline Api
begin

text \<open>
  The server program (\<open>cmd/main.go\<close>): what it does on a registration message, on the ticks of its
  timers and at its start, and the server as a state machine whose steps are those, the requests of
  the interface and the result messages. The invariant of the machine adds to the consistency of
  the tables that event triggers never form a cycle.
\<close>

section \<open>Who waits for whom\<close>

text \<open>What decides whether chains end: per workflow its identifier, the kind of its trigger and the
  workflow it waits for.\<close>

definition links :: "workflow_db \<Rightarrow> (string \<times> trigger_kind \<times> string) set" where
  "links db = (\<lambda>w. (wf_ID w, tr_Kind (wf_Trigger w), tr_OnComplete (wf_Trigger w))) ` set (wd_rows db)"

definition mentioned :: "workflow_db \<Rightarrow> string set" where
  "mentioned db = (\<Union>(k, kind, v) \<in> links db. {k, v})"

definition linked_down :: "workflow_db \<Rightarrow> bool" where
  "linked_down db \<longleftrightarrow> (\<exists>rank. \<forall>(k, kind, v) \<in> links db. kind = TriggerEvent \<and> v \<noteq> [] \<longrightarrow> rank k < (rank v :: nat))"

text \<open>A trigger that is lost on the way to its row waits for nothing.\<close>

definition no_links :: "(string \<times> trigger_kind \<times> string) set" where
  "no_links = {(k, kind, v). kind = TriggerOther [] \<and> v = []}"

lemma linked_down_mono:
  assumes "linked_down db" and "links db' \<subseteq> links db \<union> no_links"
  shows "linked_down db'"
proof -
  from assms(1) obtain rank :: "string \<Rightarrow> nat"
    where "\<forall>(k, kind, v) \<in> links db. kind = TriggerEvent \<and> v \<noteq> [] \<longrightarrow> rank k < rank v"
    unfolding linked_down_def by blast
  with assms(2) show ?thesis unfolding linked_down_def no_links_def by (intro exI [of _ rank]) fastforce
qed

lemma linked_down_ranked:
  "linked_down db \<longleftrightarrow> (\<exists>rank. \<forall>w \<in> set (wd_rows db). \<forall>v. triggered_by w v \<longrightarrow> rank (wf_ID w) < (rank v :: nat))"
  by (simp add: linked_down_def links_def triggered_by_def)

text \<open>A workflow with a new identifier may wait for any other.\<close>

lemma linked_down_new:
  assumes "linked_down db" and "links db' \<subseteq> insert (k, kind, v) (links db \<union> no_links)"
    and "k \<notin> mentioned db" and "v \<noteq> k"
  shows "linked_down db'"
proof -
  from assms(1) obtain rank where rank: "\<And>j kd u. (j, kd, u) \<in> links db \<Longrightarrow> kd = TriggerEvent \<Longrightarrow> u \<noteq> [] \<Longrightarrow>
      rank j < (rank u :: nat)"
    unfolding linked_down_def by blast
  let ?rank = "\<lambda>j. if j = k then 0 else Suc (rank j)"
  have "?rank j < ?rank u" if "(j, kd, u) \<in> links db'" "kd = TriggerEvent" "u \<noteq> []" for j kd u
  proof (cases "(j, kd, u) \<in> links db")
    case True
    with assms(3) have "j \<noteq> k" "u \<noteq> k" by (auto simp: mentioned_def)
    with rank [OF True that(2,3)] show ?thesis by simp
  next
    case False
    with that assms(2,4) show ?thesis by (auto simp: no_links_def)
  qed
  then show ?thesis unfolding linked_down_def by (intro exI [of _ ?rank]) blast
qed

lemma links_map:
  assumes "\<And>w. wf_ID (f w) = wf_ID w \<and> wf_Trigger (f w) = wf_Trigger w"
  shows "links (db\<lparr>wd_rows := map f (wd_rows db)\<rparr>) = links db"
  by (simp add: links_def image_image assms)

lemma links_UpdateWorkflowState [simp]: "links (snd (UpdateWorkflowState E wid active reason db)) = links db"
  by (auto simp: UpdateWorkflowState_def Let_def links_map workflow_state_row_def split: option.split)

lemma links_DeleteWorkflow: "links (snd (DeleteWorkflow wid db)) \<subseteq> links db"
  by (auto simp: DeleteWorkflow_def links_def Let_def split: option.split)

lemma links_upsert:
  assumes "\<And>r. wf_ID (f r) = wf_ID r \<and> wf_Trigger (f r) = wf_Trigger x"
  shows "links (db\<lparr>wd_rows := upsert wf_ID f x (wd_rows db)\<rparr>)
    \<subseteq> insert (wf_ID x, tr_Kind (wf_Trigger x), tr_OnComplete (wf_Trigger x)) (links db)"
proof -
  have "r \<in> set (upsert wf_ID f x rows) \<Longrightarrow> r = x \<or> r \<in> set rows \<or> (\<exists>q. r = f q \<and> wf_ID q = wf_ID x)" for r rows
    by (induction rows) (auto split: if_splits)
  then show ?thesis using assms by (fastforce simp: links_def)
qed

lemma links_SaveWorkflow:
  "links (snd (snd (SaveWorkflow E w db)))
     \<subseteq> insert (wf_ID w, tr_Kind (wf_Trigger w), tr_OnComplete (wf_Trigger w)) (links db \<union> no_links)"
proof (cases "wd_faults db ''SaveWorkflow''")
  case None
  define w' where "w' = (if IsZero (wf_CreatedAt w) then w\<lparr>wf_CreatedAt := env_now E\<rparr> else w)\<lparr>wf_UpdatedAt := env_now E\<rparr>"
  have same: "wf_ID (workflow_row w') = wf_ID w" "wf_ID w' = wf_ID w" by (simp_all add: w'_def workflow_row_def)
  have link: "(wf_ID w, tr_Kind (wf_Trigger (workflow_row w')), tr_OnComplete (wf_Trigger (workflow_row w')))
      \<in> insert (wf_ID w, tr_Kind (wf_Trigger w), tr_OnComplete (wf_Trigger w)) no_links"
    by (simp add: w'_def workflow_row_def trigger_column_def zero_trigger_def no_links_def)
  have "snd (snd (SaveWorkflow E w db)) = db\<lparr>wd_rows := upsert wf_ID
      (\<lambda>old. (workflow_row w')\<lparr>wf_ID := wf_ID old, wf_CreatedAt := wf_CreatedAt old\<rparr>) (workflow_row w') (wd_rows db)\<rparr>"
    using None by (simp add: SaveWorkflow_def Let_def w'_def)
  then show ?thesis
    using links_upsert [of "\<lambda>old. (workflow_row w')\<lparr>wf_ID := wf_ID old, wf_CreatedAt := wf_CreatedAt old\<rparr>" "workflow_row w'" db]
      link by (auto simp: same)
qed (auto simp: SaveWorkflow_def Let_def)

lemma links_change_state [simp]: "links (sv_workflows (snd (change_state E i svc w st reason b S))) = links (sv_workflows S)"
  by (simp add: change_state_def Let_def DeactivateWorkflow_def ActivateWorkflow_def)

lemma links_evaluate_workflow [simp]:
  "links (sv_workflows (snd (evaluate_workflow E i (\<lambda>_ S. S) svc h w S))) = links (sv_workflows S)"
proof -
  have "links (sv_workflows S') = links (sv_workflows S)" if "change_state E i svc w st reason b S = (b', S')" for st reason b b' S'
    using links_change_state [of E i svc w st reason b S] that by simp
  then show ?thesis by (auto simp: evaluate_workflow_def Let_def split: prod.split)
qed

lemma links_evaluate_loop [simp]:
  "links (sv_workflows (snd (evaluate_loop E i (\<lambda>_ S. S) svc h ws S))) = links (sv_workflows S)"
proof (induction ws arbitrary: i S)
  case (Cons w ws)
  obtain r S1 where e: "evaluate_workflow E i (\<lambda>_ S. S) svc h w S = (r, S1)" by fastforce
  with links_evaluate_workflow [of E i svc h w S] have "links (sv_workflows S1) = links (sv_workflows S)" by simp
  with Cons e show ?case by (simp split: sum.split)
qed simp

lemma links_EvaluateWorkflowType [simp]:
  "links (sv_workflows (snd (EvaluateWorkflowType E (\<lambda>_ S. S) svc t h S))) = links (sv_workflows S)"
  by (simp add: EvaluateWorkflowType_def split: sum.split option.split)

lemma links_evaluate_types [simp]:
  "links (sv_workflows (evaluate_types E (\<lambda>_ S. S) svc ws seen S)) = links (sv_workflows S)"
  by (induction ws arbitrary: E seen S) simp_all

lemma links_EvaluateAllWorkflows [simp]:
  "links (sv_workflows (snd (EvaluateAllWorkflows E (\<lambda>_ S. S) svc S))) = links (sv_workflows S)"
  by (simp add: EvaluateAllWorkflows_def split: sum.split)

lemma links_Publish [simp]: "links (sv_workflows (Publish (server_bus E csvc) ev S)) = links (sv_workflows S)"
  by (simp add: server_bus_def Publish_Subscribe OnHealthUpdatedEvent_def split: event.split)

lemma workflows_Aggregate [simp]:
  "sv_workflows (snd (AggregateWorkflowTypeHealth E svc t S)) = sv_workflows S"
  by (auto simp: AggregateWorkflowTypeHealth_def Let_def split: sum.split prod.split)

lemma links_Service_CalculateRunHealth [simp]:
  "links (sv_workflows (snd (Service_CalculateRunHealth E (Publish (server_bus E' csvc)) svc k S))) = links (sv_workflows S)"
proof -
  have agg: "sv_workflows S' = sv_workflows S1" if "AggregateWorkflowTypeHealth E svc t S1 = (r, S')" for t S1 r S'
    using workflows_Aggregate [of E svc t S1] that by simp
  show ?thesis
    by (auto simp: Service_CalculateRunHealth_def Let_def split: sum.split prod.split dest!: agg)
qed

lemma links_process_message [simp]:
  "links (sv_workflows (process_message cfg parse msg S)) = links (sv_workflows S)"
proof -
  obtain E data where msg: "msg = (E, data)" by fastforce
  have handlers: "server_handlers E cfg = [registration_handler E, loop_handler E cfg, health_handler E cfg]"
    unfolding server_handlers_def by (rule server_handlers_eq) simp
  have reg: "sv_workflows (snd (Registration_HandleResult E r S)) = sv_workflows S" for r S
    by (simp add: Registration_HandleResult_def Let_def split: option.split)
  have loop: "sv_workflows (snd (Loop_HandleResult E ev svc r S)) = sv_workflows S" for ev svc r S
    by (simp add: Loop_HandleResult_def Let_def split: option.split sum.split)
  have health: "links (sv_workflows (snd (Health_HandleResult E1 (Publish (server_bus E' csvc)) svc r S))) = links (sv_workflows S)"
    for E1 E' csvc svc r S
  proof -
    have "links (sv_workflows S2) = links (sv_workflows S1)"
      if "Service_CalculateRunHealth E1 (Publish (server_bus E' csvc)) svc k S1 = (x, S2)" for k S1 x S2
      using links_Service_CalculateRunHealth [of E1 E' csvc svc k S1] that by simp
    then show ?thesis
      by (auto simp: Health_HandleResult_def Let_def split: option.split prod.split)
  qed
  show ?thesis
    by (simp add: process_message_def msg handlers Dispatch_def registration_handler_def loop_handler_def
        health_handler_def reg loop health split: sum.split)
qed

section \<open>The work of the main program\<close>

text \<open>A message on \<open>client.register\<close>: nothing when it does not decode or names no client. Absent
  label and state maps read as empty.\<close>

definition handle_register :: "env \<Rightarrow> client_metadata option \<Rightarrow> server \<Rightarrow> server" where
  "handle_register E msg S = (case msg of
     None \<Rightarrow> S
   | Some c \<Rightarrow> if cm_ClientID c = [] then S
       else S\<lparr>sv_clients := snd (SaveClient E (c\<lparr>cm_Active := True, cm_LastSeenAt := env_now E\<rparr>) (sv_clients S))\<rparr>)"

fun aggregate_loop :: "env \<Rightarrow> health_service \<Rightarrow> workflow list \<Rightarrow> string set \<Rightarrow> server \<Rightarrow> server" where
  "aggregate_loop E svc [] seen S = S"
| "aggregate_loop E svc (w # ws) seen S =
     (if wf_WorkflowType w \<in> seen then aggregate_loop E svc ws seen S
      else aggregate_loop E svc ws (insert (wf_WorkflowType w) seen)
        (snd (AggregateWorkflowTypeHealth E svc (wf_WorkflowType w) S)))"

definition aggregate_tick :: "env \<Rightarrow> health_service \<Rightarrow> server \<Rightarrow> server" where
  "aggregate_tick E svc S = (case ListActiveWorkflows (sv_workflows S) of
     Inl _ \<Rightarrow> S | Inr wfs \<Rightarrow> aggregate_loop E svc wfs {} S)"

definition circuit_tick :: "env \<Rightarrow> circuit_service \<Rightarrow> server \<Rightarrow> server" where
  "circuit_tick E csvc S = snd (EvaluateAllWorkflows E (\<lambda>_ S. S) csvc S)"

definition pickDispatcher :: "sender option \<Rightarrow> sender" where
  "pickDispatcher n = (case n of Some s \<Rightarrow> s | None \<Rightarrow> Channel_SendDispatch None)"

text \<open>The start of the process: the tables are as they were, the ban cache is new and warmed up,
  the alerts and the connection are new.\<close>

definition start_up :: "env \<Rightarrow> outbox \<Rightarrow> server \<Rightarrow> server" where
  "start_up E conn S = S\<lparr>sv_enf := snd (WarmCache E ((sv_enf S)\<lparr>en_blocker := Some NewInMemoryDispatchBlocker,
     en_alerts := Some []\<rparr>)), sv_outbox := conn\<rparr>"

section \<open>Every operation keeps the server consistent\<close>

definition server_ok :: "server \<Rightarrow> bool" where
  "server_ok S \<longleftrightarrow> server_inv S \<and> linked_down (sv_workflows S)"

lemma tables_ready: "server_inv S \<Longrightarrow> workflows_ready (sv_workflows S)"
  by (simp add: server_inv_def healthy_server_def tables_ok_def workflows_ready_def)

lemma server_inv_workflows:
  assumes "server_inv S" and "workflows_ready db"
  shows "server_inv (S\<lparr>sv_workflows := db\<rparr>)"
  using assms by (simp add: server_inv_def healthy_server_def tables_ok_def workflows_ready_def)

lemma UpdateWorkflowState_ready: "workflows_ready db \<Longrightarrow> workflows_ready (snd (UpdateWorkflowState E wid active reason db))"
proof -
  have "wf_ID \<circ> (\<lambda>w. if wf_ID w = wid then workflow_state_row E active reason w else w) = wf_ID"
    by (auto simp: fun_eq_iff)
  then show "workflows_ready db \<Longrightarrow> workflows_ready (snd (UpdateWorkflowState E wid active reason db))"
    by (simp add: workflows_ready_def UpdateWorkflowState_def Let_def split: option.split)
qed

lemma DeleteWorkflow_ready: "workflows_ready db \<Longrightarrow> workflows_ready (snd (DeleteWorkflow wid db))"
  by (auto simp: workflows_ready_def DeleteWorkflow_def Let_def distinct_map_filter split: option.split)

lemma CreateWorkflow_keeps:
  assumes "workflows_ready db"
  shows "workflows_ready (snd (CreateWorkflow E req db))
    \<and> links (snd (CreateWorkflow E req db))
        \<subseteq> insert (env_uuid E 0, tr_Kind (cw_Trigger req), tr_OnComplete (cw_Trigger req)) (links db \<union> no_links)"
proof -
  have same: "links db \<subseteq> insert x (links db \<union> no_links)" for x by blast
  obtain res w db' where s: "SaveWorkflow E (new_workflow E req) db = (res, w, db')" by (metis prod_cases3)
  with SaveWorkflow_ready [OF assms, of E "new_workflow E req"] links_SaveWorkflow [of E "new_workflow E req" db]
  have "workflows_ready db'"
    and "links db' \<subseteq> insert (env_uuid E 0, tr_Kind (cw_Trigger req), tr_OnComplete (cw_Trigger req)) (links db \<union> no_links)"
    by simp_all
  with assms same s show ?thesis by (simp add: CreateWorkflow_def Let_def split: option.split sum.split)
qed

lemma EditWorkflow_keeps:
  assumes "workflows_ready db"
  shows "workflows_ready (snd (EditWorkflow E wid req db)) \<and> links (snd (EditWorkflow E wid req db)) \<subseteq> links db \<union> no_links"
proof (cases "GetWorkflow wid db")
  case (Inr w)
  have "wf_ID (apply_edit req w) = wf_ID w \<and> wf_Trigger (apply_edit req w) = wf_Trigger w"
    by (simp add: apply_edit_def set_if_def Let_def split: option.split)
  moreover have "w \<in> set (wd_rows db)"
    using Inr GetWorkflow_InrD by blast
  ultimately have "insert (wf_ID (apply_edit req w), tr_Kind (wf_Trigger (apply_edit req w)),
      tr_OnComplete (wf_Trigger (apply_edit req w))) (links db \<union> no_links) = links db \<union> no_links"
    by (auto simp: links_def)
  with links_SaveWorkflow [of E "apply_edit req w" db] SaveWorkflow_ready [OF assms, of E "apply_edit req w"] assms Inr
  show ?thesis by (auto simp: EditWorkflow_def Let_def split: option.split prod.split sum.split)
qed (use assms in \<open>simp add: EditWorkflow_def split: option.split\<close>)

text \<open>The uuid generator is documented not to repeat: its identifiers are distinct and new.\<close>

definition fresh_ids :: "env \<Rightarrow> server \<Rightarrow> bool" where
  "fresh_ids E S \<longleftrightarrow> inj (env_uuid E)
     \<and> (\<forall>j. env_uuid E j \<notin> run_RunID ` set (rd_runs (sv_runs S)) \<and> env_uuid E j \<notin> mentioned (sv_workflows S))"

definition unguessed :: "env \<Rightarrow> request \<Rightarrow> bool" where
  "unguessed E req = (case req of
     CreateWorkflowReq (Some r) \<Rightarrow> tr_OnComplete (cw_Trigger r) \<noteq> env_uuid E 0
   | _ \<Rightarrow> True)"

lemma server_ok_workflows:
  assumes "server_ok S" and "workflows_ready db" and "links db \<subseteq> links (sv_workflows S) \<union> no_links"
  shows "server_ok (S\<lparr>sv_workflows := db\<rparr>)"
  using assms by (auto simp: server_ok_def intro: server_inv_workflows linked_down_mono)

lemma server_ok_enf:
  assumes "server_ok S" and "cache_sound enf" and "healthy enf"
  shows "server_ok (S\<lparr>sv_enf := enf\<rparr>)"
  using assms by (simp add: server_ok_def server_inv_def healthy_server_def tables_ok_def healthy_def)

lemma createWorkflow_ok:
  assumes "server_ok S" and "fresh_ids E S" and "unguessed E (CreateWorkflowReq req)"
  shows "server_ok (snd (createWorkflow E req S))"
proof (cases req)
  case (Some r)
  have inv: "server_inv S" and down: "linked_down (sv_workflows S)" using assms(1) by (simp_all add: server_ok_def)
  note keeps = CreateWorkflow_keeps [OF tables_ready [OF inv], of E r]
  have "linked_down (snd (CreateWorkflow E r (sv_workflows S)))"
    by (rule linked_down_new [OF down conjunct2 [OF keeps]])
      (use assms(2,3) Some in \<open>auto simp: fresh_ids_def unguessed_def\<close>)
  with server_inv_workflows [OF inv] keeps Some show ?thesis by (simp add: handler_states server_ok_def)
qed (use assms(1) in \<open>simp add: handler_states\<close>)

lemma workflow_requests_ok:
  assumes "server_ok S"
  shows "server_ok (snd (editWorkflow E wid q S))" "server_ok (snd (deleteWorkflow wid S))"
    "server_ok (snd (activateWorkflow E wid S))" "server_ok (snd (deactivateWorkflow E wid S))"
proof -
  have ready: "workflows_ready (sv_workflows S)" using assms by (simp add: server_ok_def tables_ready)
  note switch = server_ok_workflows [OF assms]
  show "server_ok (snd (editWorkflow E wid q S))"
    using assms EditWorkflow_keeps [OF ready] by (cases q) (simp_all add: handler_states switch)
  show "server_ok (snd (deleteWorkflow wid S))"
    by (simp add: handler_states switch DeleteWorkflow_ready [OF ready] links_DeleteWorkflow le_supI1)
  show "server_ok (snd (activateWorkflow E wid S))" "server_ok (snd (deactivateWorkflow E wid S))"
    by (simp_all add: handler_states switch UpdateWorkflowState_ready [OF ready])
qed

lemma unbanClient_ok:
  assumes "server_ok S"
  shows "server_ok (snd (unbanClient E cid u S))"
proof -
  have "cache_sound (sv_enf S)" "healthy (sv_enf S)"
    using assms by (simp_all add: server_ok_def server_inv_def healthy_server_def healthy_def)
  with assms show ?thesis
    by (cases u) (auto simp: handler_states intro!: server_ok_enf cache_sound_UnbanClient)
qed

lemma chain_trigger_ok:
  assumes "server_ok S" and "fresh_ids E S" and "chain_trigger E send n wid reason (0, S) = Some (x, k, S')"
  shows "server_ok S'"
proof -
  have "chain_ready E (\<lambda>_. True) (sv_workflows S) (sv_clients S) (0, S)"
    using assms(1,2) by (auto simp: chain_ready_def server_ok_def server_inv_def fresh_ids_def)
  moreover have "sending_keeps send (\<lambda>_. True)" by (simp add: sending_keeps_def)
  ultimately have "chain_ready E (\<lambda>_. True) (sv_workflows S) (sv_clients S) (k, S')"
    using chain_trigger_ready [OF _ _ assms(3)] assms(2) by (simp add: fresh_ids_def)
  with assms(1) show ?thesis by (simp add: chain_ready_def server_ok_def server_inv_def)
qed

lemma serve_ok:
  assumes "server_ok S" and "fresh_ids E S" and "unguessed E req"
    and "serve E dp (chain_trigger E send n) req S = Some (resp, S')"
  shows "server_ok S'"
proof (cases req)
  case (TriggerReq wid reason)
  with assms(4) obtain x k where "chain_trigger E send n wid reason (0, S) = Some (x, k, S')"
    by (auto simp: triggerWorkflow_def Api_TriggerWorkflow_def split: option.splits)
  with chain_trigger_ok [OF assms(1,2)] show ?thesis .
next
  case (CreateWorkflowReq r)
  with assms createWorkflow_ok [of S E r] show ?thesis by simp
next
  case (EditWorkflowReq wid q)
  with assms workflow_requests_ok(1) [of S E wid q] show ?thesis by simp
next
  case (DeleteWorkflowReq wid)
  with assms workflow_requests_ok(2) [of S wid] show ?thesis by simp
next
  case (ActivateReq wid)
  with assms workflow_requests_ok(3) [of S E wid] show ?thesis by simp
next
  case (DeactivateReq wid)
  with assms workflow_requests_ok(4) [of S E wid] show ?thesis by simp
next
  case (UnbanReq cid u)
  with assms unbanClient_ok [of S E cid u] show ?thesis by simp
qed (use assms in simp_all)

text \<open>The background work.\<close>

lemma process_message_ok: "server_ok S \<Longrightarrow> server_ok (process_message cfg parse msg S)"
proof -
  assume S: "server_ok S"
  then have "server_inv (process_message cfg parse msg S)"
    unfolding process_message_def
    by (cases msg) (simp del: Dispatcher_Start.simps add: server_stream.Start_keeps server_ok_def)
  with S linked_down_mono [of "sv_workflows S" "sv_workflows (process_message cfg parse msg S)"] show ?thesis
    by (simp add: server_ok_def)
qed

lemma handle_register_ok: "server_ok S \<Longrightarrow> server_ok (handle_register E msg S)"
  by (auto simp: handle_register_def server_ok_def server_inv_def healthy_server_def tables_ok_def SaveClient_distinct
      split: option.split)

lemma aggregate_tick_ok: "server_ok S \<Longrightarrow> server_ok (aggregate_tick E svc S)"
proof -
  have one: "server_ok (snd (AggregateWorkflowTypeHealth E svc t S))" if "server_ok S" for t S
  proof -
    have "hd_faults (sv_health S) = no_faults"
      using that by (simp add: server_ok_def server_inv_def healthy_server_def)
    from AggregateWorkflowTypeHealth_effect [OF this, of E svc t] that show ?thesis
      by (auto simp: server_ok_def server_inv_def healthy_server_def tables_ok_def)
  qed
  have "server_ok S \<Longrightarrow> server_ok (aggregate_loop E svc ws seen S)" for ws seen S
    by (induction ws arbitrary: seen S) (simp_all add: one)
  then show "server_ok S \<Longrightarrow> server_ok (aggregate_tick E svc S)"
    by (simp add: aggregate_tick_def split: sum.split)
qed

lemma circuit_tick_ok: "server_ok S \<Longrightarrow> server_ok (circuit_tick E csvc S)"
proof -
  have one: "server_ok (snd (EvaluateWorkflowType E (\<lambda>_ S. S) csvc t h S))" if "server_ok S" for E t h S
  proof -
    have S: "healthy_server S" "tables_ok S" "cache_sound (sv_enf S)" "linked_down (sv_workflows S)"
      using that by (simp_all add: server_ok_def server_inv_def)
    note eff = EvaluateWorkflowType_any [OF S(1,2) surjective_pairing, of E csvc t h]
    then have "cache_sound (sv_enf (snd (EvaluateWorkflowType E (\<lambda>_ S. S) csvc t h S)))"
      using S(3) cache_sound_cong [of "snd (EvaluateWorkflowType E (\<lambda>_ S. S) csvc t h S)" S] by (simp add: same_rest_def)
    moreover have "linked_down (sv_workflows (snd (EvaluateWorkflowType E (\<lambda>_ S. S) csvc t h S)))"
      by (rule linked_down_mono [OF S(4)]) simp
    ultimately show ?thesis using eff by (simp add: server_ok_def server_inv_def)
  qed
  have "server_ok S \<Longrightarrow> server_ok (evaluate_types E (\<lambda>_ S. S) csvc ws seen S)" for E ws seen S
    by (induction ws arbitrary: E seen S) (simp_all add: one)
  then show "server_ok S \<Longrightarrow> server_ok (circuit_tick E csvc S)"
    by (simp add: circuit_tick_def EvaluateAllWorkflows_def split: sum.split)
qed

lemma start_up_ok:
  assumes "server_ok S"
  shows "server_ok (start_up E conn S)"
proof -
  let ?enf = "(sv_enf S)\<lparr>en_blocker := Some NewInMemoryDispatchBlocker, en_alerts := Some []\<rparr>"
  have "cache_sound ?enf" "healthy ?enf"
    using assms by (simp_all add: server_ok_def server_inv_def cache_sound_def cached_def healthy_server_def
        healthy_def banned_keys_def)
  moreover have "en_bans (snd (WarmCache E ?enf)) = en_bans ?enf"
    by (auto simp: WarmCache_def split: sum.split option.split)
  ultimately have "server_ok (S\<lparr>sv_enf := snd (WarmCache E ?enf)\<rparr>)"
    by (intro server_ok_enf [OF assms] cache_sound_WarmCache) (simp_all add: healthy_def)
  then show ?thesis
    by (simp add: start_up_def server_ok_def server_inv_def healthy_server_def tables_ok_def)
qed

lemma evaluate_triggers_keeps:
  assumes "\<And>wid reason st x st'. P st \<Longrightarrow> trig wid reason st = Some (x, st') \<Longrightarrow> P st'"
  shows "P st \<Longrightarrow> evaluate_triggers parse trig now ws e st = Some (e', st') \<Longrightarrow> P st'"
proof (induction ws arbitrary: e st)
  case (Cons w ws)
  obtain r e1 where f: "ShouldFire parse (wf_ID w) (wf_Trigger w) now e = (r, e1)" by fastforce
  show ?case
  proof (cases "tr_Kind (wf_Trigger w) \<noteq> TriggerScheduled \<or> tr_Cron (wf_Trigger w) = [] \<or> r \<noteq> Inr True")
    case True
    then have "evaluate_triggers parse trig now (w # ws) e st = evaluate_triggers parse trig now ws e st
      \<or> evaluate_triggers parse trig now (w # ws) e st = evaluate_triggers parse trig now ws e1 st"
      using f by (cases r) (auto split: bool.split)
    with Cons show ?thesis by metis
  next
    case False
    with Cons.prems f obtain x st1 where "trig (wf_ID w) ''scheduled'' st = Some (x, st1)"
      "evaluate_triggers parse trig now ws e1 st1 = Some (e', st')"
      by (auto simp: fire_def split: option.splits)
    with assms Cons show ?thesis by blast
  qed
qed simp

lemma evaluate_triggers_returns:
  assumes "\<And>w st. w \<in> set ws \<Longrightarrow> sv_workflows (snd st) = db \<Longrightarrow> trig (wf_ID w) ''scheduled'' st \<noteq> None"
    and "\<And>wid reason st x st'. trig wid reason st = Some (x, st') \<Longrightarrow> sv_workflows (snd st') = sv_workflows (snd st)"
  shows "sv_workflows (snd st) = db \<Longrightarrow> evaluate_triggers parse trig now ws e st \<noteq> None"
  using assms(1)
proof (induction ws arbitrary: e st)
  case (Cons w ws)
  have rest: "evaluate_triggers parse trig now ws e st \<noteq> None" if "sv_workflows (snd st) = db" for e st
    using Cons.IH [OF that, of e] Cons.prems(2) by auto
  obtain x st1 where t: "trig (wf_ID w) ''scheduled'' st = Some (x, st1)" "sv_workflows (snd st1) = db"
    using Cons.prems(2) [of w st] Cons.prems(1) assms(2) by fastforce
  obtain r e1 where f: "ShouldFire parse (wf_ID w) (wf_Trigger w) now e = (r, e1)" by fastforce
  show ?case
    using rest [OF Cons.prems(1)] rest [OF t(2)] t(1) f
    by (cases r) (simp_all add: fire_def split: bool.split)
qed simp

lemma trigger_tick_ok:
  assumes "server_ok S" and "fresh_ids E S" and "evaluate parse (chain_trigger E send n) now e (0, S) = Some (e', k, S')"
  shows "server_ok S'"
proof -
  let ?P = "chain_ready E (\<lambda>_. True) (sv_workflows S) (sv_clients S)"
  have start: "?P (0, S)"
    using assms(1,2) by (auto simp: chain_ready_def server_ok_def server_inv_def fresh_ids_def)
  have step: "?P st' " if "?P st" "chain_trigger E send n wid reason st = Some (x, st')" for wid reason st x st'
    using chain_trigger_ready [OF _ _ that(2,1)] assms(2) by (simp add: fresh_ids_def sending_keeps_def)
  have "?P (k, S')"
  proof (cases "ListActiveWorkflows (sv_workflows S)")
    case (Inr wfs)
    with assms(3) have "evaluate_triggers parse (chain_trigger E send n) now wfs e (0, S) = Some (e', k, S')"
      by (simp add: evaluate_def)
    from evaluate_triggers_keeps [of ?P "chain_trigger E send n", OF step start this] show ?thesis .
  qed (use assms(3) start in \<open>simp add: evaluate_def\<close>)
  with assms(1) show ?thesis by (simp add: chain_ready_def server_ok_def server_inv_def)
qed

section \<open>The server's life\<close>

text \<open>From an empty database: requests, result messages, registrations, the three timers and
  restarts, in any order and number, each at an instant of its own. A payload is given as the
  outcome of parsing it.\<close>

inductive server_step :: "server_config \<Rightarrow> sender \<Rightarrow> server \<Rightarrow> server \<Rightarrow> bool" for cfg send where
  request: "fresh_ids E S \<Longrightarrow> unguessed E req \<Longrightarrow> serve E dp (chain_trigger E send n) req S = Some (resp, S')
    \<Longrightarrow> server_step cfg send S S'"
| message: "server_step cfg send S (process_message cfg (\<lambda>_ parsed. parsed) (E, parsed) S)"
| register: "server_step cfg send S (handle_register E msg S)"
| aggregate: "server_step cfg send S (aggregate_tick E (cfg_health cfg) S)"
| circuits: "server_step cfg send S (circuit_tick E (cfg_circuit cfg) S)"
| triggers: "fresh_ids E S \<Longrightarrow> evaluate parse (chain_trigger E send n) now e (0, S) = Some (e', k, S')
    \<Longrightarrow> server_step cfg send S S'"
| restart: "server_step cfg send S (start_up E conn S)"

inductive server_reachable :: "server_config \<Rightarrow> sender \<Rightarrow> server \<Rightarrow> bool" for cfg send where
  init: "server_reachable cfg send empty_server"
| step: "server_reachable cfg send S \<Longrightarrow> server_step cfg send S S' \<Longrightarrow> server_reachable cfg send S'"

lemma server_step_ok: "server_step cfg send S S' \<Longrightarrow> server_ok S \<Longrightarrow> server_ok S'"
proof (induction rule: server_step.induct)
  case (request E S req dp n resp S')
  then show ?case using serve_ok by blast
next
  case (triggers E S parse n now e e' k S')
  then show ?case using trigger_tick_ok by blast
qed (simp_all add: process_message_ok handle_register_ok aggregate_tick_ok circuit_tick_ok start_up_ok)

lemma empty_server_inv: "server_ok empty_server"
proof -
  have "cache_sound (sv_enf empty_server)"
    by (simp add: empty_server_def cache_sound_def all_permanent_def cached_def)
  moreover have "linked_down (sv_workflows empty_server)"
    by (simp add: linked_down_def links_def empty_server_def)
  ultimately show ?thesis using empty_server_ok by (simp add: server_ok_def server_inv_def)
qed

lemma server_reachable_ok: "server_reachable cfg send S \<Longrightarrow> server_ok S"
  by (induction rule: server_reachable.induct) (auto intro: empty_server_inv server_step_ok)

lemma trigger_returns:
  assumes "server_ok S"
  obtains rank where "\<And>E send n wid reason st. sv_workflows (snd st) = sv_workflows S \<Longrightarrow> rank wid < (n :: nat)
    \<Longrightarrow> chain_trigger E send n wid reason st \<noteq> None"
proof -
  obtain rank where "\<forall>w \<in> set (wd_rows (sv_workflows S)). \<forall>v. triggered_by w v \<longrightarrow> rank (wf_ID w) < (rank v :: nat)"
    using assms by (auto simp: server_ok_def linked_down_ranked)
  with that [of rank] chain_trigger_ranked [of "sv_workflows S" rank] show thesis by blast
qed

section \<open>Properties\<close>

text \<open>C1. The server never gets stuck or inconsistent: after any sequence of requests, result
  messages, registrations, timer ticks and restarts from an empty database, in which uuids do not
  repeat and no client guesses one in advance, every table has its keys unique, runs and
  participants agree, the ban cache holds only real bans, every request is answered, and every
  evaluation of the scheduled triggers returns: the workflows the interface can create never form
  a cycle of event triggers.\<close>

theorem server_stays_consistent_and_answers:
  assumes "server_reachable cfg send S"
  shows "healthy_server S \<and> tables_ok S \<and> cache_sound (sv_enf S)
    \<and> (\<forall>E dp req. \<exists>m. \<forall>n \<ge> m. serve E dp (chain_trigger E send n) req S \<noteq> None)
    \<and> (\<forall>E parse now e. \<exists>m. \<forall>n \<ge> m. evaluate parse (chain_trigger E send n) now e (0, S) \<noteq> None)"
proof -
  have ok: "server_ok S" by (rule server_reachable_ok) (rule assms)
  from ok obtain rank where returns: "\<And>E n wid reason st. sv_workflows (snd st) = sv_workflows S \<Longrightarrow> rank wid < (n :: nat)
    \<Longrightarrow> chain_trigger E send n wid reason st \<noteq> None" by (rule trigger_returns) blast
  have "\<exists>m. \<forall>n \<ge> m. serve E dp (chain_trigger E send n) req S \<noteq> None" for E dp req
  proof (cases req)
    case (TriggerReq wid reason)
    with returns [of "(0, S)" wid] show ?thesis
      by (intro exI [of _ "Suc (rank wid)"]) (simp add: triggerWorkflow_def Api_TriggerWorkflow_def)
  qed simp_all
  moreover have "\<exists>m. \<forall>n \<ge> m. evaluate parse (chain_trigger E send n) now e (0, S) \<noteq> None" for E parse now e
  proof (cases "ListActiveWorkflows (sv_workflows S)")
    case (Inr wfs)
    let ?m = "Suc (Max (insert 0 ((rank \<circ> wf_ID) ` set wfs)))"
    have "evaluate_triggers parse (chain_trigger E send n) now wfs e (0, S) \<noteq> None" if "?m \<le> n" for n
    proof (rule evaluate_triggers_returns [where db = "sv_workflows S"])
      fix w and st :: orch_state assume "w \<in> set wfs" and same: "sv_workflows (snd st) = sv_workflows S"
      have "rank (wf_ID w) \<le> Max (insert 0 ((rank \<circ> wf_ID) ` set wfs))"
        by (rule Max_ge) (use \<open>w \<in> set wfs\<close> in auto)
      with that have "rank (wf_ID w) < n" by simp
      then show "chain_trigger E send n (wf_ID w) ''scheduled'' st \<noteq> None" by (rule returns [OF same])
    qed (use chain_trigger_workflows in auto)
    with Inr show ?thesis by (intro exI [of _ ?m]) (simp add: evaluate_def)
  qed (simp add: evaluate_def)
  ultimately show ?thesis using ok by (simp add: server_ok_def server_inv_def)
qed

definition sample_request :: create_request where
  "sample_request = \<lparr>cw_Name = ''Nightly'', cw_Description = [], cw_WorkflowType = ''upgrade'',
     cw_Activity = ActivityUpgradePackage, cw_Params = [], cw_TargetFilter = [],
     cw_Trigger = \<lparr>tr_Kind = TriggerManual, tr_Cron = [], tr_OnComplete = [], tr_Condition = [], tr_Params = []\<rparr>,
     cw_SuccessThreshold = FFin 80, cw_LoopThresholdMS = 5000, cw_TimeoutMS = 30000, cw_Enabled = None\<rparr>"

lemma sample_created: "fresh_ids sample_env empty_server" "unguessed sample_env (CreateWorkflowReq (Some sample_request))"
proof -
  have "inj (\<lambda>k. ''u'' @ show_nat k)" by (rule inj_on_inverseI [where g = "\<lambda>s. nat_of_digits (tl s)"]) simp
  then show "fresh_ids sample_env empty_server"
    by (simp add: fresh_ids_def sample_env_def empty_server_def mentioned_def links_def)
  show "unguessed sample_env (CreateWorkflowReq (Some sample_request))"
    by (simp add: unguessed_def sample_request_def sample_env_def)
qed

theorem server_stays_consistent_and_answers_witness:
  "\<exists>m. \<forall>n \<ge> m. serve sample_env sample_deps (chain_trigger sample_env NATS_SendDispatch n) (TriggerReq ''u0'' ''manual'')
     (snd (createWorkflow sample_env (Some sample_request) empty_server)) \<noteq> None"
proof -
  let ?S = "snd (createWorkflow sample_env (Some sample_request) empty_server)"
  have "server_step cfg NATS_SendDispatch empty_server ?S" for cfg
    by (rule server_step.request [OF sample_created, where resp = "fst (createWorkflow sample_env (Some sample_request) empty_server)"])
      simp
  then have "server_reachable cfg NATS_SendDispatch ?S" for cfg
    by (rule server_reachable.step [OF server_reachable.init])
  from server_stays_consistent_and_answers [OF this] show ?thesis by blast
qed

end
