(* ===== verification/Wire.thy ===== *)
theory Wire
  imports Super_Client Server
begin

text \<open>
  What travels between the server and the super-client: the JSON of a dispatch
  (\<open>internal/core/domain/dispatch.go\<close>), of a dispatch message, a result message and a client
  registration (\<open>activity.go\<close>, \<open>inner_client.go\<close>, \<open>client.go\<close>), their decoding on the other side
  (\<open>ParseResult\<close> of \<open>result.go\<close>, the callback of \<open>SubscribeDispatch\<close> in \<open>nats_broker.go\<close>) and the
  buffered channel behind \<open>SubscribeToResults\<close> (\<open>nats_dispatcher.go\<close>). A payload is a JSON
  document, or \<open>None\<close> when the bytes are not JSON; decoding into a struct is \<open>encoding/json\<close>'s: keys
  without a field are ignored, names match exactly or else up to case, \<open>null\<close> leaves a field alone
  or empties a map, a value of the wrong kind is an error but the other fields are still set.
\<close>

section \<open>Documents\<close>

datatype doc =
    DNull
  | DBool bool
  | DInt int
  | DFloat float64
  | DStr string
  | DArr "doc list"
  | DObj "(string \<times> doc) list"

fun doc_of :: "gval \<Rightarrow> doc" where
  "doc_of VNil = DNull"
| "doc_of (VBool b) = DBool b"
| "doc_of (VInt n) = DInt (sint n)"
| "doc_of (VInt32 n) = DInt (sint n)"
| "doc_of (VInt64 n) = DInt (sint n)"
| "doc_of (VUint n) = DInt (uint n)"
| "doc_of (VUint64 n) = DInt (uint n)"
| "doc_of (VF32 x) = DFloat x"
| "doc_of (VF64 x) = DFloat x"
| "doc_of (VStr s) = DStr s"
| "doc_of (VList vs) = DArr (map doc_of vs)"
| "doc_of (VStrs ss) = DArr (map DStr ss)"
| "doc_of (VMap kvs) = DObj (map (\<lambda>(k, v). (k, doc_of v)) kvs)"
| "doc_of (VStrMap kvs) = DObj (map (\<lambda>(k, s). (k, DStr s)) kvs)"

text \<open>Of the entries with one key, a map keeps the last.\<close>

fun last_wins :: "(string \<times> 'a) list \<Rightarrow> (string \<times> 'a) list" where
  "last_wins [] = []"
| "last_wins ((k, v) # es) = (if k \<in> fst ` set es then last_wins es else (k, v) # last_wins es)"

text \<open>Decoding into an \<open>interface{}\<close>.\<close>

fun any_of :: "doc \<Rightarrow> gval" where
  "any_of DNull = VNil"
| "any_of (DBool b) = VBool b"
| "any_of (DInt n) = VF64 (f64_of_int n)"
| "any_of (DFloat x) = VF64 x"
| "any_of (DStr s) = VStr s"
| "any_of (DArr ds) = VList (map any_of ds)"
| "any_of (DObj es) = VMap (last_wins (map (\<lambda>(k, d). (k, any_of d)) es))"

section \<open>Decoding into a struct\<close>

text \<open>A field takes a document and answers the struct and whether the kind was right.\<close>

type_synonym 's field = "doc \<Rightarrow> 's \<Rightarrow> 's \<times> bool"

definition find_field :: "(string \<times> 's field) list \<Rightarrow> string \<Rightarrow> 's field option" where
  "find_field flds k = (case map_of flds k of
     Some f \<Rightarrow> Some f | None \<Rightarrow> map_of (map (\<lambda>(n, f). (ToLower n, f)) flds) (ToLower k))"

fun decode_fields :: "(string \<times> 's field) list \<Rightarrow> (string \<times> doc) list \<Rightarrow> 's \<Rightarrow> bool \<Rightarrow> 's \<times> bool" where
  "decode_fields flds [] s ok = (s, ok)"
| "decode_fields flds ((k, d) # es) s ok = (case find_field flds k of
     None \<Rightarrow> decode_fields flds es s ok
   | Some f \<Rightarrow> (case f d s of (s, good) \<Rightarrow> decode_fields flds es s (ok \<and> good)))"

definition decode_struct :: "(string \<times> 's field) list \<Rightarrow> 's field" where
  "decode_struct flds d s = (case d of
     DObj es \<Rightarrow> decode_fields flds es s True
   | DNull \<Rightarrow> (s, True)
   | _ \<Rightarrow> (s, False))"

definition string_field :: "(string \<Rightarrow> 's \<Rightarrow> 's) \<Rightarrow> 's field" where
  "string_field set_to d s = (case d of DStr x \<Rightarrow> (set_to x s, True) | DNull \<Rightarrow> (s, True) | _ \<Rightarrow> (s, False))"

definition bool_field :: "(bool \<Rightarrow> 's \<Rightarrow> 's) \<Rightarrow> 's field" where
  "bool_field set_to d s = (case d of DBool x \<Rightarrow> (set_to x s, True) | DNull \<Rightarrow> (s, True) | _ \<Rightarrow> (s, False))"

text \<open>A map that is there already keeps the keys the document does not have.\<close>

definition map_field :: "('s \<Rightarrow> gmap) \<Rightarrow> (gmap \<Rightarrow> 's \<Rightarrow> 's) \<Rightarrow> 's field" where
  "map_field old set_to d s = (case d of
     DObj es \<Rightarrow> (set_to (last_wins (old s @ map (\<lambda>(k, d). (k, any_of d)) es)) s, True)
   | DNull \<Rightarrow> (set_to [] s, True)
   | _ \<Rightarrow> (s, False))"

fun text_or_null :: "doc \<Rightarrow> bool" where
  "text_or_null (DStr _) = True"
| "text_or_null DNull = True"
| "text_or_null _ = False"

fun text_of :: "doc \<Rightarrow> string" where
  "text_of (DStr s) = s"
| "text_of _ = []"

definition labels_field :: "('s \<Rightarrow> (string \<times> string) list) \<Rightarrow> ((string \<times> string) list \<Rightarrow> 's \<Rightarrow> 's) \<Rightarrow> 's field" where
  "labels_field old set_to d s = (case d of
     DObj es \<Rightarrow> (set_to (last_wins (old s @ map (\<lambda>(k, d). (k, text_of d)) es)) s, list_all (\<lambda>(k, d). text_or_null d) es)
   | DNull \<Rightarrow> (set_to [] s, True)
   | _ \<Rightarrow> (s, False))"

text \<open>\<open>time.Time\<close> reads RFC 3339; the reader is an argument.\<close>

definition time_field :: "(string \<Rightarrow> time option) \<Rightarrow> (time \<Rightarrow> 's \<Rightarrow> 's) \<Rightarrow> 's field" where
  "time_field parse_time set_to d s = (case d of
     DStr x \<Rightarrow> (case parse_time x of Some t \<Rightarrow> (set_to t s, True) | None \<Rightarrow> (s, False))
   | DNull \<Rightarrow> (s, True)
   | _ \<Rightarrow> (s, False))"

section \<open>Dispatches\<close>

definition dispatch_doc :: "dispatch \<Rightarrow> doc" where
  "dispatch_doc d = DObj [(''run_id'', DStr (di_RunID d)), (''wf_id'', DStr (di_WorkflowID d)),
     (''activity'', DStr (activity_text (di_Activity d))),
     (''params'', DObj (map (\<lambda>(k, v). (k, doc_of v)) (di_Params d)))]"

text \<open>(A nil parameter map is written as \<open>null\<close> instead of an empty object.)\<close>

definition GetPayload :: "dispatch \<Rightarrow> go_error + doc" where
  "GetPayload d = (if list_all (\<lambda>(k, v). json_ok v) (di_Params d) then Inr (dispatch_doc d)
     else Inl (ErrMsg ''json: unsupported value''))"

lemma NATS_SendDispatch_GetPayload:
  "NATS_SendDispatch d ob = (case GetPayload d of
     Inl e \<Rightarrow> (Some (ErrWrap ''encode dispatch: '' e []), ob)
   | Inr payload \<Rightarrow> (let n = ob_calls ob; ob = ob\<lparr>ob_calls := n + 1\<rparr> in
       case ob_publish ob n of
         Some e \<Rightarrow> (Some (ErrWrap ''publish: '' e []), ob)
       | None \<Rightarrow> (ob_flush ob n, ob\<lparr>ob_sent := ob_sent ob @ [(defaultDispatchSubject (di_ClientID d), d)]\<rparr>)))"
  by (simp add: NATS_SendDispatch_def GetPayload_def)

fun activity_of_text :: "string \<Rightarrow> activity_type" where
  "activity_of_text s = (case find (\<lambda>a. activity_text a = s) ValidActivityTypes of
     Some a \<Rightarrow> a | None \<Rightarrow> ActivityOther s)"

definition activity_fields :: "(string \<times> activity field) list" where
  "activity_fields = [(''type'', string_field (\<lambda>x a. a\<lparr>act_Type := activity_of_text x\<rparr>)),
     (''params'', map_field act_Params (\<lambda>m a. a\<lparr>act_Params := m\<rparr>))]"

definition message_fields :: "(string \<times> dispatch_message field) list" where
  "message_fields = [(''run_id'', string_field (\<lambda>x m. m\<lparr>dm_RunID := x\<rparr>)),
     (''wf_id'', string_field (\<lambda>x m. m\<lparr>dm_WfID := x\<rparr>)),
     (''client_id'', string_field (\<lambda>x m. m\<lparr>dm_ClientID := x\<rparr>)),
     (''activity'', \<lambda>d m. (case decode_struct activity_fields d (dm_Activity m) of (a, ok) \<Rightarrow> (m\<lparr>dm_Activity := a\<rparr>, ok)))]"

definition zero_message :: dispatch_message where
  "zero_message = \<lparr>dm_RunID = [], dm_WfID = [], dm_ClientID = [],
     dm_Activity = \<lparr>act_Type = ActivityOther [], act_Params = []\<rparr>\<rparr>"

definition unmarshal :: "(string \<times> 's field) list \<Rightarrow> 's \<Rightarrow> doc option \<Rightarrow> go_error + 's" where
  "unmarshal flds zero data = (case data of
     None \<Rightarrow> Inl (ErrMsg ''invalid character'')
   | Some d \<Rightarrow> (case decode_struct flds d zero of
       (s, ok) \<Rightarrow> if ok then Inr s else Inl (ErrMsg ''json: cannot unmarshal'')))"

text \<open>The callback of \<open>SubscribeDispatch\<close>: a message that does not decode is logged and dropped; the
  client is the one subscribed for. (A full channel makes the callback wait.)\<close>

definition dispatch_callback :: "string \<Rightarrow> doc option \<Rightarrow> dispatch_message list \<Rightarrow> dispatch_message list" where
  "dispatch_callback clientID data out = (case unmarshal message_fields zero_message data of
     Inl _ \<Rightarrow> out | Inr m \<Rightarrow> out @ [m\<lparr>dm_ClientID := clientID\<rparr>])"

definition dispatch_subject :: "string \<Rightarrow> string" where
  "dispatch_subject c = ''dispatch.'' @ c"

text \<open>A message goes to the subscription of its subject. Client ids are taken to be free of the wildcards
  of NATS subjects, as the ids the pool generates are.\<close>

fun deliver :: "string list \<Rightarrow> string \<times> doc option \<Rightarrow> dispatch_message list \<Rightarrow> dispatch_message list" where
  "deliver [] msg out = out"
| "deliver (clientID # ids) msg out = deliver ids msg
     (if fst msg = dispatch_subject clientID then dispatch_callback clientID (snd msg) out else out)"

text \<open>\<open>SubscribeDispatch\<close>: the error, if any, and the clients the broker is subscribed for, which
  includes those subscribed before the error; \<open>subscribe\<close> and \<open>flush\<close> are what the connection answers.\<close>

fun subscribe_each :: "(string \<Rightarrow> go_error option) \<Rightarrow> string list \<Rightarrow> string list \<Rightarrow> go_error option \<times> string list" where
  "subscribe_each subscribe [] subs = (None, subs)"
| "subscribe_each subscribe (clientID # ids) subs = (case subscribe (dispatch_subject clientID) of
     Some err \<Rightarrow> (Some (ErrWrap (''subscribe dispatch for '' @ clientID @ '': '') err []), subs)
   | None \<Rightarrow> subscribe_each subscribe ids (subs @ [clientID]))"

definition SubscribeDispatch ::
  "(string \<Rightarrow> go_error option) \<Rightarrow> go_error option \<Rightarrow> string list \<Rightarrow> string list \<Rightarrow> go_error option \<times> string list" where
  "SubscribeDispatch subscribe flush clientIDs subs = (case subscribe_each subscribe clientIDs subs of
     (Some err, subs) \<Rightarrow> (Some err, subs)
   | (None, subs) \<Rightarrow> (map_option (\<lambda>err. ErrWrap ''flush subscriptions: '' err []) flush, subs))"

lemma SubscribeDispatch_all:
  assumes "SubscribeDispatch subscribe flush ids subs = (None, subs')"
  shows "subs' = subs @ ids"
proof -
  have "subscribe_each subscribe ids subs = (None, subs') \<Longrightarrow> subs' = subs @ ids" for subs
  proof (induction ids arbitrary: subs)
    case (Cons a ids)
    from Cons.prems show ?case by (auto split: option.splits dest!: Cons.IH)
  qed simp
  then show ?thesis using assms by (auto simp: SubscribeDispatch_def split: prod.splits option.splits)
qed

text \<open>What a dispatch message itself is as JSON.\<close>

definition message_doc :: "dispatch_message \<Rightarrow> doc" where
  "message_doc m = DObj [(''run_id'', DStr (dm_RunID m)), (''wf_id'', DStr (dm_WfID m)),
     (''client_id'', DStr (dm_ClientID m)),
     (''activity'', DObj ((''type'', DStr (activity_text (act_Type (dm_Activity m))))
        # (if act_Params (dm_Activity m) = [] then []
           else [(''params'', DObj (map (\<lambda>(k, v). (k, doc_of v)) (act_Params (dm_Activity m))))])))]"

section \<open>Results\<close>

definition state_doc :: "client_state \<Rightarrow> doc" where
  "state_doc st = DObj [(''packages'', DObj (map (\<lambda>(k, v). (k, DStr v)) (sorted_entries (st_Packages st)))),
     (''config_version'', DInt (sint (st_ConfigVersion st))),
     (''power_state'', DStr (power_text (st_PowerState st))),
     (''is_crippled'', DBool (st_IsCrippled st)),
     (''cripple_mode'', DStr (cripple_text (st_CrippleMode st))),
     (''cripple_recovery_attempts'', DInt (sint (st_CrippleRecoveryAttempts st)))]"

fun status_text :: "result_status \<Rightarrow> string" where
  "status_text ResultSuccess = ''success''"
| "status_text ResultFail = ''fail''"
| "status_text ResultError = ''error''"
| "status_text (ResultOther s) = s"

definition status_of_text :: "string \<Rightarrow> result_status" where
  "status_of_text s = (if s = ''success'' then ResultSuccess else if s = ''fail'' then ResultFail
     else if s = ''error'' then ResultError else ResultOther s)"

definition result_doc :: "result_message \<Rightarrow> doc" where
  "result_doc m = DObj ([(''run_id'', DStr (rm_RunID m)), (''wf_id'', DStr (rm_WfID m)),
     (''client_id'', DStr (rm_ClientID m)), (''status'', DStr (status_text (rm_Status m))),
     (''inner_state'', state_doc (rm_InnerState m))]
     @ (if rm_ErrorMsg m = [] then [] else [(''error_msg'', DStr (rm_ErrorMsg m))])
     @ (if rm_Payload m = [] then [] else [(''payload'', DObj (map (\<lambda>(k, v). (k, doc_of v)) (rm_Payload m)))]))"

definition result_fields :: "(string \<Rightarrow> time option) \<Rightarrow> (string \<times> result field) list" where
  "result_fields parse_time = [(''run_id'', string_field (\<lambda>x r. r\<lparr>res_RunID := x\<rparr>)),
     (''wf_id'', string_field (\<lambda>x r. r\<lparr>res_WorkflowID := x\<rparr>)),
     (''client_id'', string_field (\<lambda>x r. r\<lparr>res_ClientID := x\<rparr>)),
     (''status'', string_field (\<lambda>x r. r\<lparr>res_Status := status_of_text x\<rparr>)),
     (''inner_state'', map_field res_InnerState (\<lambda>m r. r\<lparr>res_InnerState := m\<rparr>)),
     (''error_msg'', string_field (\<lambda>x r. r\<lparr>res_ErrorMsg := x\<rparr>)),
     (''payload'', map_field res_Payload (\<lambda>m r. r\<lparr>res_Payload := m\<rparr>)),
     (''received_at'', time_field parse_time (\<lambda>t r. r\<lparr>res_ReceivedAt := t\<rparr>))]"

definition zero_result :: result where
  "zero_result = \<lparr>res_RunID = [], res_WorkflowID = [], res_ClientID = [], res_Status = ResultOther [],
     res_InnerState = [], res_ErrorMsg = [], res_Payload = [], res_ReceivedAt = 0\<rparr>"

definition ParseResult :: "(string \<Rightarrow> time option) \<Rightarrow> env \<Rightarrow> doc option \<Rightarrow> go_error + result" where
  "ParseResult parse_time E data = (case unmarshal (result_fields parse_time) zero_result data of
     Inl e \<Rightarrow> Inl e
   | Inr r \<Rightarrow> Inr (if IsZero (res_ReceivedAt r) then r\<lparr>res_ReceivedAt := env_now E\<rparr> else r))"

text \<open>The channel behind \<open>SubscribeToResults\<close>: when it is full the message is dropped.\<close>

definition result_buffer :: "int64 \<Rightarrow> nat" where
  "result_buffer bufSize = (if sint bufSize \<le> 0 then 256 else nat (sint bufSize))"

definition result_callback :: "nat \<Rightarrow> 'p \<Rightarrow> 'p list \<Rightarrow> 'p list" where
  "result_callback cap data queue = (if length queue < cap then queue @ [data] else queue)"

definition result_subject :: "string \<Rightarrow> string" where
  "result_subject subject = (if subject = [] then ''result.>'' else subject)"

text \<open>The subject subscribed to and the capacity of the channel.\<close>

definition SubscribeToResults ::
  "(string \<Rightarrow> go_error option) \<Rightarrow> string \<Rightarrow> int64 \<Rightarrow> go_error + string \<times> nat" where
  "SubscribeToResults subscribe subject bufSize = (let subject = result_subject subject; n = result_buffer bufSize in
     case subscribe subject of Some err \<Rightarrow> Inl err | None \<Rightarrow> Inr (subject, n))"

section \<open>Registrations\<close>

text \<open>Times are written in RFC 3339, by \<open>show_time\<close>.\<close>

definition client_doc :: "(time \<Rightarrow> string) \<Rightarrow> client_metadata \<Rightarrow> doc" where
  "client_doc show_time c = DObj [(''client_id'', DStr (cm_ClientID c)), (''os'', DStr (cm_OS c)),
     (''labels'', DObj (map (\<lambda>(k, v). (k, DStr v)) (cm_Labels c))),
     (''inner_state'', DObj (map (\<lambda>(k, v). (k, doc_of v)) (cm_InnerState c))),
     (''active'', DBool (cm_Active c)), (''last_seen_at'', DStr (show_time (cm_LastSeenAt c)))]"

definition client_fields :: "(string \<Rightarrow> time option) \<Rightarrow> (string \<times> client_metadata field) list" where
  "client_fields parse_time = [(''client_id'', string_field (\<lambda>x c. c\<lparr>cm_ClientID := x\<rparr>)),
     (''os'', string_field (\<lambda>x c. c\<lparr>cm_OS := x\<rparr>)),
     (''labels'', labels_field cm_Labels (\<lambda>m c. c\<lparr>cm_Labels := m\<rparr>)),
     (''inner_state'', map_field cm_InnerState (\<lambda>m c. c\<lparr>cm_InnerState := m\<rparr>)),
     (''active'', bool_field (\<lambda>b c. c\<lparr>cm_Active := b\<rparr>)),
     (''last_seen_at'', time_field parse_time (\<lambda>t c. c\<lparr>cm_LastSeenAt := t\<rparr>))]"

definition zero_client :: client_metadata where
  "zero_client = \<lparr>cm_ClientID = [], cm_OS = [], cm_Labels = [], cm_InnerState = [], cm_Active = False,
     cm_LastSeenAt = 0\<rparr>"

text \<open>The callback on \<open>client.register\<close>.\<close>

definition register_callback :: "(string \<Rightarrow> time option) \<Rightarrow> env \<Rightarrow> doc option \<Rightarrow> server \<Rightarrow> server" where
  "register_callback parse_time E data S =
     handle_register E (case unmarshal (client_fields parse_time) zero_client data of Inl _ \<Rightarrow> None | Inr c \<Rightarrow> Some c) S"

section \<open>Round trips\<close>

lemma last_wins_distinct [simp]: "distinct (map fst es) \<Longrightarrow> last_wins es = es"
  by (induction es rule: last_wins.induct) auto

fun keys_ok :: "gval \<Rightarrow> bool" where
  "keys_ok (VList vs) = list_all keys_ok vs"
| "keys_ok (VMap kvs) = (distinct (map fst kvs) \<and> list_all (\<lambda>(k, v). keys_ok v) kvs)"
| "keys_ok (VStrMap kvs) = distinct (map fst kvs)"
| "keys_ok v = True"

lemma fst_map_pair [simp]: "map fst (map (\<lambda>(k, v). (k, f v)) es) = map fst es"
  by (induction es) auto

lemma fst_comp_pair [simp]: "fst \<circ> (\<lambda>(k, v). (k, f v)) = fst"
  by auto

lemma any_of_doc_of: "keys_ok v \<Longrightarrow> any_of (doc_of v) = json_norm v"
proof (induction v rule: doc_of.induct)
  case (13 kvs)
  have "map (\<lambda>(k, d). (k, any_of d)) (map (\<lambda>(k, v). (k, doc_of v)) kvs) = map (\<lambda>(k, v). (k, json_norm v)) kvs"
    using 13 by (auto simp: list_all_iff)
  moreover have "distinct (map fst (map (\<lambda>(k, v). (k, json_norm v)) kvs))" using 13(2) by simp
  ultimately show ?case by (simp del: map_map)
next
  case (14 kvs)
  have "map (\<lambda>(k, d). (k, any_of d)) (map (\<lambda>(k, s). (k, DStr s)) kvs) = map (\<lambda>(k, s). (k, VStr s)) kvs"
    by auto
  moreover have "distinct (map fst (map (\<lambda>(k, s). (k, VStr s)) kvs))" using 14 by simp
  ultimately show ?case by (simp del: map_map)
qed (auto simp: list_all_iff)

definition map_ok :: "gmap \<Rightarrow> bool" where
  "map_ok m \<longleftrightarrow> distinct (map fst m) \<and> list_all (\<lambda>(k, v). keys_ok v \<and> json_ok v) m"

lemma map_ok_column:
  assumes "map_ok m"
  shows "last_wins (map (\<lambda>(k, d). (k, any_of d)) (map (\<lambda>(k, v). (k, doc_of v)) m)) = json_column m"
proof -
  have "map (\<lambda>(k, d). (k, any_of d)) (map (\<lambda>(k, v). (k, doc_of v)) m) = map (\<lambda>(k, v). (k, json_norm v)) m"
    using assms by (auto simp: map_ok_def list_all_iff any_of_doc_of)
  moreover have "list_all (\<lambda>(k, v). json_ok v) m" using assms by (auto simp: map_ok_def list_all_iff)
  moreover have "distinct (map fst (map (\<lambda>(k, v). (k, json_norm v)) m))" using assms by (simp add: map_ok_def)
  ultimately show ?thesis by (simp add: json_column_def del: map_map)
qed

lemma activity_of_text_valid: "ActivityType_IsValid a \<Longrightarrow> activity_of_text (activity_text a) = a"
  by (cases a) (simp_all add: ValidActivityTypes_def ActivityType_IsValid_iff)

lemma status_of_text_valid: "ResultStatus_IsValid s \<Longrightarrow> status_of_text (status_text s) = s"
  by (cases s) (simp_all add: status_of_text_def)

lemma find_field_exact: "map_of flds k = Some f \<Longrightarrow> find_field flds k = Some f"
  by (simp add: find_field_def)

text \<open>An error is never forgotten.\<close>

lemma decode_fields_False: "\<not> snd (decode_fields flds es s False)"
  by (induction flds es s False rule: decode_fields.induct) (auto split: option.split prod.split)

lemma decode_fields_step:
  "map_of flds k = Some f \<Longrightarrow> f d s = (s', good) \<Longrightarrow> decode_fields flds ((k, d) # es) s ok = decode_fields flds es s' (ok \<and> good)"
  by (simp add: find_field_exact)

lemma dispatch_refused: "\<exists>e. unmarshal message_fields zero_message (Some (dispatch_doc d)) = Inl e"
proof -
  have "\<not> snd (decode_struct message_fields (dispatch_doc d) zero_message)"
    by (simp add: decode_struct_def dispatch_doc_def decode_fields_step message_fields_def string_field_def
        find_field_def decode_fields_False split: option.split prod.split)
  then show ?thesis by (auto simp: unmarshal_def split: prod.split)
qed

lemma message_round_trip:
  assumes "ActivityType_IsValid (act_Type (dm_Activity m))" and "map_ok (act_Params (dm_Activity m))"
  shows "unmarshal message_fields zero_message (Some (message_doc m))
    = Inr (m\<lparr>dm_Activity := (dm_Activity m)\<lparr>act_Params := json_column (act_Params (dm_Activity m))\<rparr>\<rparr>)"
  using assms
  by (cases m; cases "dm_Activity m")
    (simp add: unmarshal_def decode_struct_def message_doc_def message_fields_def find_field_def string_field_def
      zero_message_def activity_fields_def map_field_def activity_of_text_valid map_ok_column
      del: activity_of_text.simps map_map)

lemma distinct_sorted_entries [simp]: "distinct (map fst (sorted_entries m))"
  by (simp add: sorted_entries_def o_def)

definition arrived_packages :: "client_state \<Rightarrow> gval" where
  "arrived_packages st = VMap (map (\<lambda>(k, v). (k, VStr v)) (sorted_entries (st_Packages st)))"

definition arrived_result :: "env \<Rightarrow> result_message \<Rightarrow> result" where
  "arrived_result E m = \<lparr>res_RunID = rm_RunID m, res_WorkflowID = rm_WfID m, res_ClientID = rm_ClientID m,
     res_Status = rm_Status m,
     res_InnerState = [(''packages'', arrived_packages (rm_InnerState m)),
       (''config_version'', VF64 (f64_of_int (sint (st_ConfigVersion (rm_InnerState m))))),
       (''power_state'', VStr (power_text (st_PowerState (rm_InnerState m)))),
       (''is_crippled'', VBool (st_IsCrippled (rm_InnerState m))),
       (''cripple_mode'', VStr (cripple_text (st_CrippleMode (rm_InnerState m)))),
       (''cripple_recovery_attempts'', VF64 (f64_of_int (sint (st_CrippleRecoveryAttempts (rm_InnerState m)))))],
     res_ErrorMsg = rm_ErrorMsg m, res_Payload = json_column (rm_Payload m), res_ReceivedAt = env_now E\<rparr>"

definition arrived_client :: "string \<Rightarrow> client_state \<Rightarrow> client_metadata" where
  "arrived_client c st = (registration c st)\<lparr>cm_InnerState :=
     [(''packages'', arrived_packages st), (''config_version'', VF64 (f64_of_int (sint (st_ConfigVersion st)))),
      (''power_state'', VStr (power_text (st_PowerState st)))]\<rparr>"

lemma packages_arrive: "any_of (DObj (map (\<lambda>(k, v). (k, DStr v)) (sorted_entries m)))
   = VMap (map (\<lambda>(k, v). (k, VStr v)) (sorted_entries m))"
proof -
  have "map (\<lambda>(k, d). (k, any_of d)) (map (\<lambda>(k, v). (k, DStr v)) (sorted_entries m))
    = map (\<lambda>(k, v). (k, VStr v)) (sorted_entries m)" by auto
  then show ?thesis by (simp del: map_map)
qed

lemma map_field_obj: "last_wins (old s @ map (\<lambda>(k, d). (k, any_of d)) es) = m \<Longrightarrow> map_field old set_to (DObj es) s = (set_to m s, True)"
  by (simp add: map_field_def)

lemma result_round_trip:
  assumes "ResultStatus_IsValid (rm_Status m)" and "map_ok (rm_Payload m)"
  shows "ParseResult parse_time E (Some (result_doc m)) = Inr (arrived_result E m)"
  using assms
  by (simp add: ParseResult_def unmarshal_def decode_struct_def result_doc_def result_fields_def find_field_def
      string_field_def zero_result_def map_field_def state_doc_def packages_arrive arrived_result_def arrived_packages_def
      status_of_text_valid map_ok_column IsZero_def
      del: map_map any_of.simps(7) status_text.simps add: any_of.simps(1-6))

lemma registration_round_trip:
  assumes "parse_time (show_time 0) = Some t"
  shows "register_callback parse_time E (Some (client_doc show_time (registration c st))) S
    = handle_register E (Some (arrived_client c st)) S"
  using assms
  by (simp add: register_callback_def unmarshal_def decode_struct_def client_doc_def client_fields_def find_field_def
      string_field_def zero_client_def map_field_def labels_field_def bool_field_def time_field_def registration_def
      packages_arrive arrived_client_def arrived_packages_def handle_register_def
      del: map_map any_of.simps(7))

section \<open>What the pool publishes\<close>

text \<open>A result the server can use.\<close>

definition usable :: "result_message \<Rightarrow> bool" where
  "usable m \<longleftrightarrow> rm_RunID m \<noteq> [] \<and> rm_WfID m \<noteq> [] \<and> rm_ClientID m \<noteq> []
     \<and> ResultStatus_IsValid (rm_Status m) \<and> map_ok (rm_Payload m)"

definition usable_answer :: "activity_result \<Rightarrow> bool" where
  "usable_answer res \<longleftrightarrow> ResultStatus_IsValid (ar_Status res) \<and> map_ok (ar_Payload res)"

lemma usable_answer_simps [simp]:
  "usable_answer \<lparr>ar_Status = st, ar_Payload = p, ar_ErrorMsg = e\<rparr> = (ResultStatus_IsValid st \<and> map_ok p)"
  "usable_answer (result_error x)" "usable_answer (result_fail x)"
  "usable_answer (result_success p) = map_ok p"
  by (simp_all add: usable_answer_def result_error_def result_fail_def result_success_def map_ok_def)

lemma usable_ExecuteActivity: "usable_answer (snd (ExecuteActivity a s))"
  by (cases "act_Type a")
    (simp_all add: ExecuteActivity_def executeReboot_def executeInstallPackage_def
      executeUpgradePackage_def executeRemovePackage_def executeApplyConfig_def executeValidateConfig_def
      executeRunScript_def Let_def map_ok_def split: prod.split)

lemma usable_StandardExecutor: "StandardExecutor_Execute c a s = Inr (t, res) \<Longrightarrow> usable_answer res"
  using usable_ExecuteActivity [of a s] by (auto simp: StandardExecutor_Execute_def split: if_splits)

lemma usable_ChaosExecutor:
  assumes "ChaosExecutor_Execute iter src StandardExecutor_Execute c a s r = (Ret (Inr (t, res)), r')"
  shows "usable_answer res"
  using assms
proof (cases rule: ChaosExecutor_cases)
  case (newly_crippled r1 mode)
  then show ?thesis by (cases mode) auto
next
  case (drifted t res d r1)
  then show ?thesis by (cases d) (auto dest: usable_StandardExecutor)
qed (auto simp: map_ok_def dest: usable_StandardExecutor)

definition all_usable :: "'r pool \<Rightarrow> bool" where
  "all_usable P \<longleftrightarrow> list_all usable (published (pl_broker P)) \<and> list_all usable (pl_pending P)"

lemma Collect_usable:
  "Collect run w c res st ps = (e, ps') \<Longrightarrow> usable_answer res \<Longrightarrow> list_all usable ps \<Longrightarrow> list_all usable ps'"
  by (auto simp: Collect_def usable_def usable_answer_def split: if_splits)

lemma Flush_pool_usable:
  assumes "all_usable P"
  shows "all_usable (snd (Flush_pool P))"
proof -
  obtain e P' where f: "Flush_pool P = (e, P')" by fastforce
  obtain us where us: "pl_pending P \<in> shuffles us (pl_pending P')"
    "bk_sent (pl_broker P') = bk_sent (pl_broker P) @ map result_wire us"
    using Flush_pool_effect [OF f] by blast
  have "set us \<subseteq> set (pl_pending P)" "set (pl_pending P') \<subseteq> set (pl_pending P)"
    using set_shuffles [OF us(1)] by auto
  with assms us(2) f show ?thesis by (auto simp: all_usable_def published_def list_all_iff)
qed


locale usable_executor =
  fixes exec :: "string \<Rightarrow> activity \<Rightarrow> client_state \<Rightarrow> 'r \<Rightarrow> execution outcome \<times> 'r"
  assumes answers_usable: "exec c a s r = (Ret (Inr (t, res)), r') \<Longrightarrow> usable_answer res"
begin

lemma Handle_usable: "Handle exec d store r = (Ret (Inr (t, res)), r') \<Longrightarrow> usable_answer res"
  by (erule Handle_cases) (auto dest: answers_usable split: outcome.splits sum.splits)

lemma HandleDispatch_usable:
  assumes "all_usable P"
  shows "all_usable (snd (HandleDispatch exec d P))"
  using assms Handle_usable [of d "pl_store P" "pl_random P"]
  by (auto simp: HandleDispatch_def all_usable_def split: sum.split prod.split outcome.split option.split
      dest: Collect_usable)

lemma run_loop_usable: "all_usable P \<Longrightarrow> all_usable (snd (run_loop exec es P))"
proof (induction es arbitrary: P)
  case (Cons ev es)
  show ?case
  proof (cases ev)
    case (Dispatched msg)
    obtain out Q where h: "HandleDispatch exec msg P = (out, Q)" by fastforce
    with HandleDispatch_usable [OF Cons.prems, of msg] have "all_usable Q" by simp
    with h Dispatched Cons.IH [OF Flush_pool_usable] show ?thesis by (simp split: outcome.split)
  qed (simp_all add: Flush_pool_usable Cons.prems)
qed simp

end

interpretation wire_chaos: usable_executor "ChaosExecutor_Execute iter src StandardExecutor_Execute"
  by unfold_locales (rule usable_ChaosExecutor)

interpretation wire_standard: usable_executor "\<lambda>c a s r. (Ret (StandardExecutor_Execute c a s), r)"
  by unfold_locales (auto intro: usable_StandardExecutor)

section \<open>Delivery\<close>

lemma result_queue_bounded: "fold (result_callback n) ms [] = take n ms"
proof (induction ms rule: rev_induct)
  case (snoc m ms)
  then show ?case by (simp add: result_callback_def)
qed simp

lemma dispatch_callback_refuses: "dispatch_callback c (Some (dispatch_doc d)) out = out"
  using dispatch_refused [of d] by (auto simp: dispatch_callback_def)

definition sent_payload :: "string \<times> dispatch \<Rightarrow> string \<times> doc option" where
  "sent_payload msg = (fst msg, case GetPayload (snd msg) of Inl _ \<Rightarrow> None | Inr payload \<Rightarrow> Some payload)"

lemma sent_payload_refused: "dispatch_callback c (snd (sent_payload msg)) out = out"
  by (simp add: sent_payload_def GetPayload_def dispatch_callback_refuses)
    (simp add: dispatch_callback_def unmarshal_def)

lemma deliver_refused: "(\<And>c out. dispatch_callback c (snd msg) out = out) \<Longrightarrow> deliver ids msg out = out"
  by (induction ids arbitrary: out) auto

lemma server_subject: "defaultDispatchSubject c = dispatch_subject c"
  by (simp add: defaultDispatchSubject_def dispatch_subject_def)

lemma dispatch_subject_inject [simp]: "dispatch_subject c = dispatch_subject d \<longleftrightarrow> c = d"
  by (simp add: dispatch_subject_def)

lemma deliver_elsewhere: "c \<notin> set ids \<Longrightarrow> deliver ids (dispatch_subject c, data) out = out"
  by (induction ids arbitrary: out) auto

lemma deliver_subscribed:
  "distinct ids \<Longrightarrow> c \<in> set ids \<Longrightarrow> deliver ids (dispatch_subject c, data) out = dispatch_callback c data out"
  by (induction ids arbitrary: out) (auto simp: deliver_elsewhere)

lemma fold_ignored: "(\<And>x out. x \<in> set xs \<Longrightarrow> f x out = out) \<Longrightarrow> fold f xs out = out"
  by (induction xs arbitrary: out) auto

definition received :: "string \<Rightarrow> dispatch_message \<Rightarrow> dispatch_message" where
  "received c m = m\<lparr>dm_ClientID := c,
     dm_Activity := (dm_Activity m)\<lparr>act_Params := json_column (act_Params (dm_Activity m))\<rparr>\<rparr>"

text \<open>C7. A gap between the two programs: whatever the server sends and whichever clients are
  subscribed, no dispatch it sends over NATS is ever delivered, because the server writes the
  activity as a string with the parameters beside it and the super-client decodes an object with a
  type and parameters; a message in the format of the super-client's own type, on the subject of a
  subscribed client, is delivered exactly once, with its fields and the client subscribed for.\<close>

theorem no_dispatch_reaches_a_client:
  "fold (deliver ids) (map sent_payload (ob_sent ob)) out = out
   \<and> (distinct ids \<and> c \<in> set ids \<and> ActivityType_IsValid (act_Type (dm_Activity m))
        \<and> map_ok (act_Params (dm_Activity m)) \<longrightarrow>
      deliver ids (dispatch_subject c, Some (message_doc m)) out = out @ [received c m])"
proof
  show "fold (deliver ids) (map sent_payload (ob_sent ob)) out = out"
    by (rule fold_ignored) (auto simp: deliver_refused sent_payload_refused)
qed (simp add: deliver_subscribed dispatch_callback_def message_round_trip received_def)

theorem no_dispatch_reaches_a_client_witness:
  "deliver [''c1''] (dispatch_subject ''c1'', Some (message_doc sample_dispatch)) [] = [received ''c1'' sample_dispatch]"
proof -
  have "distinct [''c1'']" "''c1'' \<in> set [''c1'']"
    "ActivityType_IsValid (act_Type (dm_Activity sample_dispatch))"
    "map_ok (act_Params (dm_Activity sample_dispatch))"
    by (simp_all add: sample_dispatch_def reboot_def map_ok_def ActivityType_IsValid_iff)
  with no_dispatch_reaches_a_client [THEN conjunct2, THEN mp, of "[''c1'']" "''c1''" sample_dispatch "[]"]
  show ?thesis by simp
qed

text \<open>In any run of the pool every published result arrives as a valid result.\<close>

lemma pool_results_arrive_valid:
  assumes "all_usable P" and "run_loop (ChaosExecutor_Execute iter src StandardExecutor_Execute) es P = (out, P')"
    and "m \<in> set (published (pl_broker P'))"
  shows "ParseResult parse_time E (Some (result_doc m)) = Inr (arrived_result E m)
    \<and> Result_IsValid (arrived_result E m)"
proof -
  have "all_usable P'" using wire_chaos.run_loop_usable [OF assms(1), of iter src es] assms(2) by simp
  then have "usable m" using assms(3) by (simp add: all_usable_def list_all_iff)
  then show ?thesis
    by (simp add: result_round_trip usable_def arrived_result_def Result_IsValid_def)
qed

text \<open>What arrived is what the tables store.\<close>

lemma int64_finite: "is_finite_f64 (f64_of_int (sint (w :: int64)))"
  by (rule f64_of_int_finite) (rule sint64_small)

lemma arrived_state_column: "json_column (res_InnerState (arrived_result E m)) = res_InnerState (arrived_result E m)"
  by (simp add: arrived_result_def json_column_def arrived_packages_def list_all_iff o_def case_prod_unfold
      int64_finite)

lemma stored_arrived: "stored_result (arrived_result E m) = arrived_result E m"
  by (simp add: stored_result_def arrived_state_column) (simp add: arrived_result_def)

end
