(* ===== verification/Config.thy ===== *)
theory Config
  imports Wire
begin

text \<open>
  Configuration and wiring of the two programs: the environment variables of \<open>cmd/config.go\<close> and
  \<open>cmd/super-client/config.go\<close>, the services \<open>main\<close> of \<open>cmd/main.go\<close> builds from them, the periods of
  its tickers, and \<open>New\<close> of \<open>internal/app/app.go\<close> with the main program of the super-client. The
  environment is a function from names to values. Opening the database, connecting to NATS and
  listening are outcomes given as arguments.
\<close>

section \<open>Environment variables\<close>

type_synonym environment = "string \<Rightarrow> string option"

definition envStr :: "environment \<Rightarrow> string \<Rightarrow> string \<Rightarrow> string" where
  "envStr LookupEnv key def = (case LookupEnv key of Some v \<Rightarrow> if v \<noteq> [] then v else def | None \<Rightarrow> def)"

definition envInt :: "environment \<Rightarrow> string \<Rightarrow> int64 \<Rightarrow> int64" where
  "envInt LookupEnv key def = (case LookupEnv key of
     Some v \<Rightarrow> if v \<noteq> [] then (case Atoi v of (n, ok) \<Rightarrow> if ok then n else def) else def
   | None \<Rightarrow> def)"

definition envInt64 :: "environment \<Rightarrow> string \<Rightarrow> int64 \<Rightarrow> int64" where
  "envInt64 LookupEnv key def = (case LookupEnv key of
     Some v \<Rightarrow> if v \<noteq> [] then (case ParseInt v of Some n \<Rightarrow> n | None \<Rightarrow> def) else def
   | None \<Rightarrow> def)"

definition envFloat :: "environment \<Rightarrow> string \<Rightarrow> float64 \<Rightarrow> float64" where
  "envFloat LookupEnv key def = (case LookupEnv key of
     Some v \<Rightarrow> if v \<noteq> [] then (case ParseFloat v of Some x \<Rightarrow> x | None \<Rightarrow> def) else def
   | None \<Rightarrow> def)"

text \<open>\<open>strconv.ParseBool\<close>.\<close>

definition ParseBool :: "string \<Rightarrow> bool option" where
  "ParseBool s = (if s \<in> set [''1'', ''t'', ''T'', ''TRUE'', ''true'', ''True''] then Some True
     else if s \<in> set [''0'', ''f'', ''F'', ''FALSE'', ''false'', ''False''] then Some False
     else None)"

definition envBool :: "environment \<Rightarrow> string \<Rightarrow> bool \<Rightarrow> bool" where
  "envBool LookupEnv key def = (case LookupEnv key of
     Some v \<Rightarrow> if v \<noteq> [] then (case ParseBool v of Some b \<Rightarrow> b | None \<Rightarrow> def) else def
   | None \<Rightarrow> def)"

section \<open>The server's configuration\<close>

record config =
  cf_HTTPHost :: string
  cf_HTTPPort :: int64
  cf_HTTPReadTimeoutMS :: int64
  cf_DBPath :: string
  cf_NatsURL :: string
  cf_TriggerCheckIntervalMS :: int64
  cf_HealthAggregationIntervalMS :: int64
  cf_HealthWindowSize :: int64
  cf_HealthSuccessThreshold :: float64
  cf_CircuitBreakerCheckIntervalMS :: int64
  cf_CircuitBreakerSuccessThreshold :: float64
  cf_CircuitBreakerCooldownMS :: int64
  cf_LoopThresholdMS :: int64
  cf_LogLevel :: string
  cf_ShutdownTimeoutMS :: int64
  cf_StartNATS :: bool

definition config_of :: "environment \<Rightarrow> config" where
  "config_of LookupEnv = \<lparr>
     cf_HTTPHost = envStr LookupEnv ''HTTP_HOST'' ''0.0.0.0'',
     cf_HTTPPort = envInt LookupEnv ''HTTP_PORT'' 8080,
     cf_HTTPReadTimeoutMS = envInt64 LookupEnv ''HTTP_READ_TIMEOUT_MS'' 30000,
     cf_DBPath = envStr LookupEnv ''DB_PATH'' ''./data/server.db'',
     cf_NatsURL = envStr LookupEnv ''NATS_URL'' ''nats://localhost:4222'',
     cf_TriggerCheckIntervalMS = envInt64 LookupEnv ''TRIGGER_CHECK_INTERVAL_MS'' 5000,
     cf_HealthAggregationIntervalMS = envInt64 LookupEnv ''HEALTH_AGGREGATION_INTERVAL_MS'' 5000,
     cf_HealthWindowSize = envInt LookupEnv ''HEALTH_WINDOW_SIZE'' 10,
     cf_HealthSuccessThreshold = envFloat LookupEnv ''HEALTH_SUCCESS_THRESHOLD'' (f64_of_int 80),
     cf_CircuitBreakerCheckIntervalMS = envInt64 LookupEnv ''CIRCUIT_BREAKER_CHECK_INTERVAL_MS'' 10000,
     cf_CircuitBreakerSuccessThreshold = envFloat LookupEnv ''CIRCUIT_BREAKER_SUCCESS_THRESHOLD'' (f64_of_int 80),
     cf_CircuitBreakerCooldownMS = envInt64 LookupEnv ''CIRCUIT_BREAKER_COOLDOWN_MS'' 300000,
     cf_LoopThresholdMS = envInt64 LookupEnv ''LOOP_THRESHOLD_MS'' 5000,
     cf_LogLevel = envStr LookupEnv ''LOG_LEVEL'' ''info'',
     cf_ShutdownTimeoutMS = envInt64 LookupEnv ''SHUTDOWN_TIMEOUT_MS'' 30000,
     cf_StartNATS = envBool LookupEnv ''START_NATS'' True\<rparr>"

definition log_levels :: "string list" where
  "log_levels = [''debug'', ''info'', ''warn'', ''error'']"

definition LoadConfig :: "environment \<Rightarrow> go_error + config" where
  "LoadConfig LookupEnv = (let c = config_of LookupEnv in
     if sint (cf_HTTPPort c) < 1 \<or> 65535 < sint (cf_HTTPPort c)
     then Inl (ErrMsg (''invalid HTTP_PORT: '' @ show_int (sint (cf_HTTPPort c))))
     else if flt (cf_HealthSuccessThreshold c) (f64_of_int 0) \<or> flt (f64_of_int 100) (cf_HealthSuccessThreshold c)
     then Inl (ErrMsg ''invalid HEALTH_SUCCESS_THRESHOLD'')
     else if cf_LogLevel c \<notin> set log_levels
     then Inl (ErrMsg (''invalid LOG_LEVEL: '' @ cf_LogLevel c))
     else Inr c)"

section \<open>The services built from it\<close>

definition circuit_defaults :: "config \<Rightarrow> policy" where
  "circuit_defaults cfg = \<lparr>po_SuccessThreshold = cf_CircuitBreakerSuccessThreshold cfg,
     po_EvaluationWindow = cf_HealthWindowSize cfg,
     po_CooldownPeriod = cf_CircuitBreakerCooldownMS cfg * Millisecond\<rparr>"

definition wire_services :: "(result \<Rightarrow> string) \<Rightarrow> config \<Rightarrow> server_config" where
  "wire_services evidence cfg = (let
     configRepo = NewDefaultConfigRepository (cf_HealthSuccessThreshold cfg) (cf_HealthWindowSize cfg);
     healthSvc = NewHealthMonitoringService (Some configRepo) (cf_HealthWindowSize cfg);
     policyRepo = NewDefaultPolicyRepo (cf_CircuitBreakerSuccessThreshold cfg) (cf_HealthWindowSize cfg)
       (cf_CircuitBreakerCooldownMS cfg);
     circuitSvc = NewCircuitBreakerService (Some policyRepo) True (Some (circuit_defaults cfg));
     loopSvc = NewLoopDetectionService True (cf_LoopThresholdMS cfg)
     in \<lparr>cfg_evidence = evidence, cfg_loop = loopSvc, cfg_health = healthSvc, cfg_circuit = circuitSvc\<rparr>)"

text \<open>The period of the trigger evaluator.\<close>

definition trigger_tick :: "int64 \<Rightarrow> duration" where
  "trigger_tick tickMS = (let tick = tickMS * Millisecond in if sint tick \<le> 0 then 5 * Second else tick)"

text \<open>\<open>runPeriodic\<close> until the context is cancelled, which happens after \<open>n\<close> ticks; a period that is
  not positive means never.\<close>

definition runPeriodic :: "duration \<Rightarrow> ('s \<Rightarrow> 's) \<Rightarrow> nat \<Rightarrow> 's \<Rightarrow> 's" where
  "runPeriodic d f n st = (if sint d \<le> 0 then st else (f ^^ n) st)"

text \<open>The start of \<open>main\<close>. \<open>mkdir\<close>, \<open>opened\<close> and \<open>listen\<close> are the outcomes of making the directory of the
  path, opening the database and listening; \<open>connect\<close> gives the NATS connection, \<open>subscribe\<close> the outcome of
  subscribing to the results. A fatal error ends the program. Without NATS the program runs on with
  a dispatcher that only remembers what it is given.\<close>

definition NewOutbox :: outbox where
  "NewOutbox = \<lparr>ob_calls = 0, ob_publish = \<lambda>_. None, ob_flush = \<lambda>_. None, ob_sent = []\<rparr>"

record running =
  rg_services :: server_config
  rg_sender :: sender
  rg_results :: bool
  rg_triggerTick :: duration
  rg_aggregateTick :: duration
  rg_circuitTick :: duration
  rg_server :: server

definition server_main ::
  "env \<Rightarrow> (result \<Rightarrow> string) \<Rightarrow> environment \<Rightarrow> (string \<Rightarrow> go_error option) \<Rightarrow> (string \<Rightarrow> go_error + server)
     \<Rightarrow> (string \<Rightarrow> go_error + outbox) \<Rightarrow> (string \<Rightarrow> go_error option) \<Rightarrow> (string \<Rightarrow> go_error option) \<Rightarrow> go_error + running" where
  "server_main E evidence LookupEnv mkdir opened connect subscribe listen = (case LoadConfig LookupEnv of
     Inl err \<Rightarrow> Inl (ErrWrap ''config error: '' err [])
   | Inr cfg \<Rightarrow> (case mkdir (cf_DBPath cfg) of Some err \<Rightarrow> Inl (ErrWrap ''mkdir db: '' err []) | None \<Rightarrow>
       (case opened (cf_DBPath cfg) of Inl err \<Rightarrow> Inl (ErrWrap ''open db: '' err []) | Inr db \<Rightarrow>
         let natsConn = (case connect (cf_NatsURL cfg) of Inl _ \<Rightarrow> None | Inr conn \<Rightarrow> Some conn);
             results = (natsConn \<noteq> None \<and> subscribe ''result.>'' = None);
             conn = (case natsConn of Some conn \<Rightarrow> conn | None \<Rightarrow> NewOutbox);
             S = start_up E conn db
         in (case listen (cf_HTTPHost cfg @ '':'' @ show_int (sint (cf_HTTPPort cfg))) of
               Some err \<Rightarrow> Inl (ErrWrap ''listen: '' err [])
             | None \<Rightarrow> Inr \<lparr>rg_services = wire_services evidence cfg,
                 rg_sender = pickDispatcher (map_option (\<lambda>_. NATS_SendDispatch) natsConn),
                 rg_results = results, rg_triggerTick = trigger_tick (cf_TriggerCheckIntervalMS cfg),
                 rg_aggregateTick = cf_HealthAggregationIntervalMS cfg * Millisecond,
                 rg_circuitTick = cf_CircuitBreakerCheckIntervalMS cfg * Millisecond,
                 rg_server = S\<rparr>))))"

section \<open>The super-client\<close>

record super_config =
  sc_NATSUrl :: string
  sc_PoolSize :: int64
  sc_ClientPrefix :: string
  sc_LogLevel :: string

definition getenv :: "environment \<Rightarrow> string \<Rightarrow> string \<Rightarrow> string" where
  "getenv LookupEnv key defaultVal = (let v = (case LookupEnv key of Some v \<Rightarrow> v | None \<Rightarrow> []) in
     if v \<noteq> [] then v else defaultVal)"

text \<open>The verb \<open>%q\<close>: \<open>strconv.Quote\<close> on code points below 256.\<close>

definition hex_digit :: "nat \<Rightarrow> char" where
  "hex_digit n = char_of (if n < 10 then 48 + n else 87 + n)"

definition quote_char :: "char \<Rightarrow> string" where
  "quote_char c = (let n = ch c; hex = [hex_digit (n div 16), hex_digit (n mod 16)] in
     if n = 34 \<or> n = 92 then [char_of (92 :: nat), c]
     else if 7 \<le> n \<and> n \<le> 13 then [char_of (92 :: nat), ''abtnvfr'' ! (n - 7)]
     else if n < 32 \<or> n = 127 then [char_of (92 :: nat), CHR ''x''] @ hex
     else if (128 \<le> n \<and> n \<le> 160) \<or> n = 173 then [char_of (92 :: nat)] @ ''u00'' @ hex
     else [c])"

definition quoted :: "string \<Rightarrow> string" where
  "quoted s = char_of (34 :: nat) # concat (map quote_char s) @ [char_of (34 :: nat)]"

definition loadConfig :: "environment \<Rightarrow> go_error + super_config" where
  "loadConfig LookupEnv = (let natsURL = getenv LookupEnv ''NATS_URL'' ''nats://localhost:4222'';
     poolSizeStr = getenv LookupEnv ''POOL_SIZE'' ''5'' in
     case Atoi poolSizeStr of (poolSize, ok) \<Rightarrow>
       if \<not> ok \<or> sint poolSize \<le> 0
       then Inl (ErrMsg (''invalid POOL_SIZE='' @ quoted poolSizeStr @ '': must be a positive integer''))
       else Inr \<lparr>sc_NATSUrl = natsURL, sc_PoolSize = poolSize,
         sc_ClientPrefix = getenv LookupEnv ''CLIENT_PREFIX'' ''client'',
         sc_LogLevel = getenv LookupEnv ''LOG_LEVEL'' ''info''\<rparr>)"

text \<open>\<open>app.New\<close>; \<open>connect\<close> is what connecting to the URL gives, \<open>random\<close> the generator's state.\<close>

definition App_New :: "(string \<Rightarrow> go_error + broker) \<Rightarrow> 'r \<Rightarrow> super_config \<Rightarrow> go_error + 'r pool" where
  "App_New connect random cfg = (case connect (sc_NATSUrl cfg) of
     Inl err \<Rightarrow> Inl (ErrWrap ''create nats broker: '' (ErrWrap ''nats connect: '' err []) [])
   | Inr b \<Rightarrow> Inr \<lparr>pl_store = NewMemoryStore, pl_broker = b, pl_pending = [], pl_random = random,
       pl_prefix = sc_ClientPrefix cfg, pl_clientIDs = []\<rparr>)"

text \<open>The main program: its exit code, or \<open>None\<close> while it is running or after a panic, and the pool.\<close>

definition super_client_main ::
  "environment \<Rightarrow> (string \<Rightarrow> go_error + broker) \<Rightarrow> map_order \<Rightarrow> 'r chaos_source \<Rightarrow> 'r
     \<Rightarrow> go_error option \<Rightarrow> run_event list \<Rightarrow> nat option \<times> 'r pool option" where
  "super_client_main LookupEnv connect iter src random subscribed es = (case loadConfig LookupEnv of
     Inl _ \<Rightarrow> (Some 1, None)
   | Inr cfg \<Rightarrow> (case App_New connect random cfg of
       Inl _ \<Rightarrow> (Some 1, None)
     | Inr P \<Rightarrow> (case Start (ChaosExecutor_Execute iter src StandardExecutor_Execute) subscribed (sc_PoolSize cfg) es P of
         (Panic _, P) \<Rightarrow> (None, Some P)
       | (Ret None, P) \<Rightarrow> (None, Some P)
       | (Ret (Some (Inl _)), P) \<Rightarrow> (Some 1, Some P)
       | (Ret (Some (Inr _)), P) \<Rightarrow> (Some 0, Some (snd (Shutdown P))))))"

section \<open>What a configuration guarantees\<close>

text \<open>A wrong or missing number falls back to the default, a number printed in decimal is read back.\<close>

lemma envInt64_show: "LookupEnv key = Some (show_int (sint n)) \<Longrightarrow> envInt64 LookupEnv key def = n"
  using ParseInt_show_int [of n] by (cases "show_int (sint n)") (auto simp: envInt64_def ParseInt_def)

lemma Atoi_ParseInt: "Atoi s = (n, True) \<longleftrightarrow> ParseInt s = Some n"
  by (auto simp: Atoi_def ParseInt_def Let_def)

lemma envInt_envInt64: "envInt LookupEnv key def = envInt64 LookupEnv key def"
proof -
  have "(case Atoi v of (n, ok) \<Rightarrow> if ok then n else def) = (case ParseInt v of Some n \<Rightarrow> n | None \<Rightarrow> def)" for v
    using Atoi_ParseInt [of v] by (cases "Atoi v"; cases "ParseInt v"; cases "snd (Atoi v)") auto
  then show ?thesis by (simp add: envInt_def envInt64_def split: option.split)
qed

lemma LoadConfig_ok:
  assumes "LoadConfig LookupEnv = Inr c"
  shows "c = config_of LookupEnv" and "1 \<le> sint (cf_HTTPPort c)" and "sint (cf_HTTPPort c) \<le> 65535"
    and "\<not> flt (cf_HealthSuccessThreshold c) (f64_of_int 0)" and "\<not> flt (f64_of_int 100) (cf_HealthSuccessThreshold c)"
    and "cf_LogLevel c \<in> set log_levels"
  using assms by (auto simp: LoadConfig_def Let_def split: if_splits)

lemma LoadConfig_defaults:
  "LoadConfig (\<lambda>_. None) = Inr (config_of (\<lambda>_. None))" "cf_HTTPPort (config_of (\<lambda>_. None)) = 8080"
  "cf_LogLevel (config_of (\<lambda>_. None)) = ''info''"
proof -
  show port: "cf_HTTPPort (config_of (\<lambda>_. None)) = 8080" by (simp add: config_of_def envInt_def)
  show level: "cf_LogLevel (config_of (\<lambda>_. None)) = ''info''" by (simp add: config_of_def envStr_def)
  have "cf_HealthSuccessThreshold (config_of (\<lambda>_. None)) = f64_of_int 80" by (simp add: config_of_def envFloat_def)
  then show "LoadConfig (\<lambda>_. None) = Inr (config_of (\<lambda>_. None))"
    by (simp only: LoadConfig_def Let_def port level) (simp add: f64_of_int_exact log_levels_def)
qed

text \<open>\<open>NaN\<close> is neither below 0 nor above 100, so the check lets it through.\<close>

lemma LoadConfig_accepts_NaN:
  assumes "LookupEnv ''HEALTH_SUCCESS_THRESHOLD'' = Some ''NaN''"
    and "1 \<le> sint (cf_HTTPPort (config_of LookupEnv))" and "sint (cf_HTTPPort (config_of LookupEnv)) \<le> 65535"
    and "cf_LogLevel (config_of LookupEnv) \<in> set log_levels"
  shows "LoadConfig LookupEnv = Inr (config_of LookupEnv) \<and> cf_HealthSuccessThreshold (config_of LookupEnv) = FNaN"
proof -
  have "ParseFloat ''NaN'' = Some FNaN" by code_simp
  then have nan: "cf_HealthSuccessThreshold (config_of LookupEnv) = FNaN"
    by (simp add: config_of_def envFloat_def assms(1))
  have "\<not> flt FNaN x" "\<not> flt x FNaN" for x by (cases x; simp)+
  with nan assms(2-4) show ?thesis by (simp add: LoadConfig_def Let_def)
qed

text \<open>Whatever the configuration, the services work with positive windows and periods.\<close>

lemma trigger_tick_positive: "0 < sint (trigger_tick ms)"
  by (simp add: trigger_tick_def Let_def Second_def)

lemma wired_windows_positive:
  "0 < sint (hs_windowSize (cfg_health (wire_services ev cfg)))"
  "cs_stateMgr (cfg_circuit (wire_services ev cfg))" "ls_enforcer (cfg_loop (wire_services ev cfg))"
  by (simp_all add: wire_services_def Let_def NewHealthMonitoringService_def NewCircuitBreakerService_def
      NewLoopDetectionService_def)

text \<open>\<open>START_NATS\<close> is read and never used: it changes nothing.\<close>

lemma START_NATS_ignored:
  "server_main E ev (LookupEnv(''START_NATS'' := v)) mkdir opened connect subscribe listen
    = server_main E ev LookupEnv mkdir opened connect subscribe listen"
proof -
  define c where "c = config_of LookupEnv"
  have same: "config_of (LookupEnv(''START_NATS'' := v))
    = c\<lparr>cf_StartNATS := cf_StartNATS (config_of (LookupEnv(''START_NATS'' := v)))\<rparr>"
    by (simp add: c_def config_of_def envStr_def envInt_def envInt64_def envFloat_def)
  have load: "LoadConfig (LookupEnv(''START_NATS'' := v)) = (case LoadConfig LookupEnv of
      Inl e \<Rightarrow> Inl e | Inr c \<Rightarrow> Inr (c\<lparr>cf_StartNATS := cf_StartNATS (config_of (LookupEnv(''START_NATS'' := v)))\<rparr>))"
    by (subst (1 2) LoadConfig_def, subst same) (simp add: c_def Let_def)
  have "wire_services ev (cfg\<lparr>cf_StartNATS := b\<rparr>) = wire_services ev cfg" for cfg b
    by (simp add: wire_services_def circuit_defaults_def)
  then show ?thesis by (cases "LoadConfig LookupEnv") (simp_all add: server_main_def load Let_def
    cong del: option.case_cong_weak sum.case_cong_weak)
qed

text \<open>A program that starts has consistent tables and a warm cache when the database has consistent
  tables; only a NATS connection makes it send anything to a client.\<close>

lemma server_main_starts:
  assumes "server_main E ev LookupEnv mkdir opened connect subscribe listen = Inr rg"
    and "\<And>path db. opened path = Inr db \<Longrightarrow> server_ok db"
  shows "server_ok (rg_server rg) \<and> 0 < sint (rg_triggerTick rg)"
proof -
  have "\<exists>ms. rg_triggerTick rg = trigger_tick ms"
    using assms(1) by (auto simp: server_main_def Let_def split: sum.splits option.splits)
  moreover obtain path db conn where "opened path = Inr db" "rg_server rg = start_up E conn db"
    using assms(1) unfolding server_main_def Let_def
    by (auto split: sum.splits option.splits intro: that)
  ultimately show ?thesis using assms(2) start_up_ok trigger_tick_positive by metis
qed

lemma loadConfig_ok: "loadConfig LookupEnv = Inr c \<Longrightarrow> 0 < sint (sc_PoolSize c)"
  by (auto simp: loadConfig_def Let_def split: prod.splits if_splits)

text \<open>Whatever the environment and the connection do, every result the program publishes or leaves
  in its queue is one the server can use, and it never panics.\<close>

lemma RegisterClient_usable:
  "list_all usable (published (snd (RegisterClient c b))) = list_all usable (published b)"
  by (simp add: RegisterClient_def Publish_conn_def published_def Let_def split: option.split)

lemma init_loop_usable: "all_usable P \<Longrightarrow> all_usable (snd (init_loop i n P))"
  by (induction n arbitrary: i P) (simp_all add: Let_def all_usable_def RegisterClient_usable)

lemma Start_usable:
  assumes "all_usable P"
  shows "all_usable (snd (Start (ChaosExecutor_Execute iter src StandardExecutor_Execute) subscribed n es P))"
proof -
  have Q: "all_usable (snd (Initialize n P))"
    using assms init_loop_usable [of "P\<lparr>pl_clientIDs := []\<rparr>"] by (simp add: Initialize_def all_usable_def)
  obtain o1 Q where i: "Initialize n P = (o1, Q)" by fastforce
  with Q wire_chaos.run_loop_usable [of Q iter src es] show ?thesis
    by (simp add: Start_def Run_pool_def split: sum.split option.split)
qed

lemma Shutdown_usable: "all_usable P \<Longrightarrow> all_usable (snd (Shutdown P))"
  using Flush_pool_usable [of P]
  by (simp add: Shutdown_def Broker_Close_def all_usable_def published_def Let_def)

lemma super_client_main_usable:
  assumes "\<And>url b. connect url = Inr b \<Longrightarrow> bk_sent b = []"
    and "super_client_main LookupEnv connect iter src random subscribed es = (code, Some P)"
  shows "all_usable P"
proof -
  obtain cfg where cfg: "loadConfig LookupEnv = Inr cfg"
    using assms(2) by (auto simp: super_client_main_def split: sum.splits)
  obtain Q where Q: "App_New connect random cfg = Inr Q"
    using assms(2) cfg by (auto simp: super_client_main_def split: sum.splits)
  have "all_usable Q"
    using Q assms(1) by (auto simp: App_New_def all_usable_def published_def split: sum.splits)
  then have "all_usable (snd (Start (ChaosExecutor_Execute iter src StandardExecutor_Execute) subscribed
      (sc_PoolSize cfg) es Q))" by (rule Start_usable)
  with assms(2) cfg Q show ?thesis
    by (auto simp: super_client_main_def Shutdown_usable split: prod.splits outcome.splits option.splits sum.splits)
qed

end
