(* ===== verification/Rows.thy ===== *)
theory Rows
  imports Wire
begin

text \<open>
  The columns of the database (\<open>internal/adapters/repository\<close>): for every table of \<open>schema.sql\<close> the
  row an \<open>INSERT\<close> binds and the function that scans a row of a \<open>SELECT\<close>, with the loop that collects
  the rows of a query. A column that may be \<open>NULL\<close> is an option, a column of JSON is the document or
  other text. \<open>row_codec\<close> is the contract of a table: what is bound is read back. The driver keeps
  the instant of a time and the value of a number; a NaN it would store as \<open>NULL\<close>.
\<close>

section \<open>Texts of named constants\<close>

text \<open>A Go string type with constants is read from a column by \<open>domain.RunState(state)\<close> and alike: the
  constant with that text, or the text itself.\<close>

definition of_text :: "('a \<Rightarrow> string) \<Rightarrow> 'a list \<Rightarrow> (string \<Rightarrow> 'a) \<Rightarrow> string \<Rightarrow> 'a" where
  "of_text show_it constants other s = (case find (\<lambda>a. show_it a = s) constants of Some a \<Rightarrow> a | None \<Rightarrow> other s)"

definition canonical :: "('a \<Rightarrow> string) \<Rightarrow> 'a list \<Rightarrow> 'a \<Rightarrow> bool" where
  "canonical show_it constants a \<longleftrightarrow> a \<in> set constants \<or> show_it a \<notin> show_it ` set constants"

locale open_enum =
  fixes show_it :: "'a \<Rightarrow> string" and constants :: "'a list" and other :: "string \<Rightarrow> 'a"
  assumes show_other: "show_it (other s) = s"
    and constants_apart: "distinct (map show_it constants)"
    and only_these: "a \<notin> set constants \<Longrightarrow> a = other (show_it a)"
begin

lemma show_of_text: "show_it (of_text show_it constants other s) = s"
  by (auto simp: of_text_def show_other find_Some_iff split: option.split)

lemma of_text_show:
  assumes "canonical show_it constants a"
  shows "of_text show_it constants other (show_it a) = a"
proof (cases "find (\<lambda>x. show_it x = show_it a) constants")
  case None
  then have "show_it a \<notin> show_it ` set constants" by (auto simp: find_None_iff)
  then have "a \<notin> set constants" by blast
  then have "other (show_it a) = a" using only_these by simp
  with None show ?thesis by (simp add: of_text_def)
next
  case (Some x)
  then have x: "x \<in> set constants" "show_it x = show_it a" by (auto simp: find_Some_iff)
  with assms have "a \<in> set constants" by (auto simp: canonical_def image_iff dest!: bspec [of _ _ x])
  with x constants_apart have "x = a" by (auto simp: distinct_map dest: inj_onD)
  with Some show ?thesis by (simp add: of_text_def)
qed

end

fun run_state_text :: "run_state \<Rightarrow> string" where
  "run_state_text RunPending = ''pending''"
| "run_state_text RunInProgress = ''in_progress''"
| "run_state_text RunCompleted = ''completed''"
| "run_state_text RunFailed = ''failed''"
| "run_state_text (RunOther s) = s"

definition run_states :: "run_state list" where
  "run_states = [RunPending, RunInProgress, RunCompleted, RunFailed]"

fun trend_text :: "trend \<Rightarrow> string" where
  "trend_text TrendImproving = ''improving''"
| "trend_text TrendDegrading = ''degrading''"
| "trend_text TrendStable = ''stable''"
| "trend_text (TrendOther s) = s"

definition trends :: "trend list" where
  "trends = [TrendImproving, TrendDegrading, TrendStable]"

fun circuit_state_text :: "circuit_state \<Rightarrow> string" where
  "circuit_state_text CircuitClosed = ''closed''"
| "circuit_state_text CircuitOpen = ''open''"
| "circuit_state_text CircuitHalfOpen = ''half_open''"
| "circuit_state_text (CircuitOther s) = s"

definition circuit_states :: "circuit_state list" where
  "circuit_states = [CircuitClosed, CircuitOpen, CircuitHalfOpen]"

fun trigger_kind_text :: "trigger_kind \<Rightarrow> string" where
  "trigger_kind_text TriggerScheduled = ''scheduled''"
| "trigger_kind_text TriggerEvent = ''event''"
| "trigger_kind_text TriggerStateChange = ''state_change''"
| "trigger_kind_text TriggerManual = ''manual''"
| "trigger_kind_text (TriggerOther s) = s"

definition trigger_kinds :: "trigger_kind list" where
  "trigger_kinds = [TriggerScheduled, TriggerEvent, TriggerStateChange, TriggerManual]"

definition ban_reasons :: "ban_reason list" where
  "ban_reasons = [ReasonLoopDetected, ReasonManual, ReasonAdminUnbanFail]"

definition result_statuses :: "result_status list" where
  "result_statuses = [ResultSuccess, ResultFail, ResultError]"

lemmas constant_lists = run_states_def trends_def circuit_states_def trigger_kinds_def ban_reasons_def
  result_statuses_def ValidActivityTypes_def

interpretation run_state_enum: open_enum run_state_text run_states RunOther
  by unfold_locales (simp_all add: constant_lists, case_tac a, simp_all)

interpretation trend_enum: open_enum trend_text trends TrendOther
  by unfold_locales (simp_all add: constant_lists, case_tac a, simp_all)

interpretation circuit_enum: open_enum circuit_state_text circuit_states CircuitOther
  by unfold_locales (simp_all add: constant_lists, case_tac a, simp_all)

interpretation kind_enum: open_enum trigger_kind_text trigger_kinds TriggerOther
  by unfold_locales (simp_all add: constant_lists, case_tac a, simp_all)

interpretation reason_enum: open_enum ban_reason_text ban_reasons ReasonOther
  by unfold_locales (simp_all add: constant_lists, case_tac a, simp_all)

interpretation status_enum: open_enum status_text result_statuses ResultOther
  by unfold_locales (simp_all add: constant_lists, case_tac a, simp_all)

interpretation activity_enum: open_enum activity_text ValidActivityTypes ActivityOther
  by unfold_locales (simp_all add: constant_lists, case_tac a, simp_all)

lemma activity_of_text_eq: "activity_of_text = of_text activity_text ValidActivityTypes ActivityOther"
  by (simp add: fun_eq_iff of_text_def)

lemma status_of_text_eq: "status_of_text = of_text status_text result_statuses ResultOther"
  by (simp add: fun_eq_iff of_text_def status_of_text_def result_statuses_def)

section \<open>Columns of JSON\<close>

text \<open>What a column of JSON holds: the text of a document, or a text that is none (the empty one, when
  \<open>json.Marshal\<close> failed).\<close>

datatype json_text = JSON doc | NotJSON string

definition map_doc :: "gmap \<Rightarrow> doc" where
  "map_doc m = DObj (map (\<lambda>(k, v). (k, doc_of v)) m)"

definition marshal_map :: "gmap \<Rightarrow> json_text" where
  "marshal_map m = (if list_all (\<lambda>(k, v). json_ok v) m then JSON (map_doc m) else NotJSON [])"

definition marshal_strings :: "string list \<Rightarrow> json_text" where
  "marshal_strings ss = JSON (DArr (map DStr ss))"

definition marshal_labels :: "(string \<times> string) list \<Rightarrow> json_text" where
  "marshal_labels m = JSON (DObj (map (\<lambda>(k, v). (k, DStr v)) m))"

text \<open>\<open>if text.Valid && text.String != "" { _ = json.Unmarshal([]byte(text.String), &v) }\<close>: text that is
  no document changes nothing, a value of the wrong kind only what it could be read into.\<close>

definition read_json :: "'s field \<Rightarrow> json_text option \<Rightarrow> 's \<Rightarrow> 's" where
  "read_json fld column s = (case column of Some (JSON d) \<Rightarrow> fst (fld d s) | _ \<Rightarrow> s)"

definition read_map :: "json_text option \<Rightarrow> gmap \<Rightarrow> gmap" where
  "read_map = read_json (map_field (\<lambda>m. m) (\<lambda>m _. m))"

definition read_labels :: "json_text option \<Rightarrow> (string \<times> string) list \<Rightarrow> (string \<times> string) list" where
  "read_labels = read_json (labels_field (\<lambda>m. m) (\<lambda>m _. m))"

definition strings_field :: "string list field" where
  "strings_field d ss = (case d of
     DArr ds \<Rightarrow> (map text_of ds, list_all text_or_null ds)
   | DNull \<Rightarrow> ([], True)
   | _ \<Rightarrow> (ss, False))"

definition read_strings :: "json_text option \<Rightarrow> string list \<Rightarrow> string list" where
  "read_strings = read_json strings_field"

text \<open>The keys of a map are distinct; encoding may fail.\<close>

definition keys_distinct :: "gmap \<Rightarrow> bool" where
  "keys_distinct m \<longleftrightarrow> distinct (map fst m) \<and> list_all (\<lambda>(k, v). keys_ok v) m"

lemma read_marshal_map: "keys_distinct m \<Longrightarrow> read_map (Some (marshal_map m)) [] = json_column m"
proof (cases "list_all (\<lambda>(k, v). json_ok v) m")
  case True
  moreover assume "keys_distinct m"
  ultimately have "map_ok m" by (auto simp: keys_distinct_def map_ok_def list_all_iff)
  from map_ok_column [OF this] True show ?thesis
    by (simp add: read_map_def read_json_def marshal_map_def map_field_def map_doc_def del: map_map)
qed (simp add: read_map_def read_json_def marshal_map_def json_column_def)

lemma read_marshal_labels: "distinct (map fst m) \<Longrightarrow> read_labels (Some (marshal_labels m)) [] = m"
proof -
  assume "distinct (map fst m)"
  moreover have "map (\<lambda>(k, d). (k, text_of d)) (map (\<lambda>(k, v). (k, DStr v)) m) = m" by (induction m) auto
  ultimately show ?thesis by (simp add: read_labels_def read_json_def marshal_labels_def labels_field_def del: map_map)
qed

lemma read_marshal_strings [simp]: "read_strings (Some (marshal_strings ss)) old = ss"
  by (simp add: read_strings_def read_json_def marshal_strings_def strings_field_def o_def)

section \<open>Scanning rows\<close>

text \<open>What there is to scan: a row, no row (\<open>sql.ErrNoRows\<close>), or the driver's error.\<close>

datatype 'c row = Row 'c | NoRow | RowError go_error

definition scan_row :: "go_error \<Rightarrow> ('c \<Rightarrow> go_error + 'r) \<Rightarrow> 'c row \<Rightarrow> go_error + 'r" where
  "scan_row missing f row = (case row of Row c \<Rightarrow> f c | NoRow \<Rightarrow> Inl missing | RowError e \<Rightarrow> Inl e)"

text \<open>\<open>QueryRowContext\<close>: the first row of the answer.\<close>

definition first_row :: "'c list \<Rightarrow> 'c row" where
  "first_row rows = (case rows of [] \<Rightarrow> NoRow | c # _ \<Rightarrow> Row c)"

text \<open>\<open>for rows.Next()\<close>: the first error ends the loop, and \<open>rows.Err()\<close> has the last word.\<close>

fun collect :: "('c row \<Rightarrow> go_error + 'r) \<Rightarrow> 'c list \<Rightarrow> go_error option \<Rightarrow> go_error + 'r list" where
  "collect scan [] err = (case err of None \<Rightarrow> Inr [] | Some e \<Rightarrow> Inl e)"
| "collect scan (c # cs) err = (case scan (Row c) of
     Inl e \<Rightarrow> Inl e
   | Inr r \<Rightarrow> (case collect scan cs err of Inl e \<Rightarrow> Inl e | Inr rs \<Rightarrow> Inr (r # rs)))"

text \<open>A nullable column scanned into a plain \<open>string\<close>.\<close>

definition plain_text :: "string option \<Rightarrow> go_error + string" where
  "plain_text column = (case column of Some s \<Rightarrow> Inr s
     | None \<Rightarrow> Inl (ErrMsg ''converting NULL to string is unsupported''))"

definition nullableTime :: "time \<Rightarrow> time option" where
  "nullableTime t = (if IsZero t then None else Some t)"

definition valid_time :: "time option \<Rightarrow> time" where
  "valid_time column = (case column of Some t \<Rightarrow> t | None \<Rightarrow> 0)"

definition valid_text :: "string option \<Rightarrow> string" where
  "valid_text column = (case column of Some s \<Rightarrow> s | None \<Rightarrow> [])"

definition boolInt :: "bool \<Rightarrow> int" where
  "boolInt b = (if b then 1 else 0)"

lemma column_round_trips [simp]:
  "valid_time (nullableTime t) = t" "valid_text (Some s) = s" "boolInt b \<noteq> 0 \<longleftrightarrow> b" "plain_text (Some s) = Inr s"
  by (simp_all add: valid_time_def nullableTime_def IsZero_def valid_text_def boolInt_def plain_text_def)

text \<open>The contract of a table's columns.\<close>

locale row_codec =
  fixes bind :: "'r \<Rightarrow> 'c" and scan :: "'c row \<Rightarrow> go_error + 'v" and stored :: "'r \<Rightarrow> 'v" and ok :: "'r \<Rightarrow> bool"
  assumes scan_bind: "ok r \<Longrightarrow> scan (Row (bind r)) = Inr (stored r)"
begin

lemma collect_bind: "list_all ok rs \<Longrightarrow> collect scan (map bind rs) None = Inr (map stored rs)"
  by (induction rs) (simp_all add: scan_bind)

lemma collect_error: "\<exists>e. collect scan cs (Some err) = Inl e"
  by (induction cs) (auto split: sum.split)

lemma scan_first:
  assumes "list_all ok rs"
  shows "scan (first_row (map bind rs)) = (case rs of [] \<Rightarrow> scan NoRow | r # _ \<Rightarrow> Inr (stored r))"
  using assms by (cases rs) (simp_all add: first_row_def scan_bind)

end

section \<open>Runs\<close>

record run_columns =
  rc_run_id :: string
  rc_workflow_id :: string
  rc_workflow_type :: string
  rc_triggered_at :: time
  rc_dispatched_at :: "time option"
  rc_state :: string
  rc_reason :: "string option"
  rc_participating_clients_json :: "json_text option"

definition run_bind :: "run \<Rightarrow> run_columns" where
  "run_bind r = \<lparr>rc_run_id = run_RunID r, rc_workflow_id = run_WorkflowID r, rc_workflow_type = run_WorkflowType r,
     rc_triggered_at = run_TriggeredAt r, rc_dispatched_at = nullableTime (run_DispatchedAt r),
     rc_state = run_state_text (run_State r), rc_reason = Some (run_Reason r),
     rc_participating_clients_json = Some (marshal_strings (run_ParticipatingClients r))\<rparr>"

definition scanRun :: "run_columns row \<Rightarrow> go_error + run" where
  "scanRun = scan_row ErrRunNotFound (\<lambda>c. Inr \<lparr>run_RunID = rc_run_id c, run_WorkflowID = rc_workflow_id c,
     run_WorkflowType = rc_workflow_type c, run_TriggeredAt = rc_triggered_at c,
     run_DispatchedAt = valid_time (rc_dispatched_at c),
     run_ParticipatingClients = read_strings (rc_participating_clients_json c) [],
     run_State = of_text run_state_text run_states RunOther (rc_state c), run_Reason = valid_text (rc_reason c)\<rparr>)"

definition run_ok :: "run \<Rightarrow> bool" where
  "run_ok r \<longleftrightarrow> canonical run_state_text run_states (run_State r)"

interpretation run_codec: row_codec run_bind scanRun "\<lambda>r. r" run_ok
  by unfold_locales (simp add: scanRun_def scan_row_def run_bind_def run_ok_def run_state_enum.of_text_show)

section \<open>Results\<close>

record result_columns =
  sc_run_id :: string
  sc_client_id :: string
  sc_workflow_id :: string
  sc_workflow_type :: string
  sc_status :: string
  sc_inner_state_json :: "json_text option"
  sc_error_msg :: "string option"
  sc_payload_json :: "json_text option"
  sc_received_at :: time

definition result_bind :: "string \<Rightarrow> result \<Rightarrow> result_columns" where
  "result_bind workflowType r = \<lparr>sc_run_id = res_RunID r, sc_client_id = res_ClientID r,
     sc_workflow_id = res_WorkflowID r, sc_workflow_type = workflowType, sc_status = status_text (res_Status r),
     sc_inner_state_json = Some (marshal_map (res_InnerState r)), sc_error_msg = Some (res_ErrorMsg r),
     sc_payload_json = Some (marshal_map (res_Payload r)), sc_received_at = res_ReceivedAt r\<rparr>"

definition scanResult :: "result_columns row \<Rightarrow> go_error + result" where
  "scanResult = scan_row (ErrMsg ''result not found'') (\<lambda>c. Inr \<lparr>res_RunID = sc_run_id c,
     res_WorkflowID = sc_workflow_id c, res_ClientID = sc_client_id c,
     res_Status = of_text status_text result_statuses ResultOther (sc_status c),
     res_InnerState = read_map (sc_inner_state_json c) [], res_ErrorMsg = valid_text (sc_error_msg c),
     res_Payload = read_map (sc_payload_json c) [], res_ReceivedAt = sc_received_at c\<rparr>)"

definition result_ok :: "result \<Rightarrow> bool" where
  "result_ok r \<longleftrightarrow> canonical status_text result_statuses (res_Status r)
     \<and> keys_distinct (res_InnerState r) \<and> keys_distinct (res_Payload r)"

text \<open>A row of the table has a workflow type beside the result, which no query asks for.\<close>

definition result_row_bind :: "result_row \<Rightarrow> result_columns" where
  "result_row_bind row = result_bind (rr_WorkflowType row) (rr_result row)"

interpretation result_codec: row_codec result_row_bind scanResult "\<lambda>row. stored_result (rr_result row)" "\<lambda>row. result_ok (rr_result row)"
  by unfold_locales (simp add: result_row_bind_def scanResult_def scan_row_def result_bind_def result_ok_def status_enum.of_text_show
      read_marshal_map stored_result_def)

section \<open>Bans\<close>

record ban_columns =
  bc_id :: int
  bc_client_id :: string
  bc_workflow_type :: string
  bc_run_id_evidence :: "string option"
  bc_result_evidence :: "string option"
  bc_banned_at :: time
  bc_banned_until :: "time option"
  bc_reason :: string
  bc_banned_by :: "string option"
  bc_active :: int

text \<open>(The identifier is the one the table gives the row.)\<close>

definition ban_bind :: "ban_record \<Rightarrow> ban_columns" where
  "ban_bind b = \<lparr>bc_id = ban_ID b, bc_client_id = ban_ClientID b, bc_workflow_type = ban_WorkflowType b,
     bc_run_id_evidence = Some (ban_RunIDEvidence b), bc_result_evidence = Some (ban_ResultEvidence b),
     bc_banned_at = ban_BannedAt b, bc_banned_until = ban_BannedUntil b, bc_reason = ban_reason_text (ban_Reason b),
     bc_banned_by = Some (ban_BannedBy b), bc_active = boolInt (ban_Active b)\<rparr>"

text \<open>The body of the loop of \<open>collectBans\<close>; no query asks for a single ban.\<close>

definition scanBan :: "ban_columns row \<Rightarrow> go_error + ban_record" where
  "scanBan = scan_row (ErrMsg ''sql: no rows in result set'') (\<lambda>c. Inr \<lparr>ban_ID = bc_id c, ban_ClientID = bc_client_id c,
     ban_WorkflowType = bc_workflow_type c, ban_RunIDEvidence = valid_text (bc_run_id_evidence c),
     ban_ResultEvidence = valid_text (bc_result_evidence c), ban_BannedAt = bc_banned_at c,
     ban_BannedUntil = bc_banned_until c, ban_Reason = of_text ban_reason_text ban_reasons ReasonOther (bc_reason c),
     ban_BannedBy = valid_text (bc_banned_by c), ban_Active = (bc_active c \<noteq> 0)\<rparr>)"

definition ban_ok :: "ban_record \<Rightarrow> bool" where
  "ban_ok b \<longleftrightarrow> canonical ban_reason_text ban_reasons (ban_Reason b)"

interpretation ban_codec: row_codec ban_bind scanBan "\<lambda>b. b" ban_ok
  by unfold_locales (simp add: scanBan_def scan_row_def ban_bind_def ban_ok_def reason_enum.of_text_show)

section \<open>Clients\<close>

record client_columns =
  lc_id :: string
  lc_os :: "string option"
  lc_labels_json :: "json_text option"
  lc_inner_state_json :: "json_text option"
  lc_active :: int
  lc_last_seen_at :: "time option"

definition client_bind :: "client_metadata \<Rightarrow> client_columns" where
  "client_bind c = \<lparr>lc_id = cm_ClientID c, lc_os = Some (cm_OS c), lc_labels_json = Some (marshal_labels (cm_Labels c)),
     lc_inner_state_json = Some (marshal_map (cm_InnerState c)), lc_active = boolInt (cm_Active c),
     lc_last_seen_at = Some (cm_LastSeenAt c)\<rparr>"

definition scanClient :: "client_columns row \<Rightarrow> go_error + client_metadata" where
  "scanClient = scan_row ErrClientNotFound (\<lambda>c. case plain_text (lc_os c) of
     Inl e \<Rightarrow> Inl e
   | Inr os \<Rightarrow> Inr \<lparr>cm_ClientID = lc_id c, cm_OS = os, cm_Labels = read_labels (lc_labels_json c) [],
       cm_InnerState = read_map (lc_inner_state_json c) [], cm_Active = (lc_active c \<noteq> 0),
       cm_LastSeenAt = valid_time (lc_last_seen_at c)\<rparr>)"

definition client_ok :: "client_metadata \<Rightarrow> bool" where
  "client_ok c \<longleftrightarrow> distinct (map fst (cm_Labels c)) \<and> keys_distinct (cm_InnerState c)"

definition stored_client :: "client_metadata \<Rightarrow> client_metadata" where
  "stored_client c = c\<lparr>cm_InnerState := json_column (cm_InnerState c)\<rparr>"

lemma valid_time_Some [simp]: "valid_time (Some t) = t"
  by (simp add: valid_time_def)

interpretation client_codec: row_codec client_bind scanClient stored_client client_ok
  by unfold_locales (simp add: scanClient_def scan_row_def client_bind_def client_ok_def read_marshal_map
      read_marshal_labels stored_client_def)

section \<open>Workflows\<close>

text \<open>The JSON of a trigger leaves out what is empty.\<close>

definition trigger_doc :: "trigger_spec \<Rightarrow> doc" where
  "trigger_doc t = DObj ([(''kind'', DStr (trigger_kind_text (tr_Kind t)))]
     @ (if tr_Cron t = [] then [] else [(''cron'', DStr (tr_Cron t))])
     @ (if tr_OnComplete t = [] then [] else [(''on_complete'', DStr (tr_OnComplete t))])
     @ (if tr_Condition t = [] then [] else [(''condition'', DStr (tr_Condition t))])
     @ (if tr_Params t = [] then [] else [(''params'', map_doc (tr_Params t))]))"

definition trigger_fields :: "(string \<times> trigger_spec field) list" where
  "trigger_fields = [(''kind'', string_field (\<lambda>x t. t\<lparr>tr_Kind := of_text trigger_kind_text trigger_kinds TriggerOther x\<rparr>)),
     (''cron'', string_field (\<lambda>x t. t\<lparr>tr_Cron := x\<rparr>)),
     (''on_complete'', string_field (\<lambda>x t. t\<lparr>tr_OnComplete := x\<rparr>)),
     (''condition'', string_field (\<lambda>x t. t\<lparr>tr_Condition := x\<rparr>)),
     (''params'', map_field tr_Params (\<lambda>m t. t\<lparr>tr_Params := m\<rparr>))]"

definition marshal_trigger :: "trigger_spec \<Rightarrow> json_text" where
  "marshal_trigger t = (if list_all (\<lambda>(k, v). json_ok v) (tr_Params t) then JSON (trigger_doc t) else NotJSON [])"

definition trigger_ok :: "trigger_spec \<Rightarrow> bool" where
  "trigger_ok t \<longleftrightarrow> canonical trigger_kind_text trigger_kinds (tr_Kind t) \<and> keys_distinct (tr_Params t)"

lemma trigger_round_trip:
  assumes "trigger_ok t" and "list_all (\<lambda>(k, v). json_ok v) (tr_Params t)"
  shows "decode_struct trigger_fields (trigger_doc t) zero_trigger = (t\<lparr>tr_Params := json_column (tr_Params t)\<rparr>, True)"
proof -
  have "map_ok (tr_Params t)"
    using assms by (auto simp: trigger_ok_def keys_distinct_def map_ok_def list_all_iff)
  note params = map_ok_column [OF this]
  with assms(1) show ?thesis
    by (cases t) (simp add: decode_struct_def trigger_doc_def trigger_fields_def find_field_def string_field_def
        zero_trigger_def map_field_def map_doc_def trigger_ok_def kind_enum.of_text_show del: map_map)
qed

lemma read_marshal_trigger:
  "trigger_ok t \<Longrightarrow> read_json (decode_struct trigger_fields) (Some (marshal_trigger t)) zero_trigger = trigger_column t"
  by (simp add: read_json_def marshal_trigger_def trigger_column_def trigger_round_trip)

record workflow_columns =
  wc_id :: string
  wc_name :: string
  wc_description :: "string option"
  wc_workflow_type :: string
  wc_activity :: string
  wc_params_json :: "json_text option"
  wc_target_filter :: "string option"
  wc_trigger_json :: "json_text option"
  wc_success_threshold :: float64
  wc_loop_threshold_ms :: int64
  wc_timeout_ms :: int64
  wc_active :: int
  wc_deactivated_reason :: "string option"
  wc_created_at :: time
  wc_updated_at :: time

definition workflow_bind :: "workflow \<Rightarrow> workflow_columns" where
  "workflow_bind w = \<lparr>wc_id = wf_ID w, wc_name = wf_Name w, wc_description = Some (wf_Description w),
     wc_workflow_type = wf_WorkflowType w, wc_activity = activity_text (wf_Activity w),
     wc_params_json = Some (marshal_map (wf_Params w)), wc_target_filter = Some (wf_TargetFilter w),
     wc_trigger_json = Some (marshal_trigger (wf_Trigger w)), wc_success_threshold = wf_SuccessThreshold w,
     wc_loop_threshold_ms = wf_LoopThresholdMS w, wc_timeout_ms = wf_TimeoutMS w, wc_active = boolInt (wf_Active w),
     wc_deactivated_reason = Some (wf_DeactivatedReason w), wc_created_at = wf_CreatedAt w, wc_updated_at = wf_UpdatedAt w\<rparr>"

definition scanWorkflow :: "workflow_columns row \<Rightarrow> go_error + workflow" where
  "scanWorkflow = scan_row ErrWorkflowNotFound (\<lambda>c. case plain_text (wc_description c) of
     Inl e \<Rightarrow> Inl e
   | Inr description \<Rightarrow> (case plain_text (wc_target_filter c) of
       Inl e \<Rightarrow> Inl e
     | Inr target \<Rightarrow> Inr \<lparr>wf_ID = wc_id c, wf_Name = wc_name c, wf_Description = description,
         wf_WorkflowType = wc_workflow_type c,
         wf_Activity = of_text activity_text ValidActivityTypes ActivityOther (wc_activity c),
         wf_Params = read_map (wc_params_json c) [], wf_TargetFilter = target,
         wf_Trigger = read_json (decode_struct trigger_fields) (wc_trigger_json c) zero_trigger,
         wf_SuccessThreshold = wc_success_threshold c, wf_LoopThresholdMS = wc_loop_threshold_ms c,
         wf_TimeoutMS = wc_timeout_ms c, wf_Active = (wc_active c \<noteq> 0), wf_CreatedAt = wc_created_at c,
         wf_UpdatedAt = wc_updated_at c, wf_DeactivatedReason = valid_text (wc_deactivated_reason c)\<rparr>))"

definition workflow_ok :: "workflow \<Rightarrow> bool" where
  "workflow_ok w \<longleftrightarrow> canonical activity_text ValidActivityTypes (wf_Activity w) \<and> keys_distinct (wf_Params w)
     \<and> trigger_ok (wf_Trigger w) \<and> wf_SuccessThreshold w \<noteq> FNaN"

interpretation workflow_codec: row_codec workflow_bind scanWorkflow workflow_row workflow_ok
  by unfold_locales (simp add: scanWorkflow_def scan_row_def workflow_bind_def workflow_ok_def read_marshal_map
      read_marshal_trigger activity_enum.of_text_show workflow_row_def)

section \<open>Circuit breakers\<close>

record circuit_columns =
  xc_workflow_id :: string
  xc_workflow_type :: string
  xc_state :: string
  xc_opened_at :: "time option"
  xc_last_evaluated_at :: time
  xc_opened_reason :: "string option"
  xc_evaluation_count :: int

definition circuit_bind :: "breaker \<Rightarrow> circuit_columns" where
  "circuit_bind s = \<lparr>xc_workflow_id = cb_WorkflowID s, xc_workflow_type = cb_WorkflowType s,
     xc_state = circuit_state_text (cb_State s), xc_opened_at = nullableTime (cb_OpenedAt s),
     xc_last_evaluated_at = cb_LastEvaluatedAt s, xc_opened_reason = Some (cb_OpenedReason s),
     xc_evaluation_count = cb_EvaluationCount s\<rparr>"

definition scanCircuit :: "circuit_columns row \<Rightarrow> go_error + breaker" where
  "scanCircuit = scan_row ErrCircuitStateNotFound (\<lambda>c. Inr \<lparr>cb_WorkflowID = xc_workflow_id c,
     cb_WorkflowType = xc_workflow_type c,
     cb_State = of_text circuit_state_text circuit_states CircuitOther (xc_state c),
     cb_OpenedAt = valid_time (xc_opened_at c), cb_LastEvaluatedAt = xc_last_evaluated_at c,
     cb_OpenedReason = valid_text (xc_opened_reason c), cb_EvaluationCount = xc_evaluation_count c\<rparr>)"

definition circuit_ok :: "breaker \<Rightarrow> bool" where
  "circuit_ok s \<longleftrightarrow> canonical circuit_state_text circuit_states (cb_State s)"

interpretation circuit_codec: row_codec circuit_bind scanCircuit "\<lambda>s. s" circuit_ok
  by unfold_locales (simp add: scanCircuit_def scan_row_def circuit_bind_def circuit_ok_def circuit_enum.of_text_show)

section \<open>Health\<close>

text \<open>The columns of \<open>run_health\<close> are the fields themselves.\<close>

definition scanRunHealth :: "run_health row \<Rightarrow> go_error + run_health" where
  "scanRunHealth = scan_row (ErrMsg ''run_health not found'') Inr"

record type_health_columns =
  tc_workflow_type :: string
  tc_runs_considered :: int
  tc_window_size :: int64
  tc_success_pct_avg :: float64
  tc_fail_pct_avg :: float64
  tc_error_pct_avg :: float64
  tc_trend :: string
  tc_calculated_at :: time

definition type_health_bind :: "type_health \<Rightarrow> type_health_columns" where
  "type_health_bind h = \<lparr>tc_workflow_type = th_WorkflowType h, tc_runs_considered = th_RunsConsidered h,
     tc_window_size = th_WindowSize h, tc_success_pct_avg = th_SuccessPercentageAvg h,
     tc_fail_pct_avg = th_FailPercentageAvg h, tc_error_pct_avg = th_ErrorPercentageAvg h,
     tc_trend = trend_text (th_Trend h), tc_calculated_at = th_CalculatedAt h\<rparr>"

definition scanTypeHealth :: "type_health_columns row \<Rightarrow> go_error + type_health" where
  "scanTypeHealth = scan_row (ErrMsg ''workflow_type_health not found'') (\<lambda>c. Inr \<lparr>th_WorkflowType = tc_workflow_type c,
     th_WindowSize = tc_window_size c, th_RunsConsidered = tc_runs_considered c,
     th_SuccessPercentageAvg = tc_success_pct_avg c, th_FailPercentageAvg = tc_fail_pct_avg c,
     th_ErrorPercentageAvg = tc_error_pct_avg c, th_Trend = of_text trend_text trends TrendOther (tc_trend c),
     th_CalculatedAt = tc_calculated_at c\<rparr>)"

definition type_health_ok :: "type_health \<Rightarrow> bool" where
  "type_health_ok h \<longleftrightarrow> canonical trend_text trends (th_Trend h) \<and> th_SuccessPercentageAvg h \<noteq> FNaN
     \<and> th_FailPercentageAvg h \<noteq> FNaN \<and> th_ErrorPercentageAvg h \<noteq> FNaN"

interpretation run_health_codec: row_codec "\<lambda>h. h" scanRunHealth "\<lambda>h. h" "\<lambda>h. True"
  by unfold_locales (simp add: scanRunHealth_def scan_row_def)

interpretation type_health_codec: row_codec type_health_bind scanTypeHealth "\<lambda>h. h" type_health_ok
  by unfold_locales (simp add: scanTypeHealth_def scan_row_def type_health_bind_def type_health_ok_def trend_enum.of_text_show)

section \<open>The scan loops\<close>

text \<open>The scan loops of the repositories, for the rows of an answer and the error it ended with.\<close>

definition collectRuns :: "run_columns list \<Rightarrow> go_error option \<Rightarrow> go_error + run list" where
  "collectRuns = collect scanRun"

definition collectResults :: "result_columns list \<Rightarrow> go_error option \<Rightarrow> go_error + result list" where
  "collectResults = collect scanResult"

definition collectBans :: "ban_columns list \<Rightarrow> go_error option \<Rightarrow> go_error + ban_record list" where
  "collectBans = collect scanBan"

definition queryWorkflows :: "go_error + workflow_columns list \<times> go_error option \<Rightarrow> go_error + workflow list" where
  "queryWorkflows answer = (case answer of Inl e \<Rightarrow> Inl e | Inr (rows, err) \<Rightarrow> collect scanWorkflow rows err)"

text \<open>A driver that fails while it delivers rows makes every query fail.\<close>

lemma broken_answer: "\<exists>e. collectRuns rows (Some err) = Inl e" "\<exists>e. collectBans bans (Some err) = Inl e"
  "\<exists>e. collectResults ress (Some err) = Inl e" "\<exists>e. queryWorkflows (Inr (wfs, Some err)) = Inl e"
  by (simp_all add: collectRuns_def collectBans_def collectResults_def queryWorkflows_def run_codec.collect_error
      ban_codec.collect_error result_codec.collect_error workflow_codec.collect_error)

section \<open>Properties\<close>

text \<open>C24. Every table reads back what was written: scanning the columns an \<open>INSERT\<close> binds gives the run,
  the ban, the breaker and the health of a type as they were, times that are zero included, and a
  result, a client and a workflow as they were but for their JSON, in which every number comes back as
  a float and a map that cannot be encoded as an empty one.\<close>

theorem rows_read_back_what_was_written:
  assumes "run_ok r" and "ban_ok b" and "circuit_ok s" and "type_health_ok h"
    and "result_ok res" and "client_ok c" and "workflow_ok w"
  shows "scanRun (Row (run_bind r)) = Inr r \<and> scanBan (Row (ban_bind b)) = Inr b
    \<and> scanCircuit (Row (circuit_bind s)) = Inr s \<and> scanTypeHealth (Row (type_health_bind h)) = Inr h
    \<and> scanResult (Row (result_bind t res)) = Inr (stored_result res)
    \<and> scanClient (Row (client_bind c)) = Inr (stored_client c)
    \<and> scanWorkflow (Row (workflow_bind w)) = Inr (workflow_row w)"
  using run_codec.scan_bind [OF assms(1)] ban_codec.scan_bind [OF assms(2)] circuit_codec.scan_bind [OF assms(3)]
    type_health_codec.scan_bind [OF assms(4)] client_codec.scan_bind [OF assms(6)] workflow_codec.scan_bind [OF assms(7)]
    result_codec.scan_bind [of "\<lparr>rr_result = res, rr_WorkflowType = t\<rparr>"] assms(5)
  by (simp add: result_row_bind_def)

section \<open>Witnesses\<close>

definition sample_ban :: ban_record where
  "sample_ban = \<lparr>ban_ID = 7, ban_ClientID = ''c1'', ban_WorkflowType = ''upgrade'', ban_RunIDEvidence = ''r1'',
     ban_ResultEvidence = ''fail'', ban_BannedAt = 1000, ban_BannedUntil = Some 5000, ban_Reason = ReasonLoopDetected,
     ban_BannedBy = ''loop-detector'', ban_Active = True\<rparr>"

definition sample_breaker :: breaker where
  "sample_breaker = \<lparr>cb_WorkflowID = ''w1'', cb_WorkflowType = ''upgrade'', cb_State = CircuitOpen, cb_OpenedAt = 2000,
     cb_LastEvaluatedAt = 2000, cb_OpenedReason = ''unhealthy'', cb_EvaluationCount = 3\<rparr>"

definition sample_type_health :: type_health where
  "sample_type_health = \<lparr>th_WorkflowType = ''upgrade'', th_WindowSize = 10, th_RunsConsidered = 4,
     th_SuccessPercentageAvg = FFin 75, th_FailPercentageAvg = FFin 25, th_ErrorPercentageAvg = FFin 0,
     th_Trend = TrendDegrading, th_CalculatedAt = 3000\<rparr>"

lemma samples_ok: "run_ok sample_run" "ban_ok sample_ban" "circuit_ok sample_breaker" "type_health_ok sample_type_health"
  "result_ok sample_result" "client_ok sample_client" "workflow_ok sample_workflow"
  by (simp_all add: run_ok_def ban_ok_def circuit_ok_def type_health_ok_def result_ok_def client_ok_def workflow_ok_def
      trigger_ok_def keys_distinct_def canonical_def constant_lists sample_run_def sample_ban_def sample_breaker_def
      sample_type_health_def sample_result_def sample_client_def sample_workflow_def f64_of_int_def to_f64_def)

theorem rows_read_back_what_was_written_witness:
  "scanRun (Row (run_bind sample_run)) = Inr sample_run \<and> scanBan (Row (ban_bind sample_ban)) = Inr sample_ban
    \<and> scanClient (Row (client_bind sample_client)) = Inr (stored_client sample_client)
    \<and> stored_client sample_client \<noteq> sample_client"
  using rows_read_back_what_was_written [OF samples_ok, of "''upgrade''"]
  by (simp add: stored_client_def sample_client_def json_column_def)

end
