(* ===== verification/Requests.thy ===== *)
theory Requests
  imports Rows
begin

text \<open>
  From an HTTP request to its handler: the routes of \<open>NewRouter\<close> and the decoding of bodies and query
  values (\<open>internal/adapters/http/server.go\<close>) into the request types of \<open>internal/core/domain/api.go\<close>.
  A body is the first JSON document of it, or \<open>None\<close> when there is none. Which pattern a path matches
  is chi's answer, an argument here; \<open>chi_documented\<close> says what its documentation promises of it.
\<close>

section \<open>Fields of requests\<close>

text \<open>A number: for a \<open>float64\<close> it must not overflow, for an \<open>int64\<close> it must be an integer literal in range.\<close>

definition float_field :: "(float64 \<Rightarrow> 's \<Rightarrow> 's) \<Rightarrow> 's field" where
  "float_field set_to d s = (let put = \<lambda>x. if is_finite_f64 x then (set_to x s, True) else (s, False) in
     case d of DInt n \<Rightarrow> put (f64_of_int n) | DFloat x \<Rightarrow> put x | DNull \<Rightarrow> (s, True) | _ \<Rightarrow> (s, False))"

definition int64_field :: "(int64 \<Rightarrow> 's \<Rightarrow> 's) \<Rightarrow> 's field" where
  "int64_field set_to d s = (case d of
     DInt n \<Rightarrow> if min_int64 \<le> n \<and> n \<le> max_int64 then (set_to (word_of_int n) s, True) else (s, False)
   | DNull \<Rightarrow> (s, True)
   | _ \<Rightarrow> (s, False))"

text \<open>A pointer: \<open>null\<close> makes it nil, anything else allocates it and is read into what it points to.\<close>

definition pointer_field :: "'a \<Rightarrow> 'a field \<Rightarrow> ('s \<Rightarrow> 'a option) \<Rightarrow> ('a option \<Rightarrow> 's \<Rightarrow> 's) \<Rightarrow> 's field" where
  "pointer_field zero fld old put d s = (case d of
     DNull \<Rightarrow> (put None s, True)
   | _ \<Rightarrow> (case fld d (case old s of None \<Rightarrow> zero | Some x \<Rightarrow> x) of (x, ok) \<Rightarrow> (put (Some x) s, ok)))"

text \<open>A map that may be nil: \<open>null\<close> makes it nil, a wrong kind leaves it.\<close>

definition nil_map_field :: "('s \<Rightarrow> gmap option) \<Rightarrow> (gmap option \<Rightarrow> 's \<Rightarrow> 's) \<Rightarrow> 's field" where
  "nil_map_field old put d s = (case d of
     DObj es \<Rightarrow> (put (Some (last_wins ((case old s of None \<Rightarrow> [] | Some m \<Rightarrow> m) @ map (\<lambda>(k, d). (k, any_of d)) es))) s, True)
   | DNull \<Rightarrow> (put None s, True)
   | _ \<Rightarrow> (s, False))"

abbreviation string_value :: "string field" where "string_value \<equiv> string_field (\<lambda>x _. x)"
abbreviation float_value :: "float64 field" where "float_value \<equiv> float_field (\<lambda>x _. x)"
abbreviation int64_value :: "int64 field" where "int64_value \<equiv> int64_field (\<lambda>x _. x)"
abbreviation bool_value :: "bool field" where "bool_value \<equiv> bool_field (\<lambda>x _. x)"

section \<open>Request bodies\<close>

definition create_fields :: "(string \<times> create_request field) list" where
  "create_fields = [(''name'', string_field (\<lambda>x r. r\<lparr>cw_Name := x\<rparr>)),
     (''description'', string_field (\<lambda>x r. r\<lparr>cw_Description := x\<rparr>)),
     (''workflow_type'', string_field (\<lambda>x r. r\<lparr>cw_WorkflowType := x\<rparr>)),
     (''activity'', string_field (\<lambda>x r. r\<lparr>cw_Activity := activity_of_text x\<rparr>)),
     (''params'', map_field cw_Params (\<lambda>m r. r\<lparr>cw_Params := m\<rparr>)),
     (''target_filter'', string_field (\<lambda>x r. r\<lparr>cw_TargetFilter := x\<rparr>)),
     (''trigger'', \<lambda>d r. (case decode_struct trigger_fields d (cw_Trigger r) of (t, ok) \<Rightarrow> (r\<lparr>cw_Trigger := t\<rparr>, ok))),
     (''success_threshold'', float_field (\<lambda>x r. r\<lparr>cw_SuccessThreshold := x\<rparr>)),
     (''loop_threshold_ms'', int64_field (\<lambda>n r. r\<lparr>cw_LoopThresholdMS := n\<rparr>)),
     (''timeout_ms'', int64_field (\<lambda>n r. r\<lparr>cw_TimeoutMS := n\<rparr>)),
     (''enabled'', pointer_field False bool_value cw_Enabled (\<lambda>b r. r\<lparr>cw_Enabled := b\<rparr>))]"

definition zero_create :: create_request where
  "zero_create = \<lparr>cw_Name = [], cw_Description = [], cw_WorkflowType = [], cw_Activity = ActivityOther [],
     cw_Params = [], cw_TargetFilter = [], cw_Trigger = zero_trigger, cw_SuccessThreshold = FFin 0,
     cw_LoopThresholdMS = 0, cw_TimeoutMS = 0, cw_Enabled = None\<rparr>"

definition edit_fields :: "(string \<times> edit_request field) list" where
  "edit_fields = [(''name'', pointer_field [] string_value ew_Name (\<lambda>x r. r\<lparr>ew_Name := x\<rparr>)),
     (''description'', pointer_field [] string_value ew_Description (\<lambda>x r. r\<lparr>ew_Description := x\<rparr>)),
     (''params'', nil_map_field ew_Params (\<lambda>m r. r\<lparr>ew_Params := m\<rparr>)),
     (''target_filter'', pointer_field [] string_value ew_TargetFilter (\<lambda>x r. r\<lparr>ew_TargetFilter := x\<rparr>)),
     (''success_threshold'', pointer_field (FFin 0) float_value ew_SuccessThreshold (\<lambda>x r. r\<lparr>ew_SuccessThreshold := x\<rparr>)),
     (''loop_threshold_ms'', pointer_field 0 int64_value ew_LoopThresholdMS (\<lambda>n r. r\<lparr>ew_LoopThresholdMS := n\<rparr>)),
     (''timeout_ms'', pointer_field 0 int64_value ew_TimeoutMS (\<lambda>n r. r\<lparr>ew_TimeoutMS := n\<rparr>)),
     (''enabled'', pointer_field False bool_value ew_Enabled (\<lambda>b r. r\<lparr>ew_Enabled := b\<rparr>))]"

definition zero_edit :: edit_request where
  "zero_edit = \<lparr>ew_Name = None, ew_Description = None, ew_Params = None, ew_TargetFilter = None,
     ew_SuccessThreshold = None, ew_LoopThresholdMS = None, ew_TimeoutMS = None, ew_Enabled = None\<rparr>"

definition unban_fields :: "(string \<times> unban_request field) list" where
  "unban_fields = [(''workflow_type'', string_field (\<lambda>x r. r\<lparr>ub_WorkflowType := x\<rparr>)),
     (''admin_id'', string_field (\<lambda>x r. r\<lparr>ub_AdminID := x\<rparr>)),
     (''reason'', string_field (\<lambda>x r. r\<lparr>ub_Reason := x\<rparr>))]"

definition zero_unban :: unban_request where
  "zero_unban = \<lparr>ub_WorkflowType = [], ub_AdminID = [], ub_Reason = []\<rparr>"

definition trigger_request_fields :: "(string \<times> string field) list" where
  "trigger_request_fields = [(''reason'', string_value)]"

text \<open>\<open>if err := json.NewDecoder(r.Body).Decode(&req); err != nil\<close>.\<close>

definition decode_body :: "(string \<times> 's field) list \<Rightarrow> 's \<Rightarrow> doc option \<Rightarrow> 's option" where
  "decode_body flds zero body = (case unmarshal flds zero body of Inl _ \<Rightarrow> None | Inr r \<Rightarrow> Some r)"

text \<open>\<open>triggerWorkflow\<close> does not look at the error: the reason is what decoding left in the request.\<close>

definition trigger_reason :: "doc option \<Rightarrow> string" where
  "trigger_reason body = (case body of None \<Rightarrow> [] | Some d \<Rightarrow> fst (decode_struct trigger_request_fields d []))"

section \<open>Routes\<close>

text \<open>A handler is called with chi's URL parameters, the query values (the empty string for one that is
  not there) and the body.\<close>

type_synonym values_of = "string \<Rightarrow> string"
type_synonym handler = "values_of \<Rightarrow> values_of \<Rightarrow> doc option \<Rightarrow> request"

definition NewRouter :: "((string \<times> string) \<times> handler) list" where
  "NewRouter =
    [((''POST'', ''/workflows''), \<lambda>url query body. CreateWorkflowReq (decode_body create_fields zero_create body)),
     ((''GET'', ''/workflows''), \<lambda>url query body. ListWorkflowsReq),
     ((''GET'', ''/workflows/{id}''), \<lambda>url query body. GetWorkflowReq (url ''id'')),
     ((''PUT'', ''/workflows/{id}''), \<lambda>url query body. EditWorkflowReq (url ''id'') (decode_body edit_fields zero_edit body)),
     ((''DELETE'', ''/workflows/{id}''), \<lambda>url query body. DeleteWorkflowReq (url ''id'')),
     ((''POST'', ''/workflows/{id}/trigger''), \<lambda>url query body. TriggerReq (url ''id'') (trigger_reason body)),
     ((''POST'', ''/workflows/{id}/activate''), \<lambda>url query body. ActivateReq (url ''id'')),
     ((''POST'', ''/workflows/{id}/deactivate''), \<lambda>url query body. DeactivateReq (url ''id'')),
     ((''GET'', ''/workflows/{id}/runs''), \<lambda>url query body. ListRunsReq (url ''id'') (query ''limit'')),
     ((''GET'', ''/clients''), \<lambda>url query body. ListClientsReq),
     ((''GET'', ''/clients/{id}''), \<lambda>url query body. GetClientReq (url ''id'')),
     ((''GET'', ''/runs''), \<lambda>url query body. ListAllRunsReq (query ''limit'') (query ''offset'')),
     ((''GET'', ''/runs/{id}''), \<lambda>url query body. GetRunReq (url ''id'')),
     ((''GET'', ''/runs/{id}/results''), \<lambda>url query body. GetRunResultsReq (url ''id'')),
     ((''GET'', ''/health''), \<lambda>url query body. ListAllHealthReq),
     ((''GET'', ''/health/{workflow_type}''), \<lambda>url query body. GetHealthReq (url ''workflow_type'')),
     ((''GET'', ''/health/liveness''), \<lambda>url query body. LivenessReq),
     ((''GET'', ''/health/readiness''), \<lambda>url query body. ReadinessReq),
     ((''GET'', ''/bans''), \<lambda>url query body. ListBansReq),
     ((''GET'', ''/bans/{client_id}''), \<lambda>url query body. GetClientBansReq (url ''client_id'')),
     ((''PUT'', ''/bans/{client_id}/unban''), \<lambda>url query body. UnbanReq (url ''client_id'') (decode_body unban_fields zero_unban body)),
     ((''GET'', ''/circuits''), \<lambda>url query body. ListCircuitStatesReq),
     ((''GET'', ''/circuits/{workflow_id}''), \<lambda>url query body. GetCircuitStateReq (url ''workflow_id'')),
     ((''GET'', ''/status''), \<lambda>url query body. SystemStatusReq),
     ((''GET'', ''/alerts''), \<lambda>url query body. ListAlertsReq)]"

definition routes :: "(string \<times> string) list" where
  "routes = map fst NewRouter"

record http_request =
  hr_Method :: string
  hr_Path :: string
  hr_Query :: values_of
  hr_Body :: "doc option"

text \<open>What chi answers for the registered routes, a method and a path: the pattern with the URL
  parameters, or the status of its own response (404, 405).\<close>

type_synonym chi = "(string \<times> string) list \<Rightarrow> string \<Rightarrow> string \<Rightarrow> int + string \<times> values_of"

definition ServeHTTP :: "chi \<Rightarrow> env \<Rightarrow> deps \<Rightarrow> trigger_fn \<Rightarrow> http_request \<Rightarrow> server \<Rightarrow> (response \<times> server) option" where
  "ServeHTTP match E dp trig q S = (case match routes (hr_Method q) (hr_Path q) of
     Inl status \<Rightarrow> Some ((status, NoBody), S)
   | Inr (pattern, url) \<Rightarrow> (case map_of NewRouter (hr_Method q, pattern) of
       None \<Rightarrow> Some ((404, NoBody), S)
     | Some h \<Rightarrow> serve E dp trig (h url (hr_Query q) (hr_Body q)) S))"

section \<open>Bodies a client writes\<close>

text \<open>\<open>json.Marshal\<close> of a request: a nil pointer and, where the tag says \<open>omitempty\<close>, an empty map are left out.\<close>

definition opt_entry :: "string \<Rightarrow> ('a \<Rightarrow> doc) \<Rightarrow> 'a option \<Rightarrow> (string \<times> doc) list" where
  "opt_entry k enc v = (case v of None \<Rightarrow> [] | Some x \<Rightarrow> [(k, enc x)])"

definition int64_doc :: "int64 \<Rightarrow> doc" where
  "int64_doc n = DInt (sint n)"

definition create_doc :: "create_request \<Rightarrow> doc" where
  "create_doc r = DObj ([(''name'', DStr (cw_Name r)), (''description'', DStr (cw_Description r)),
     (''workflow_type'', DStr (cw_WorkflowType r)), (''activity'', DStr (activity_text (cw_Activity r))),
     (''params'', map_doc (cw_Params r)), (''target_filter'', DStr (cw_TargetFilter r)),
     (''trigger'', trigger_doc (cw_Trigger r)), (''success_threshold'', DFloat (cw_SuccessThreshold r)),
     (''loop_threshold_ms'', int64_doc (cw_LoopThresholdMS r)), (''timeout_ms'', int64_doc (cw_TimeoutMS r))]
     @ opt_entry ''enabled'' DBool (cw_Enabled r))"

definition edit_doc :: "edit_request \<Rightarrow> doc" where
  "edit_doc r = DObj (opt_entry ''name'' DStr (ew_Name r) @ opt_entry ''description'' DStr (ew_Description r)
     @ (case ew_Params r of None \<Rightarrow> [] | Some m \<Rightarrow> if m = [] then [] else [(''params'', map_doc m)])
     @ opt_entry ''target_filter'' DStr (ew_TargetFilter r) @ opt_entry ''success_threshold'' DFloat (ew_SuccessThreshold r)
     @ opt_entry ''loop_threshold_ms'' int64_doc (ew_LoopThresholdMS r) @ opt_entry ''timeout_ms'' int64_doc (ew_TimeoutMS r)
     @ opt_entry ''enabled'' DBool (ew_Enabled r))"

definition unban_doc :: "unban_request \<Rightarrow> doc" where
  "unban_doc r = DObj [(''workflow_type'', DStr (ub_WorkflowType r)), (''admin_id'', DStr (ub_AdminID r)),
     (''reason'', DStr (ub_Reason r))]"

definition reason_doc :: "string \<Rightarrow> doc" where
  "reason_doc reason = DObj [(''reason'', DStr reason)]"

text \<open>What arrives of them: the JSON of a map.\<close>

definition arrived_create :: "create_request \<Rightarrow> create_request" where
  "arrived_create r = r\<lparr>cw_Params := json_column (cw_Params r), cw_Trigger := trigger_column (cw_Trigger r)\<rparr>"

definition arrived_edit :: "edit_request \<Rightarrow> edit_request" where
  "arrived_edit r = r\<lparr>ew_Params := map_option json_column (ew_Params r)\<rparr>"

definition create_ok :: "create_request \<Rightarrow> bool" where
  "create_ok r \<longleftrightarrow> canonical activity_text ValidActivityTypes (cw_Activity r) \<and> map_ok (cw_Params r)
     \<and> trigger_ok (cw_Trigger r) \<and> map_ok (tr_Params (cw_Trigger r)) \<and> is_finite_f64 (cw_SuccessThreshold r)"

definition edit_ok :: "edit_request \<Rightarrow> bool" where
  "edit_ok r \<longleftrightarrow> (case ew_Params r of None \<Rightarrow> True | Some m \<Rightarrow> m \<noteq> [] \<and> map_ok m)
     \<and> (case ew_SuccessThreshold r of None \<Rightarrow> True | Some x \<Rightarrow> is_finite_f64 x)"

lemma int64_field_doc [simp]: "int64_field set_to (int64_doc n) s = (set_to n s, True)"
proof -
  have "min_int64 \<le> sint n \<and> sint n \<le> max_int64"
    using sint_greater_eq [of n] sint_lt [of n] by (simp add: min_int64_def max_int64_def)
  then show ?thesis by (simp add: int64_field_def int64_doc_def)
qed

lemma int64_doc_not_null [simp]: "int64_doc n \<noteq> DNull"
  by (simp add: int64_doc_def)

lemma float_field_doc [simp]: "is_finite_f64 x \<Longrightarrow> float_field set_to (DFloat x) s = (set_to x s, True)"
  by (simp add: float_field_def)

lemma string_field_doc [simp]: "string_field set_to (DStr x) s = (set_to x s, True)"
  by (simp add: string_field_def)

lemma bool_field_doc [simp]: "bool_field set_to (DBool x) s = (set_to x s, True)"
  by (simp add: bool_field_def)

lemma pointer_field_doc:
  "d \<noteq> DNull \<Longrightarrow> (\<And>y. fld d y = (x, True)) \<Longrightarrow> pointer_field zero fld old put d s = (put (Some x) s, True)"
  by (cases d) (simp_all add: pointer_field_def)

lemma pointer_field_docs [simp]:
  "pointer_field [] string_value old1 put1 (DStr x) s = (put1 (Some x) s, True)"
  "pointer_field False bool_value old2 put2 (DBool b) s = (put2 (Some b) s, True)"
  "is_finite_f64 y \<Longrightarrow> pointer_field z float_value old3 put3 (DFloat y) s = (put3 (Some y) s, True)"
  "pointer_field i int64_value old4 put4 (int64_doc n) s = (put4 (Some n) s, True)"
  by (simp_all add: pointer_field_doc)

lemma map_field_doc: "map_ok m \<Longrightarrow> old s = [] \<Longrightarrow> map_field old put (map_doc m) s = (put (json_column m) s, True)"
  using map_ok_column [of m] by (simp add: map_field_def map_doc_def del: map_map)

lemma nil_map_field_doc: "map_ok m \<Longrightarrow> old s = None \<Longrightarrow> nil_map_field old put (map_doc m) s = (put (Some (json_column m)) s, True)"
  using map_ok_column [of m] by (simp add: nil_map_field_def map_doc_def del: map_map)

lemma decode_opt:
  assumes "map_of flds k = Some f" and "\<And>x. v = Some x \<Longrightarrow> f (enc x) s = (put (Some x) s, True)" and "put None s = s"
  shows "decode_fields flds (opt_entry k enc v @ es) s ok = decode_fields flds es (put v s) ok"
  using assms by (cases v) (simp_all add: opt_entry_def find_field_exact)

lemma create_round_trip:
  assumes "create_ok r"
  shows "decode_body create_fields zero_create (Some (create_doc r)) = Some (arrived_create r)"
proof -
  have activity: "activity_of_text (activity_text (cw_Activity r)) = cw_Activity r"
    using assms by (simp add: activity_of_text_eq create_ok_def activity_enum.of_text_show del: activity_of_text.simps)
  have trigger: "decode_struct trigger_fields (trigger_doc (cw_Trigger r)) zero_trigger = (trigger_column (cw_Trigger r), True)"
  proof -
    have ok: "list_all (\<lambda>(k, v). json_ok v) (tr_Params (cw_Trigger r))"
      using assms by (auto simp: create_ok_def map_ok_def list_all_iff)
    with trigger_round_trip [OF _ ok] assms show ?thesis by (simp add: create_ok_def trigger_column_def)
  qed
  have params: "map_ok (cw_Params r)" and finite: "is_finite_f64 (cw_SuccessThreshold r)"
    using assms by (simp_all add: create_ok_def)
  have fields: "map_of create_fields ''name'' = Some (string_field (\<lambda>x r. r\<lparr>cw_Name := x\<rparr>))"
    "map_of create_fields ''description'' = Some (string_field (\<lambda>x r. r\<lparr>cw_Description := x\<rparr>))"
    "map_of create_fields ''workflow_type'' = Some (string_field (\<lambda>x r. r\<lparr>cw_WorkflowType := x\<rparr>))"
    "map_of create_fields ''activity'' = Some (string_field (\<lambda>x r. r\<lparr>cw_Activity := activity_of_text x\<rparr>))"
    "map_of create_fields ''params'' = Some (map_field cw_Params (\<lambda>m r. r\<lparr>cw_Params := m\<rparr>))"
    "map_of create_fields ''target_filter'' = Some (string_field (\<lambda>x r. r\<lparr>cw_TargetFilter := x\<rparr>))"
    "map_of create_fields ''trigger'' = Some (\<lambda>d r. (case decode_struct trigger_fields d (cw_Trigger r) of (t, ok) \<Rightarrow> (r\<lparr>cw_Trigger := t\<rparr>, ok)))"
    "map_of create_fields ''success_threshold'' = Some (float_field (\<lambda>x r. r\<lparr>cw_SuccessThreshold := x\<rparr>))"
    "map_of create_fields ''loop_threshold_ms'' = Some (int64_field (\<lambda>n r. r\<lparr>cw_LoopThresholdMS := n\<rparr>))"
    "map_of create_fields ''timeout_ms'' = Some (int64_field (\<lambda>n r. r\<lparr>cw_TimeoutMS := n\<rparr>))"
    by (simp_all add: create_fields_def del: activity_of_text.simps)
  define es where "es = opt_entry ''enabled'' DBool (cw_Enabled r)"
  have enabled: "map_of create_fields ''enabled'' = Some (pointer_field False bool_value cw_Enabled (\<lambda>b r. r\<lparr>cw_Enabled := b\<rparr>))"
    by (simp add: create_fields_def)
  have last: "decode_fields create_fields es s ok = (s\<lparr>cw_Enabled := cw_Enabled r\<rparr>, ok)" if "cw_Enabled s = None" for s ok
    unfolding es_def using decode_opt [OF enabled, of "cw_Enabled r" DBool s "\<lambda>b s. s\<lparr>cw_Enabled := b\<rparr>" "[]" ok] that
    by simp
  have "decode_struct create_fields (create_doc r) zero_create = (arrived_create r, True)"
    unfolding decode_struct_def create_doc_def es_def [symmetric]
    by (simp add: fields [THEN find_field_exact] zero_create_def activity trigger map_field_doc params finite last
        arrived_create_def del: activity_of_text.simps)
  then show ?thesis by (simp add: decode_body_def unmarshal_def)
qed

lemma edit_round_trip:
  assumes "edit_ok r"
  shows "decode_body edit_fields zero_edit (Some (edit_doc r)) = Some (arrived_edit r)"
proof -
  have fields: "map_of edit_fields ''name'' = Some (pointer_field [] string_value ew_Name (\<lambda>x r. r\<lparr>ew_Name := x\<rparr>))"
    "map_of edit_fields ''description'' = Some (pointer_field [] string_value ew_Description (\<lambda>x r. r\<lparr>ew_Description := x\<rparr>))"
    "map_of edit_fields ''params'' = Some (nil_map_field ew_Params (\<lambda>m r. r\<lparr>ew_Params := m\<rparr>))"
    "map_of edit_fields ''target_filter'' = Some (pointer_field [] string_value ew_TargetFilter (\<lambda>x r. r\<lparr>ew_TargetFilter := x\<rparr>))"
    "map_of edit_fields ''success_threshold''
      = Some (pointer_field (FFin 0) float_value ew_SuccessThreshold (\<lambda>x r. r\<lparr>ew_SuccessThreshold := x\<rparr>))"
    "map_of edit_fields ''loop_threshold_ms''
      = Some (pointer_field 0 int64_value ew_LoopThresholdMS (\<lambda>n r. r\<lparr>ew_LoopThresholdMS := n\<rparr>))"
    "map_of edit_fields ''timeout_ms'' = Some (pointer_field 0 int64_value ew_TimeoutMS (\<lambda>n r. r\<lparr>ew_TimeoutMS := n\<rparr>))"
    "map_of edit_fields ''enabled'' = Some (pointer_field False bool_value ew_Enabled (\<lambda>b r. r\<lparr>ew_Enabled := b\<rparr>))"
    by (simp_all add: edit_fields_def)
  define params where "params = (case ew_Params r of None \<Rightarrow> [] | Some m \<Rightarrow> if m = [] then [] else [(''params'', map_doc m)])"
  have finite: "ew_SuccessThreshold r = Some x \<Longrightarrow> is_finite_f64 x" for x
    using assms by (simp add: edit_ok_def)
  have name: "decode_fields edit_fields (opt_entry ''name'' DStr (ew_Name r) @ es) s ok
      = decode_fields edit_fields es (s\<lparr>ew_Name := ew_Name r\<rparr>) ok" if "ew_Name s = None" for es s ok
    using decode_opt [OF fields(1), of "ew_Name r" DStr s "\<lambda>x s. s\<lparr>ew_Name := x\<rparr>"] that by simp
  have description: "decode_fields edit_fields (opt_entry ''description'' DStr (ew_Description r) @ es) s ok
      = decode_fields edit_fields es (s\<lparr>ew_Description := ew_Description r\<rparr>) ok" if "ew_Description s = None" for es s ok
    using decode_opt [OF fields(2), of "ew_Description r" DStr s "\<lambda>x s. s\<lparr>ew_Description := x\<rparr>"] that by simp
  have map: "decode_fields edit_fields (params @ es) s ok
      = decode_fields edit_fields es (s\<lparr>ew_Params := map_option json_column (ew_Params r)\<rparr>) ok" if "ew_Params s = None" for es s ok
  proof -
    have same: "s\<lparr>ew_Params := None\<rparr> = s" using that by (cases s) simp
    from assms that show ?thesis
      by (cases "ew_Params r") (simp_all add: same params_def edit_ok_def fields(3) [THEN find_field_exact] nil_map_field_doc)
  qed
  have target: "decode_fields edit_fields (opt_entry ''target_filter'' DStr (ew_TargetFilter r) @ es) s ok
      = decode_fields edit_fields es (s\<lparr>ew_TargetFilter := ew_TargetFilter r\<rparr>) ok" if "ew_TargetFilter s = None" for es s ok
    using decode_opt [OF fields(4), of "ew_TargetFilter r" DStr s "\<lambda>x s. s\<lparr>ew_TargetFilter := x\<rparr>"] that by simp
  have threshold: "decode_fields edit_fields (opt_entry ''success_threshold'' DFloat (ew_SuccessThreshold r) @ es) s ok
      = decode_fields edit_fields es (s\<lparr>ew_SuccessThreshold := ew_SuccessThreshold r\<rparr>) ok"
    if "ew_SuccessThreshold s = None" for es s ok
    using decode_opt [OF fields(5), of "ew_SuccessThreshold r" DFloat s "\<lambda>x s. s\<lparr>ew_SuccessThreshold := x\<rparr>"] that finite by simp
  have loop: "decode_fields edit_fields (opt_entry ''loop_threshold_ms'' int64_doc (ew_LoopThresholdMS r) @ es) s ok
      = decode_fields edit_fields es (s\<lparr>ew_LoopThresholdMS := ew_LoopThresholdMS r\<rparr>) ok"
    if "ew_LoopThresholdMS s = None" for es s ok
    using decode_opt [OF fields(6), of "ew_LoopThresholdMS r" int64_doc s "\<lambda>x s. s\<lparr>ew_LoopThresholdMS := x\<rparr>"] that by simp
  have timeout: "decode_fields edit_fields (opt_entry ''timeout_ms'' int64_doc (ew_TimeoutMS r) @ es) s ok
      = decode_fields edit_fields es (s\<lparr>ew_TimeoutMS := ew_TimeoutMS r\<rparr>) ok" if "ew_TimeoutMS s = None" for es s ok
    using decode_opt [OF fields(7), of "ew_TimeoutMS r" int64_doc s "\<lambda>x s. s\<lparr>ew_TimeoutMS := x\<rparr>"] that by simp
  have enabled: "decode_fields edit_fields (opt_entry ''enabled'' DBool (ew_Enabled r)) s ok
      = (s\<lparr>ew_Enabled := ew_Enabled r\<rparr>, ok)" if "ew_Enabled s = None" for s ok
    using decode_opt [OF fields(8), of "ew_Enabled r" DBool s "\<lambda>x s. s\<lparr>ew_Enabled := x\<rparr>" "[]" ok] that by simp
  have "decode_struct edit_fields (edit_doc r) zero_edit = (arrived_edit r, True)"
    unfolding decode_struct_def edit_doc_def params_def [symmetric]
    by (simp add: name description map target threshold loop timeout enabled zero_edit_def arrived_edit_def)
  then show ?thesis by (simp add: decode_body_def unmarshal_def)
qed

lemma unban_round_trip: "decode_body unban_fields zero_unban (Some (unban_doc r)) = Some r"
  by (simp add: decode_body_def unmarshal_def decode_struct_def unban_doc_def unban_fields_def find_field_def zero_unban_def)

lemma reason_round_trip: "trigger_reason (Some (reason_doc reason)) = reason"
  by (simp add: trigger_reason_def decode_struct_def reason_doc_def trigger_request_fields_def find_field_def)

section \<open>Matching a path\<close>

definition is_parameter :: "string \<Rightarrow> bool" where
  "is_parameter seg \<longleftrightarrow> seg \<noteq> [] \<and> hd seg = CHR ''{''"

definition parameter_name :: "string \<Rightarrow> string" where
  "parameter_name seg = butlast (tl seg)"

text \<open>A parameter matches any sequence of characters up to the next slash; anything else matches itself.\<close>

definition segment_fits :: "string \<Rightarrow> string \<Rightarrow> bool" where
  "segment_fits p s \<longleftrightarrow> is_parameter p \<or> s = p"

definition fits :: "string \<Rightarrow> string \<Rightarrow> bool" where
  "fits pattern path = list_all2 segment_fits (split_on CHR ''/'' pattern) (split_on CHR ''/'' path)"

definition url_values :: "string \<Rightarrow> string \<Rightarrow> (string \<times> string) list" where
  "url_values pattern path = map (\<lambda>(p, s). (parameter_name p, s))
     (filter (\<lambda>(p, s). is_parameter p) (zip (split_on CHR ''/'' pattern) (split_on CHR ''/'' path)))"

text \<open>chi's documentation: a request is answered by a registered route of its method whose pattern the path
  fits, with the parameters of that match; a route that is the path itself goes before one with a
  parameter; when a route fits, there is no status of chi's own. The documentation leaves open whether a
  parameter may be empty, so nothing is asked of a path with an empty segment (a doubled or final slash).\<close>

definition full_path :: "string \<Rightarrow> bool" where
  "full_path path \<longleftrightarrow> [] \<notin> set (tl (split_on CHR ''/'' path))"

definition chi_documented :: "chi \<Rightarrow> bool" where
  "chi_documented match \<longleftrightarrow> (\<forall>m path. full_path path \<longrightarrow> (case match routes m path of
     Inl status \<Rightarrow> status \<in> {404, 405} \<and> (\<forall>pattern. (m, pattern) \<in> set routes \<longrightarrow> \<not> fits pattern path)
   | Inr (pattern, url) \<Rightarrow> (m, pattern) \<in> set routes \<and> fits pattern path
       \<and> (\<forall>(name, v) \<in> set (url_values pattern path). url name = v)
       \<and> ((m, path) \<in> set routes \<longrightarrow> pattern = path)))"

text \<open>A matcher that does so: the path itself, or the first route that fits.\<close>

definition first_fit :: chi where
  "first_fit rs m path = (case find (\<lambda>r. fst r = m \<and> fits (snd r) path) ((if (m, path) \<in> set rs then [(m, path)] else []) @ rs) of
     None \<Rightarrow> Inl 404
   | Some r \<Rightarrow> Inr (snd r, \<lambda>name. case map_of (url_values (snd r) path) name of None \<Rightarrow> [] | Some v \<Rightarrow> v))"

lemma split_routes: "map (\<lambda>(m, pattern). (m, split_on CHR ''/'' pattern)) routes =
  [(''POST'', [[], ''workflows'']), (''GET'', [[], ''workflows'']), (''GET'', [[], ''workflows'', ''{id}'']),
   (''PUT'', [[], ''workflows'', ''{id}'']), (''DELETE'', [[], ''workflows'', ''{id}'']),
   (''POST'', [[], ''workflows'', ''{id}'', ''trigger'']), (''POST'', [[], ''workflows'', ''{id}'', ''activate'']),
   (''POST'', [[], ''workflows'', ''{id}'', ''deactivate'']), (''GET'', [[], ''workflows'', ''{id}'', ''runs'']),
   (''GET'', [[], ''clients'']), (''GET'', [[], ''clients'', ''{id}'']), (''GET'', [[], ''runs'']),
   (''GET'', [[], ''runs'', ''{id}'']), (''GET'', [[], ''runs'', ''{id}'', ''results'']), (''GET'', [[], ''health'']),
   (''GET'', [[], ''health'', ''{workflow_type}'']), (''GET'', [[], ''health'', ''liveness'']),
   (''GET'', [[], ''health'', ''readiness'']), (''GET'', [[], ''bans'']), (''GET'', [[], ''bans'', ''{client_id}'']),
   (''PUT'', [[], ''bans'', ''{client_id}'', ''unban'']), (''GET'', [[], ''circuits'']),
   (''GET'', [[], ''circuits'', ''{workflow_id}'']), (''GET'', [[], ''status'']), (''GET'', [[], ''alerts''])]"
  by (simp add: routes_def NewRouter_def)

lemma distinct_routes: "distinct routes"
  by (simp add: routes_def NewRouter_def)

lemma map_of_NewRouter: "(k, h) \<in> set NewRouter \<Longrightarrow> map_of NewRouter k = Some h"
  using distinct_routes by (simp add: routes_def)

text \<open>Two routes of one method that a path fits are one, but for the two probes.\<close>

definition compatible :: "string \<Rightarrow> string \<Rightarrow> bool" where
  "compatible p q = list_all2 (\<lambda>a b. is_parameter a \<or> is_parameter b \<or> a = b) (split_on CHR ''/'' p) (split_on CHR ''/'' q)"

definition probe_paths :: "string list" where
  "probe_paths = [''/health/liveness'', ''/health/readiness'']"

lemma list_all2_common:
  assumes "list_all2 R xs zs" and "list_all2 R ys zs" and "\<And>a b c. R a c \<Longrightarrow> R b c \<Longrightarrow> T a b"
  shows "list_all2 T xs ys"
  using assms(1,2)
  by (induction xs arbitrary: ys zs) (auto simp: list_all2_Cons1 list_all2_Cons2, use assms(3) in blast)

lemma fits_compatible: "fits p path \<Longrightarrow> fits q path \<Longrightarrow> compatible p q"
  unfolding fits_def compatible_def
  by (rule list_all2_common [where R = segment_fits]) (auto simp: segment_fits_def split: if_splits)

lemma routes_apart:
  assumes "(m, p) \<in> set routes" and "(m, q) \<in> set routes" and "compatible p q"
  shows "p = q \<or> p \<in> set probe_paths \<or> q \<in> set probe_paths"
proof -
  have "list_all (\<lambda>x. list_all (\<lambda>y. fst x = fst y \<and> compatible (snd x) (snd y)
      \<longrightarrow> snd x = snd y \<or> snd x \<in> set probe_paths \<or> snd y \<in> set probe_paths) routes) routes"
    by code_simp
  then have "\<forall>x \<in> set routes. \<forall>y \<in> set routes. fst x = fst y \<and> compatible (snd x) (snd y)
      \<longrightarrow> snd x = snd y \<or> snd x \<in> set probe_paths \<or> snd y \<in> set probe_paths"
    by (simp only: list_all_iff)
  from bspec [OF bspec [OF this assms(1)] assms(2)] assms(3) show ?thesis by simp
qed

lemma fits_static: "\<not> list_ex is_parameter (split_on CHR ''/'' p) \<Longrightarrow> fits p path \<Longrightarrow> split_on CHR ''/'' path = split_on CHR ''/'' p"
  by (auto simp: fits_def list_ex_iff list_all2_conv_all_nth segment_fits_def intro!: nth_equalityI)

lemma join_split: "join_with [d] (split_on d s) = s"
proof (induction s)
  case (Cons c s)
  have "join_with [d] ((c # p) # ps) = c # join_with [d] (p # ps)" for p ps by (cases ps) simp_all
  moreover have "join_with [d] ([] # ps) = d # join_with [d] ps" if "ps \<noteq> []" for ps using that by (cases ps) simp_all
  ultimately show ?case using Cons by (cases "split_on d s") auto
qed simp

lemma split_on_inject: "split_on d s = split_on d t \<Longrightarrow> s = t"
  by (metis join_split)

lemma chi_route:
  assumes "chi_documented match" and "full_path path" and "(m, p) \<in> set routes" and "fits p path"
  obtains q url where "match routes m path = Inr (q, url)" "(m, q) \<in> set routes" "fits q path"
    "\<forall>(name, v) \<in> set (url_values q path). url name = v" "(m, path) \<in> set routes \<longrightarrow> q = path"
proof -
  note doc = assms(1) [unfolded chi_documented_def, rule_format, OF assms(2), of m]
  show thesis
  proof (cases "match routes m path")
    case (Inl status)
    with doc assms(3,4) show ?thesis by simp
  next
    case (Inr a)
    with doc that show ?thesis by (cases a) simp
  qed
qed

lemma one_route:
  assumes "chi_documented match" and "full_path path" and "(m, p) \<in> set routes" and "fits p path"
    and "path \<notin> set probe_paths"
  shows "\<exists>url. match routes m path = Inr (p, url) \<and> (\<forall>(name, v) \<in> set (url_values p path). url name = v)"
proof -
  obtain q url where q: "match routes m path = Inr (q, url)" "(m, q) \<in> set routes" "fits q path"
    "\<forall>(name, v) \<in> set (url_values q path). url name = v" by (rule chi_route [OF assms(1-4)])
  have probe: "r \<notin> set probe_paths" if "fits r path" for r
  proof
    assume r: "r \<in> set probe_paths"
    then have "\<not> list_ex is_parameter (split_on CHR ''/'' r)"
      by (auto simp: probe_paths_def is_parameter_def)
    from split_on_inject [OF fits_static [OF this that]] r assms(5) show False by simp
  qed
  have "p = q" using routes_apart [OF assms(3) q(2) fits_compatible [OF assms(4) q(3)]] probe [OF assms(4)] probe [OF q(3)]
    by blast
  with q show ?thesis by simp
qed

lemma reach:
  assumes "chi_documented match" and "full_path path" and "map_of NewRouter (m, p) = Some h" and "fits p path"
    and "path \<notin> set probe_paths" and "\<And>url. \<forall>(name, v) \<in> set (url_values p path). url name = v \<Longrightarrow> h url query body = rq"
  shows "ServeHTTP match E dp trig \<lparr>hr_Method = m, hr_Path = path, hr_Query = query, hr_Body = body\<rparr> S = serve E dp trig rq S"
proof -
  have "(m, p) \<in> set routes" using map_of_SomeD [OF assms(3)] by (force simp: routes_def)
  from one_route [OF assms(1,2) this assms(4,5)] obtain url where
    "match routes m path = Inr (p, url)" "\<forall>(name, v) \<in> set (url_values p path). url name = v" by blast
  with assms(3,6) show ?thesis by (simp add: ServeHTTP_def)
qed

lemma reach_probe:
  assumes "chi_documented match" and "path \<in> set probe_paths"
  shows "ServeHTTP match E dp trig \<lparr>hr_Method = ''GET'', hr_Path = path, hr_Query = query, hr_Body = body\<rparr> S
    = serve E dp trig (if path = ''/health/liveness'' then LivenessReq else ReadinessReq) S"
proof -
  have "full_path path" "(''GET'', path) \<in> set routes" "fits path path" using assms(2)
    by (auto simp: full_path_def probe_paths_def routes_def NewRouter_def fits_def segment_fits_def is_parameter_def)
  note here = this
  obtain q url where "match routes ''GET'' path = Inr (q, url)" "(''GET'', path) \<in> set routes \<longrightarrow> q = path"
    by (rule chi_route [OF assms(1) here])
  with here(2) have m: "match routes ''GET'' path = Inr (path, url)" by simp
  from assms(2) consider "path = ''/health/liveness''" | "path = ''/health/readiness''" by (auto simp: probe_paths_def)
  then show ?thesis
  proof cases
    case 1
    have "map_of NewRouter (''GET'', ''/health/liveness'') = Some (\<lambda>url query body. LivenessReq)" by (simp add: NewRouter_def)
    with m show ?thesis by (simp add: ServeHTTP_def 1)
  next
    case 2
    have "map_of NewRouter (''GET'', ''/health/readiness'') = Some (\<lambda>url query body. ReadinessReq)" by (simp add: NewRouter_def)
    with m show ?thesis by (simp add: ServeHTTP_def 2)
  qed
qed

section \<open>Requests as HTTP\<close>

abbreviation no_query :: values_of where "no_query \<equiv> \<lambda>_. []"

definition plain :: "string \<Rightarrow> string \<Rightarrow> http_request" where
  "plain m path = \<lparr>hr_Method = m, hr_Path = path, hr_Query = no_query, hr_Body = None\<rparr>"

fun http_of :: "request \<Rightarrow> http_request" where
  "http_of (CreateWorkflowReq r) = (plain ''POST'' ''/workflows'')\<lparr>hr_Body := map_option create_doc r\<rparr>"
| "http_of ListWorkflowsReq = plain ''GET'' ''/workflows''"
| "http_of (GetWorkflowReq wid) = plain ''GET'' (''/workflows/'' @ wid)"
| "http_of (EditWorkflowReq wid r) = (plain ''PUT'' (''/workflows/'' @ wid))\<lparr>hr_Body := map_option edit_doc r\<rparr>"
| "http_of (DeleteWorkflowReq wid) = plain ''DELETE'' (''/workflows/'' @ wid)"
| "http_of (TriggerReq wid reason) = (plain ''POST'' (''/workflows/'' @ wid @ ''/trigger''))\<lparr>hr_Body := Some (reason_doc reason)\<rparr>"
| "http_of (ActivateReq wid) = plain ''POST'' (''/workflows/'' @ wid @ ''/activate'')"
| "http_of (DeactivateReq wid) = plain ''POST'' (''/workflows/'' @ wid @ ''/deactivate'')"
| "http_of (ListRunsReq wid limit) = (plain ''GET'' (''/workflows/'' @ wid @ ''/runs''))\<lparr>hr_Query := no_query(''limit'' := limit)\<rparr>"
| "http_of ListClientsReq = plain ''GET'' ''/clients''"
| "http_of (GetClientReq cid) = plain ''GET'' (''/clients/'' @ cid)"
| "http_of (ListAllRunsReq limit offset)
     = (plain ''GET'' ''/runs'')\<lparr>hr_Query := no_query(''limit'' := limit, ''offset'' := offset)\<rparr>"
| "http_of (GetRunReq rid) = plain ''GET'' (''/runs/'' @ rid)"
| "http_of (GetRunResultsReq rid) = plain ''GET'' (''/runs/'' @ rid @ ''/results'')"
| "http_of ListAllHealthReq = plain ''GET'' ''/health''"
| "http_of (GetHealthReq t) = plain ''GET'' (''/health/'' @ t)"
| "http_of LivenessReq = plain ''GET'' ''/health/liveness''"
| "http_of ReadinessReq = plain ''GET'' ''/health/readiness''"
| "http_of ListBansReq = plain ''GET'' ''/bans''"
| "http_of (GetClientBansReq cid) = plain ''GET'' (''/bans/'' @ cid)"
| "http_of (UnbanReq cid r) = (plain ''PUT'' (''/bans/'' @ cid @ ''/unban''))\<lparr>hr_Body := map_option unban_doc r\<rparr>"
| "http_of ListCircuitStatesReq = plain ''GET'' ''/circuits''"
| "http_of (GetCircuitStateReq wid) = plain ''GET'' (''/circuits/'' @ wid)"
| "http_of SystemStatusReq = plain ''GET'' ''/status''"
| "http_of ListAlertsReq = plain ''GET'' ''/alerts''"

text \<open>What can be asked for: identifiers that are one segment of a path, bodies JSON can write, and no
  workflow type with the name of a probe.\<close>

definition segment_ok :: "string \<Rightarrow> bool" where
  "segment_ok s \<longleftrightarrow> s \<noteq> [] \<and> CHR ''/'' \<notin> set s"

fun sendable :: "request \<Rightarrow> bool" where
  "sendable (CreateWorkflowReq r) = (case r of None \<Rightarrow> True | Some r \<Rightarrow> create_ok r)"
| "sendable (EditWorkflowReq wid r) = (segment_ok wid \<and> (case r of None \<Rightarrow> True | Some r \<Rightarrow> edit_ok r))"
| "sendable (GetWorkflowReq k) = segment_ok k"
| "sendable (DeleteWorkflowReq k) = segment_ok k"
| "sendable (TriggerReq k reason) = segment_ok k"
| "sendable (ActivateReq k) = segment_ok k"
| "sendable (DeactivateReq k) = segment_ok k"
| "sendable (ListRunsReq k limit) = segment_ok k"
| "sendable (GetClientReq k) = segment_ok k"
| "sendable (GetRunReq k) = segment_ok k"
| "sendable (GetRunResultsReq k) = segment_ok k"
| "sendable (GetHealthReq k) = (segment_ok k \<and> k \<noteq> ''liveness'' \<and> k \<noteq> ''readiness'')"
| "sendable (GetClientBansReq k) = segment_ok k"
| "sendable (UnbanReq k r) = segment_ok k"
| "sendable (GetCircuitStateReq k) = segment_ok k"
| "sendable _ = True"

fun arrived :: "request \<Rightarrow> request" where
  "arrived (CreateWorkflowReq r) = CreateWorkflowReq (map_option arrived_create r)"
| "arrived (EditWorkflowReq wid r) = EditWorkflowReq wid (map_option arrived_edit r)"
| "arrived rq = rq"

lemma fits_self: "\<not> list_ex is_parameter (split_on CHR ''/'' p) \<Longrightarrow> fits p p"
  by (auto simp: fits_def list_ex_iff segment_fits_def list_all2_same)

lemma is_parameter_simps [simp]: "is_parameter [] = False" "is_parameter (c # cs) = (c = CHR ''{'')"
  by (simp_all add: is_parameter_def)

lemma split_path: "segment_ok s \<Longrightarrow> split_on CHR ''/'' s = [s]" "segment_ok s \<Longrightarrow> split_on CHR ''/'' (s @ CHR ''/'' # t) = s # split_on CHR ''/'' t"
  by (simp_all add: segment_ok_def split_on_no_sep split_on_append)

text \<open>The pattern that answers a request.\<close>

fun pattern_of :: "request \<Rightarrow> string" where
  "pattern_of (CreateWorkflowReq _) = ''/workflows''"
| "pattern_of ListWorkflowsReq = ''/workflows''"
| "pattern_of (GetWorkflowReq _) = ''/workflows/{id}''"
| "pattern_of (EditWorkflowReq _ _) = ''/workflows/{id}''"
| "pattern_of (DeleteWorkflowReq _) = ''/workflows/{id}''"
| "pattern_of (TriggerReq _ _) = ''/workflows/{id}/trigger''"
| "pattern_of (ActivateReq _) = ''/workflows/{id}/activate''"
| "pattern_of (DeactivateReq _) = ''/workflows/{id}/deactivate''"
| "pattern_of (ListRunsReq _ _) = ''/workflows/{id}/runs''"
| "pattern_of (GetClientReq _) = ''/clients/{id}''"
| "pattern_of (GetRunReq _) = ''/runs/{id}''"
| "pattern_of (GetRunResultsReq _) = ''/runs/{id}/results''"
| "pattern_of (GetHealthReq _) = ''/health/{workflow_type}''"
| "pattern_of (GetClientBansReq _) = ''/bans/{client_id}''"
| "pattern_of (UnbanReq _ _) = ''/bans/{client_id}/unban''"
| "pattern_of (GetCircuitStateReq _) = ''/circuits/{workflow_id}''"
| "pattern_of rq = hr_Path (http_of rq)"

lemma routed: "(hr_Method (http_of rq), pattern_of rq) \<in> set routes"
  by (cases rq) (simp_all add: plain_def routes_def NewRouter_def)

lemma fits_pattern: "sendable rq \<Longrightarrow> fits (pattern_of rq) (hr_Path (http_of rq))"
  by (cases rq) (simp_all add: plain_def fits_def segment_fits_def split_path)

lemma full_path_of: "sendable rq \<Longrightarrow> full_path (hr_Path (http_of rq))"
  by (cases rq) (simp_all add: plain_def full_path_def split_path, auto simp: segment_ok_def)

lemma no_probe: "sendable rq \<Longrightarrow> rq \<noteq> LivenessReq \<Longrightarrow> rq \<noteq> ReadinessReq \<Longrightarrow> hr_Path (http_of rq) \<notin> set probe_paths"
  by (cases rq) (simp_all add: plain_def probe_paths_def)

lemma handled:
  assumes "sendable rq" and "\<forall>(name, v) \<in> set (url_values (pattern_of rq) (hr_Path (http_of rq))). url name = v"
  shows "the (map_of NewRouter (hr_Method (http_of rq), pattern_of rq)) url (hr_Query (http_of rq)) (hr_Body (http_of rq)) = arrived rq"
proof -
  have none: "decode_body flds zero None = None" for flds :: "(string \<times> 's field) list" and zero
    by (simp add: decode_body_def unmarshal_def)
  note simps = plain_def NewRouter_def url_values_def parameter_name_def split_path reason_round_trip unban_round_trip none
  show ?thesis
  proof (cases rq)
    case (CreateWorkflowReq r)
    with assms(1) show ?thesis by (cases r) (simp_all add: simps create_round_trip)
  next
    case (EditWorkflowReq k r)
    with assms show ?thesis by (cases r) (simp_all add: simps edit_round_trip)
  next
    case (UnbanReq k r)
    with assms show ?thesis by (cases r) (simp_all add: simps)
  qed (use assms in \<open>simp_all add: simps\<close>)
qed

lemma http_of_serve:
  assumes "chi_documented match" and "sendable rq"
  shows "ServeHTTP match E dp trig (http_of rq) S = serve E dp trig (arrived rq) S"
proof (cases "rq = LivenessReq \<or> rq = ReadinessReq")
  case True
  have "''/health/liveness'' \<in> set probe_paths" "''/health/readiness'' \<in> set probe_paths"
    by (simp_all add: probe_paths_def)
  note reach_probe [OF assms(1) this(1), of E dp trig no_query None S] reach_probe [OF assms(1) this(2), of E dp trig no_query None S]
  with True show ?thesis by (elim disjE) (simp_all add: plain_def)
next
  case False
  from routed [of rq] have "map_of NewRouter (hr_Method (http_of rq), pattern_of rq) \<noteq> None"
    by (simp add: routes_def map_of_eq_None_iff)
  then obtain h where h: "map_of NewRouter (hr_Method (http_of rq), pattern_of rq) = Some h" by blast
  have same: "\<lparr>hr_Method = hr_Method q, hr_Path = hr_Path q, hr_Query = hr_Query q, hr_Body = hr_Body q\<rparr> = q"
    for q :: http_request by (cases q) simp
  show ?thesis
    using reach [OF assms(1) full_path_of [OF assms(2)] h fits_pattern [OF assms(2)] no_probe [OF assms(2)], of "hr_Query (http_of rq)"
        "hr_Body (http_of rq)" "arrived rq" E dp trig S] handled [OF assms(2)] h False
    by (simp add: same)
qed

section \<open>What a request leaves alone\<close>





section \<open>Bodies of the wrong kind\<close>



text \<open>Whether a value is of the kind of a field does not depend on what is in the struct.\<close>

definition steady :: "'s field \<Rightarrow> bool" where
  "steady f \<longleftrightarrow> (\<forall>d s s'. snd (f d s) = snd (f d s'))"






lemma steady_simps [simp]:
  "steady (string_field p1)" "steady (bool_field p2)" "steady (map_field o3 p3)" "steady (float_field p4)"
  "steady (int64_field p5)" "steady (nil_map_field o6 p6)"
  by (auto simp: steady_def string_field_def bool_field_def map_field_def float_field_def int64_field_def nil_map_field_def
      Let_def split: doc.split)

lemma steady_pointer [simp]: "steady f \<Longrightarrow> steady (pointer_field z f old put)"
  unfolding steady_def pointer_field_def by (auto split: doc.split prod.split option.split) (metis prod.sel(2))+


section \<open>A matcher as documented\<close>

lemma find_SomeD: "find P xs = Some x \<Longrightarrow> P x \<and> x \<in> set xs"
  by (induction xs) (auto split: if_splits)

lemma one_parameter: "(m, p) \<in> set routes \<Longrightarrow> fits p p \<and> distinct (map fst (url_values p path))"
proof -
  assume route: "(m, p) \<in> set routes"
  have "list_all (\<lambda>r. fits (snd r) (snd r) \<and> length (filter is_parameter (split_on CHR ''/'' (snd r))) \<le> 1) routes"
    by code_simp
  with route have p: "fits p p" "length (filter is_parameter (split_on CHR ''/'' p)) \<le> 1"
    by (auto simp: list_all_iff dest!: bspec [of _ _ "(m, p)"])
  have "length (filter (\<lambda>(p, s). is_parameter p) (zip ps ss)) \<le> length (filter is_parameter ps)" for ps ss :: "string list"
    by (induction ps ss rule: list_induct2') auto
  with p(2) have "length (url_values p path) \<le> 1" unfolding url_values_def by (metis dual_order.trans length_map)
  then have "distinct (map fst (url_values p path))" by (cases "url_values p path") auto
  with p(1) show ?thesis by simp
qed

lemma first_fit_documented: "chi_documented first_fit"
proof -
  have "case first_fit routes m path of
       Inl status \<Rightarrow> status \<in> {404, 405} \<and> (\<forall>pattern. (m, pattern) \<in> set routes \<longrightarrow> \<not> fits pattern path)
     | Inr (pattern, url) \<Rightarrow> (m, pattern) \<in> set routes \<and> fits pattern path
         \<and> (\<forall>(name, v) \<in> set (url_values pattern path). url name = v) \<and> ((m, path) \<in> set routes \<longrightarrow> pattern = path)" for m path
  proof (cases "find (\<lambda>r. fst r = m \<and> fits (snd r) path) ((if (m, path) \<in> set routes then [(m, path)] else []) @ routes)")
    case None
    then have "\<not> fits p path" if "(m, p) \<in> set routes" for p using that by (auto simp: find_None_iff split: if_splits)
    then show ?thesis by (simp add: first_fit_def None)
  next
    case (Some r)
    obtain p where r: "r = (m, p)" "(m, p) \<in> set routes" "fits p path"
      using find_SomeD [OF Some] by (cases r) (auto split: if_splits)
    have "p = path" if "(m, path) \<in> set routes" using Some r(1) that one_parameter [OF that] by simp
    moreover have "(case map_of (url_values p path) name of None \<Rightarrow> [] | Some v \<Rightarrow> v) = v"
      if "(name, v) \<in> set (url_values p path)" for name v
      using that one_parameter [OF r(2), of path] by (simp add: map_of_is_SomeI)
    ultimately show ?thesis using r by (auto simp: first_fit_def Some)
  qed
  then show ?thesis by (simp add: chi_documented_def)
qed

section \<open>Properties\<close>

text \<open>C18. Every request of the interface can be made over HTTP and reaches its handler as it was meant: with a
  router that matches as chi documents it, the path, the query and the JSON body of a request are
  routed and decoded back to that request, whose maps arrive as JSON has them. (The health of a
  workflow type with the name of a probe cannot be asked for.)\<close>

theorem requests_reach_their_handlers:
  assumes "chi_documented match" and "sendable rq"
  shows "ServeHTTP match E dp trig (http_of rq) S = serve E dp trig (arrived rq) S"
  by (rule http_of_serve [OF assms])


section \<open>Witnesses\<close>

theorem requests_reach_their_handlers_witness:
  "ServeHTTP first_fit sample_env sample_deps (chain_trigger sample_env NATS_SendDispatch 3) (http_of (GetHealthReq ''upgrade'')) empty_server
    = Some (getHealth ''upgrade'' empty_server, empty_server)"
  using requests_reach_their_handlers [OF first_fit_documented, of "GetHealthReq ''upgrade''" sample_env sample_deps
      "chain_trigger sample_env NATS_SendDispatch 3" empty_server]
  by (simp add: segment_ok_def)


end
