(* ===== verification/Lifecycle.thy ===== *)
theory Lifecycle
  imports Config Requests
begin

text \<open>
  The programs from start to exit: opening the database (\<open>repository/sqlite.go\<close>, \<open>registry.go\<close>), the
  probes and the shutdown of \<open>cmd/main.go\<close> as a state machine over the server, with the HTTP router in
  front of it; the log level and the teardown of the super-client (\<open>cmd/super-client/main.go\<close>); the clocks
  (\<open>internal/adapters/clock\<close>) and what the in-memory dispatcher remembers. The SQL driver, NATS and the
  HTTP listener are arguments. A request, a message, a tick or the trigger of one workflow is one step; if
  a context is cancelled during a step, each method of the database works or fails for the whole of it.
\<close>

section \<open>Opening the database\<close>

text \<open>\<open>sql_open\<close> and \<open>exec\<close> are the driver's. The error of a pragma is ignored.\<close>

definition OpenSQLite ::
  "(string \<Rightarrow> string \<Rightarrow> go_error + 'db) \<Rightarrow> (string \<Rightarrow> 'db \<Rightarrow> go_error option \<times> 'db) \<Rightarrow> string \<Rightarrow> string \<Rightarrow> go_error + 'db" where
  "OpenSQLite sql_open exec schemaSQL dsn = (case sql_open ''sqlite'' dsn of
     Inl err \<Rightarrow> Inl (ErrWrap ''open sqlite: '' err [])
   | Inr db \<Rightarrow> (let db = snd (exec ''PRAGMA journal_mode=WAL;'' db);
       db = snd (exec ''PRAGMA foreign_keys=ON;'' db) in
       case exec schemaSQL db of
         (Some err, db) \<Rightarrow> Inl (ErrWrap ''apply schema: '' err [])
       | (None, db) \<Rightarrow> Inr db))"

lemma OpenSQLite_opens:
  assumes "sql_open ''sqlite'' dsn = Inr db" and "\<And>db. fst (exec schemaSQL db) = None"
  shows "\<exists>db'. OpenSQLite sql_open exec schemaSQL dsn = Inr db'"
proof -
  let ?db = "snd (exec ''PRAGMA foreign_keys=ON;'' (snd (exec ''PRAGMA journal_mode=WAL;'' db)))"
  obtain err db' where e: "exec schemaSQL ?db = (err, db')" by fastforce
  with assms(2) [of ?db] have "err = None" by simp
  with assms(1) e show ?thesis by (simp add: OpenSQLite_def)
qed

text \<open>\<open>HealthCheck\<close> of the registry, and the two probes of \<open>main\<close>: a program without a connection is never
  connected.\<close>

definition HealthCheck :: "('db \<Rightarrow> go_error option) \<Rightarrow> 'db \<Rightarrow> go_error option" where
  "HealthCheck ping db = ping db"

definition natsConnected :: "('c \<Rightarrow> bool) \<Rightarrow> 'c option \<Rightarrow> bool" where
  "natsConnected IsConnected natsConn = (case natsConn of None \<Rightarrow> False | Some c \<Rightarrow> IsConnected c)"

definition dbHealthy :: "('db \<Rightarrow> go_error option) \<Rightarrow> 'db \<Rightarrow> bool" where
  "dbHealthy ping db = (ping db = None)"

definition main_deps :: "time \<Rightarrow> int64 \<Rightarrow> bool \<Rightarrow> bool \<Rightarrow> deps" where
  "main_deps startedAt goroutines natsOk dbOk = \<lparr>dp_startedAt = startedAt, dp_goroutines = goroutines,
     dp_DBHealthy = Some dbOk, dp_NATSConnected = Some natsOk\<rparr>"

lemma readiness_without_NATS:
  "readiness (dp_DBHealthy (main_deps t g (natsConnected ic None) dbOk)) (dp_NATSConnected (main_deps t g (natsConnected ic None) dbOk))
    = (503, Document (FlagDoc [(''db'', dbOk), (''nats'', False)]))"
  by (simp add: readiness_def main_deps_def natsConnected_def probe_def writeJSON_def)

section \<open>What the configuration sets\<close>

text \<open>The limits of the connection pool, the timeouts of the HTTP server (both from
  \<open>HTTP_READ_TIMEOUT_MS\<close>) and the instant at which the shutdown stops waiting for open requests.\<close>

record db_pool =
  dp_MaxOpenConns :: int64
  dp_MaxIdleConns :: int64
  dp_ConnMaxLifetime :: duration

definition main_pool :: db_pool where
  "main_pool = \<lparr>dp_MaxOpenConns = 25, dp_MaxIdleConns = 5, dp_ConnMaxLifetime = 300 * Second\<rparr>"

record http_server =
  hs_Addr :: string
  hs_ReadTimeout :: duration
  hs_WriteTimeout :: duration

definition main_http_server :: "config \<Rightarrow> http_server" where
  "main_http_server cfg = \<lparr>hs_Addr = cf_HTTPHost cfg @ '':'' @ show_int (sint (cf_HTTPPort cfg)),
     hs_ReadTimeout = cf_HTTPReadTimeoutMS cfg * Millisecond, hs_WriteTimeout = cf_HTTPReadTimeoutMS cfg * Millisecond\<rparr>"

definition shutdown_deadline :: "config \<Rightarrow> time \<Rightarrow> time" where
  "shutdown_deadline cfg now = now + sint (cf_ShutdownTimeoutMS cfg * Millisecond)"

text \<open>Up to 9223372036854 ms the timeouts are what was asked for; one more gives a deadline in the past, so
  that the shutdown waits for nothing.\<close>

lemma timeouts_configured:
  assumes "0 \<le> sint (cf_ShutdownTimeoutMS cfg)" "sint (cf_ShutdownTimeoutMS cfg) \<le> 9223372036854"
    and "0 \<le> sint (cf_HTTPReadTimeoutMS cfg)" "sint (cf_HTTPReadTimeoutMS cfg) \<le> 9223372036854"
  shows "shutdown_deadline cfg now = now + sint (cf_ShutdownTimeoutMS cfg) * 1000000
    \<and> sint (hs_ReadTimeout (main_http_server cfg)) = sint (cf_HTTPReadTimeoutMS cfg) * 1000000
    \<and> hs_WriteTimeout (main_http_server cfg) = hs_ReadTimeout (main_http_server cfg)"
  using assms by (simp add: shutdown_deadline_def main_http_server_def sint_millis)

lemma deadline_wraps: "cf_ShutdownTimeoutMS cfg = 9223372036855 \<Longrightarrow> shutdown_deadline cfg now < now"
  by (simp add: shutdown_deadline_def Millisecond_def)

section \<open>Calls under a cancelled context\<close>

text \<open>A database call whose context is cancelled fails (\<open>database/sql\<close>, of Go's standard library, checks the
  context first). \<open>fails\<close> says of which methods the calls fail: of none before the cancellation, of all for
  an operation that begins after it, of any for one that is under way.\<close>

definition context_canceled :: go_error where
  "context_canceled = ErrMsg ''context canceled''"

definition cut_faults :: "(string \<Rightarrow> bool) \<Rightarrow> faults \<Rightarrow> faults" where
  "cut_faults fails f = (\<lambda>m. if fails m then Some context_canceled else f m)"

definition with_cut :: "(string \<Rightarrow> bool) \<Rightarrow> server \<Rightarrow> server" where
  "with_cut fails S = S\<lparr>sv_workflows := (sv_workflows S)\<lparr>wd_faults := cut_faults fails (wd_faults (sv_workflows S))\<rparr>,
     sv_clients := (sv_clients S)\<lparr>cd_faults := cut_faults fails (cd_faults (sv_clients S))\<rparr>,
     sv_runs := (sv_runs S)\<lparr>rd_faults := cut_faults fails (rd_faults (sv_runs S))\<rparr>,
     sv_results := (sv_results S)\<lparr>sd_faults := cut_faults fails (sd_faults (sv_results S))\<rparr>,
     sv_health := (sv_health S)\<lparr>hd_faults := cut_faults fails (hd_faults (sv_health S))\<rparr>,
     sv_circuits := (sv_circuits S)\<lparr>xd_faults := cut_faults fails (xd_faults (sv_circuits S))\<rparr>,
     sv_enf := (sv_enf S)\<lparr>en_bans := (en_bans (sv_enf S))\<lparr>bd_faults := cut_faults fails (bd_faults (en_bans (sv_enf S)))\<rparr>\<rparr>\<rparr>"

text \<open>The database itself is as it was: other contexts are not touched.\<close>

definition uncut :: "server \<Rightarrow> server \<Rightarrow> server" where
  "uncut S0 S = S\<lparr>sv_workflows := (sv_workflows S)\<lparr>wd_faults := wd_faults (sv_workflows S0)\<rparr>,
     sv_clients := (sv_clients S)\<lparr>cd_faults := cd_faults (sv_clients S0)\<rparr>,
     sv_runs := (sv_runs S)\<lparr>rd_faults := rd_faults (sv_runs S0)\<rparr>,
     sv_results := (sv_results S)\<lparr>sd_faults := sd_faults (sv_results S0)\<rparr>,
     sv_health := (sv_health S)\<lparr>hd_faults := hd_faults (sv_health S0)\<rparr>,
     sv_circuits := (sv_circuits S)\<lparr>xd_faults := xd_faults (sv_circuits S0)\<rparr>,
     sv_enf := (sv_enf S)\<lparr>en_bans := (en_bans (sv_enf S))\<lparr>bd_faults := bd_faults (en_bans (sv_enf S0))\<rparr>\<rparr>\<rparr>"

definition under :: "(string \<Rightarrow> bool) \<Rightarrow> (server \<Rightarrow> server) \<Rightarrow> server \<Rightarrow> server" where
  "under fails op S = uncut S (op (with_cut fails S))"

definition cuts :: "bool \<Rightarrow> bool \<Rightarrow> (string \<Rightarrow> bool) \<Rightarrow> bool" where
  "cuts cancelled begun fails \<longleftrightarrow> (if cancelled then begun \<or> fails = (\<lambda>_. True) else fails = (\<lambda>_. False))"

section \<open>The running program and its shutdown\<close>

text \<open>The goroutines that work under a context of \<open>main\<close>: the reader of the results, the two periodic
  tasks and the loop of the triggers, which is between two ticks, has workflows left to evaluate, or has
  returned.\<close>

datatype goroutine = Reader | Aggregator | CircuitTicker | TriggerLoop

datatype trigger_loop_at = Waiting | Evaluating time "workflow list" | Ended

text \<open>Where \<open>main\<close> is: before the signal; in \<open>server.Shutdown\<close>; in \<open>triggerSvc.Stop\<close>; at
  \<open>resultDispatcher.Stop\<close>; at \<open>cancel\<close>; at its end; and the process is gone.\<close>

datatype main_at = Serving | ShuttingDown | StoppingTriggers | StoppingDispatcher | Cancelling | Returning | Exited

text \<open>\<open>pg_open\<close> are the requests that are accepted and not yet answered, \<open>pg_inflight\<close> the goroutines that were
  in the middle of an operation when their context was cancelled.\<close>

record program =
  pg_server :: server
  pg_cron :: cron_state
  pg_main :: main_at
  pg_listening :: bool
  pg_open :: "http_request list"
  pg_results :: bool
  pg_aggregates :: bool
  pg_circuits :: bool
  pg_registrations :: bool
  pg_triggers :: trigger_loop_at
  pg_triggersCancelled :: bool
  pg_cancelled :: bool
  pg_inflight :: "goroutine set"
  pg_dispatcherStopped :: bool

text \<open>The program \<open>server_main\<close> has started, with or without a connection to NATS; a periodic task whose
  interval is not positive returns at once.\<close>

definition started :: "running \<Rightarrow> bool \<Rightarrow> program" where
  "started rg nats = \<lparr>pg_server = rg_server rg, pg_cron = NewCronEvaluator, pg_main = Serving, pg_listening = True, pg_open = [],
     pg_results = rg_results rg, pg_aggregates = (0 < sint (rg_aggregateTick rg)),
     pg_circuits = (0 < sint (rg_circuitTick rg)), pg_registrations = nats, pg_triggers = Waiting,
     pg_triggersCancelled = False, pg_cancelled = False, pg_inflight = {}, pg_dispatcherStopped = False\<rparr>"

text \<open>The next step of \<open>main\<close>, if it can make one. \<open>server.Shutdown\<close> closes the listener and waits until no
  request is open or its deadline has passed; the error it then returns is ignored, so \<open>main\<close> may go on at
  any time. \<open>triggerSvc.Stop\<close> cancels the context of the triggers and waits for the end of the loop.
  \<open>resultDispatcher.Stop\<close> sets a flag that nothing reads. \<open>busy\<close> are the goroutines in the middle of an
  operation.\<close>

definition main_next :: "goroutine set \<Rightarrow> program \<Rightarrow> program option" where
  "main_next busy p = (case pg_main p of
     Serving \<Rightarrow> Some (p\<lparr>pg_main := ShuttingDown, pg_listening := False\<rparr>)
   | ShuttingDown \<Rightarrow> Some (p\<lparr>pg_main := StoppingTriggers, pg_triggersCancelled := True,
       pg_inflight := busy \<inter> {TriggerLoop}\<rparr>)
   | StoppingTriggers \<Rightarrow> if pg_triggers p = Ended then Some (p\<lparr>pg_main := StoppingDispatcher\<rparr>) else None
   | StoppingDispatcher \<Rightarrow> Some (p\<lparr>pg_main := Cancelling, pg_dispatcherStopped := True\<rparr>)
   | Cancelling \<Rightarrow> Some (p\<lparr>pg_main := Returning, pg_cancelled := True,
       pg_inflight := busy \<inter> {Reader, Aggregator, CircuitTicker}\<rparr>)
   | Returning \<Rightarrow> Some (p\<lparr>pg_main := Exited, pg_open := [], pg_results := False, pg_aggregates := False,
       pg_circuits := False, pg_registrations := False, pg_inflight := {}\<rparr>)
   | Exited \<Rightarrow> None)"

text \<open>One step of the program: of \<open>main\<close>, of a request (whose own context ends when its client goes, at any
  time), of a goroutine, or of the subscription for registrations, which uses a context that is never
  cancelled. A \<open>select\<close> with a cancelled context and a message or tick takes either.\<close>

inductive program_step :: "chi \<Rightarrow> cron_parser \<Rightarrow> running \<Rightarrow> program \<Rightarrow> program \<Rightarrow> bool" for match parse rg where
  main: "main_next busy p = Some q \<Longrightarrow> program_step match parse rg p q"
| accept: "pg_listening p \<Longrightarrow> program_step match parse rg p (p\<lparr>pg_open := pg_open p @ [hq]\<rparr>)"
| handle: "pg_open p = before @ hq # after
    \<Longrightarrow> ServeHTTP match E dp (chain_trigger E (rg_sender rg) n) hq (with_cut fails (pg_server p)) = Some (resp, S')
    \<Longrightarrow> program_step match parse rg p (p\<lparr>pg_server := uncut (pg_server p) S', pg_open := before @ after\<rparr>)"
| message: "pg_results p \<Longrightarrow> cuts (pg_cancelled p) (Reader \<in> pg_inflight p) fails
    \<Longrightarrow> program_step match parse rg p (p\<lparr>pg_server := under fails (process_message (rg_services rg) (\<lambda>_ parsed. parsed) (E, parsed))
        (pg_server p), pg_inflight := pg_inflight p - {Reader}\<rparr>)"
| reader_ends: "pg_results p \<Longrightarrow> pg_cancelled p
    \<Longrightarrow> program_step match parse rg p (p\<lparr>pg_results := False, pg_inflight := pg_inflight p - {Reader}\<rparr>)"
| register: "pg_registrations p
    \<Longrightarrow> program_step match parse rg p (p\<lparr>pg_server := register_callback parse_time E data (pg_server p)\<rparr>)"
| aggregate: "pg_aggregates p \<Longrightarrow> cuts (pg_cancelled p) (Aggregator \<in> pg_inflight p) fails
    \<Longrightarrow> program_step match parse rg p (p\<lparr>pg_server := under fails (aggregate_tick E (cfg_health (rg_services rg))) (pg_server p),
        pg_inflight := pg_inflight p - {Aggregator}\<rparr>)"
| aggregates_end: "pg_aggregates p \<Longrightarrow> pg_cancelled p
    \<Longrightarrow> program_step match parse rg p (p\<lparr>pg_aggregates := False, pg_inflight := pg_inflight p - {Aggregator}\<rparr>)"
| circuits: "pg_circuits p \<Longrightarrow> cuts (pg_cancelled p) (CircuitTicker \<in> pg_inflight p) fails
    \<Longrightarrow> program_step match parse rg p (p\<lparr>pg_server := under fails (circuit_tick E (cfg_circuit (rg_services rg))) (pg_server p),
        pg_inflight := pg_inflight p - {CircuitTicker}\<rparr>)"
| circuits_end: "pg_circuits p \<Longrightarrow> pg_cancelled p
    \<Longrightarrow> program_step match parse rg p (p\<lparr>pg_circuits := False, pg_inflight := pg_inflight p - {CircuitTicker}\<rparr>)"
| tick: "pg_triggers p = Waiting \<Longrightarrow> cuts (pg_triggersCancelled p) (TriggerLoop \<in> pg_inflight p) fails
    \<Longrightarrow> program_step match parse rg p (p\<lparr>pg_triggers := (case ListActiveWorkflows (sv_workflows (with_cut fails (pg_server p))) of
          Inl _ \<Rightarrow> Waiting | Inr ws \<Rightarrow> Evaluating now ws), pg_inflight := pg_inflight p - {TriggerLoop}\<rparr>)"
| fire: "pg_triggers p = Evaluating now (w # ws) \<Longrightarrow> cuts (pg_triggersCancelled p) (TriggerLoop \<in> pg_inflight p) fails
    \<Longrightarrow> evaluate_triggers parse (chain_trigger E (rg_sender rg) n) now [w] (pg_cron p) (0, with_cut fails (pg_server p))
        = Some (cron', k, S')
    \<Longrightarrow> program_step match parse rg p (p\<lparr>pg_server := uncut (pg_server p) S', pg_cron := cron',
        pg_triggers := Evaluating now ws, pg_inflight := pg_inflight p - {TriggerLoop}\<rparr>)"
| evaluated: "pg_triggers p = Evaluating now [] \<Longrightarrow> program_step match parse rg p (p\<lparr>pg_triggers := Waiting\<rparr>)"
| loop_ends: "pg_triggers p = Waiting \<Longrightarrow> pg_triggersCancelled p
    \<Longrightarrow> program_step match parse rg p (p\<lparr>pg_triggers := Ended, pg_inflight := pg_inflight p - {TriggerLoop}\<rparr>)"

abbreviation program_run :: "chi \<Rightarrow> cron_parser \<Rightarrow> running \<Rightarrow> program \<Rightarrow> program \<Rightarrow> bool" where
  "program_run match parse rg \<equiv> (program_step match parse rg)\<^sup>*\<^sup>*"

text \<open>The loop of \<open>evaluate\<close> is its iterations one by one.\<close>

lemma evaluate_triggers_Cons:
  "evaluate_triggers parse trig now (w # ws) e st = (case evaluate_triggers parse trig now [w] e st of
     None \<Rightarrow> None | Some (e, st) \<Rightarrow> evaluate_triggers parse trig now ws e st)"
  by (simp split: prod.split sum.split option.split bool.split)

section \<open>What the background work does not make\<close>

text \<open>The dispatches sent and the runs there are.\<close>

definition made :: "server \<Rightarrow> outbox \<times> string list" where
  "made S = (sv_outbox S, map run_RunID (rd_runs (sv_runs S)))"

lemma made_change_state [simp]: "made (snd (change_state E i svc w st reason b S)) = made S"
  by (simp add: made_def change_state_def Let_def)

lemma made_evaluate_workflow [simp]: "made (snd (evaluate_workflow E i (\<lambda>_ S. S) svc h w S)) = made S"
proof -
  have "made S' = made S" if "change_state E i svc w st reason b S = (b', S')" for st reason b b' S'
    using made_change_state [of E i svc w st reason b S] that by simp
  then show ?thesis by (auto simp: evaluate_workflow_def Let_def made_def split: prod.split)
qed

lemma made_evaluate_loop [simp]: "made (snd (evaluate_loop E i (\<lambda>_ S. S) svc h ws S)) = made S"
proof (induction ws arbitrary: i S)
  case (Cons w ws)
  obtain r S1 where e: "evaluate_workflow E i (\<lambda>_ S. S) svc h w S = (r, S1)" by fastforce
  with made_evaluate_workflow [of E i svc h w S] have "made S1 = made S" by simp
  with Cons e show ?case by (simp split: sum.split)
qed simp

lemma made_EvaluateWorkflowType [simp]: "made (snd (EvaluateWorkflowType E (\<lambda>_ S. S) svc t h S)) = made S"
  by (simp add: EvaluateWorkflowType_def split: sum.split option.split)

lemma made_evaluate_types [simp]: "made (evaluate_types E (\<lambda>_ S. S) svc ws seen S) = made S"
  by (induction ws arbitrary: E seen S) simp_all

lemma made_circuit_tick [simp]: "made (circuit_tick E csvc S) = made S"
  by (simp add: circuit_tick_def EvaluateAllWorkflows_def split: sum.split)

lemma made_Aggregate [simp]: "made (snd (AggregateWorkflowTypeHealth E svc t S)) = made S"
  by (auto simp: AggregateWorkflowTypeHealth_def Let_def made_def split: sum.split prod.split)

lemma made_aggregate_tick [simp]: "made (aggregate_tick E svc S) = made S"
proof -
  have "made (aggregate_loop E svc ws seen S) = made S" for ws seen S
    by (induction ws arbitrary: seen S) simp_all
  then show ?thesis by (simp add: aggregate_tick_def split: sum.split)
qed

lemma made_register [simp]: "made (register_callback parse_time E data S) = made S"
  by (simp add: register_callback_def handle_register_def made_def split: option.split sum.split)

lemma made_Publish [simp]: "made (Publish (server_bus E csvc) ev S) = made S"
  by (simp add: server_bus_def Publish_Subscribe OnHealthUpdatedEvent_def split: event.split)

lemma run_ids_UpdateRun [simp]: "map run_RunID (rd_runs (snd (UpdateRun r db))) = map run_RunID (rd_runs db)"
  by (auto simp: UpdateRun_def split: option.split)

lemma made_updates [simp]:
  "made (S\<lparr>sv_runs := snd (UpdateRun r (sv_runs S))\<rparr>) = made S" "made (S\<lparr>sv_health := hdb\<rparr>) = made S"
  by (simp_all add: made_def)

lemma made_Service_CalculateRunHealth [simp]:
  "made (snd (Service_CalculateRunHealth E (Publish (server_bus E' csvc)) svc k S)) = made S"
proof -
  have agg: "made S' = made S1" if "AggregateWorkflowTypeHealth E svc t S1 = (r, S')" for t S1 r S'
    using made_Aggregate [of E svc t S1] that by simp
  show ?thesis
    by (auto simp: Service_CalculateRunHealth_def Let_def split: sum.split prod.split dest!: agg)
qed

lemma made_process_message [simp]: "made (process_message cfg parse msg S) = made S"
proof -
  obtain E data where msg: "msg = (E, data)" by fastforce
  have handlers: "server_handlers E cfg = [registration_handler E, loop_handler E cfg, health_handler E cfg]"
    unfolding server_handlers_def by (rule server_handlers_eq) simp
  have reg: "made (snd (Registration_HandleResult E r S)) = made S" for r S
    by (simp add: Registration_HandleResult_def Let_def made_def split: option.split)
  have loop: "made (snd (Loop_HandleResult E ev svc r S)) = made S" for ev svc r S
    by (simp add: Loop_HandleResult_def Let_def made_def split: option.split sum.split)
  have health: "made (snd (Health_HandleResult E1 (Publish (server_bus E' csvc)) svc r S)) = made S"
    for E1 E' csvc svc r S
  proof -
    have "made S2 = made S1"
      if "Service_CalculateRunHealth E1 (Publish (server_bus E' csvc)) svc k S1 = (x, S2)" for k S1 x S2
      using made_Service_CalculateRunHealth [of E1 E' csvc svc k S1] that by simp
    then show ?thesis
      by (auto simp: Health_HandleResult_def Let_def made_def split: option.split prod.split)
  qed
  show ?thesis
    by (simp add: process_message_def msg handlers Dispatch_def registration_handler_def loop_handler_def
        health_handler_def reg loop health split: sum.split)
qed

section \<open>A cancelled context changes nothing\<close>

text \<open>An operation that begins after the cancellation fails at its first call of the database.\<close>

abbreviation everything :: "string \<Rightarrow> bool" where "everything \<equiv> \<lambda>_. True"
abbreviation nothing :: "string \<Rightarrow> bool" where "nothing \<equiv> \<lambda>_. False"

lemma cut_all [simp]: "cut_faults everything f m = Some context_canceled"
  by (simp add: cut_faults_def)

lemma uncut_with_cut [simp]: "uncut S (with_cut fails S) = S"
  by (simp add: uncut_def with_cut_def)

lemma with_cut_nothing [simp]: "with_cut nothing S = S"
  by (simp add: with_cut_def cut_faults_def)

lemma cut_fields [simp]:
  "wd_faults (sv_workflows (with_cut fails S)) = cut_faults fails (wd_faults (sv_workflows S))"
  "cd_faults (sv_clients (with_cut fails S)) = cut_faults fails (cd_faults (sv_clients S))"
  "rd_faults (sv_runs (with_cut fails S)) = cut_faults fails (rd_faults (sv_runs S))"
  "sd_faults (sv_results (with_cut fails S)) = cut_faults fails (sd_faults (sv_results S))"
  "rd_runs (sv_runs (with_cut fails S)) = rd_runs (sv_runs S)" "sv_outbox (with_cut fails S) = sv_outbox S"
  "rd_runs (sv_runs (uncut S T)) = rd_runs (sv_runs T)" "sv_outbox (uncut S T) = sv_outbox T"
  by (simp_all add: with_cut_def uncut_def)

lemma cut_queries [simp]:
  "GetWorkflow k (sv_workflows (with_cut everything S)) = Inl context_canceled"
  "ListActiveWorkflows (sv_workflows (with_cut everything S)) = Inl context_canceled"
  "ListAllWorkflows (sv_workflows (with_cut everything S)) = Inl context_canceled"
  "GetRun k (sv_runs (with_cut everything S)) = Inl context_canceled"
  by (simp_all add: GetWorkflow_def ListActiveWorkflows_def ListAllWorkflows_def GetRun_def)

lemma cut_writes [simp]:
  "(with_cut everything S)\<lparr>sv_clients := snd (SaveClient E c (sv_clients (with_cut everything S)))\<rparr> = with_cut everything S"
  "(with_cut everything S)\<lparr>sv_results := snd (SaveResultWithType r t (sv_results (with_cut everything S)))\<rparr>
     = with_cut everything S"
  by (simp_all add: SaveClient_def SaveResultWithType_def)

lemma cut_message [simp]: "process_message cfg parse msg (with_cut everything S) = with_cut everything S"
proof -
  obtain E data where msg: "msg = (E, data)" by fastforce
  have handlers: "server_handlers E cfg = [registration_handler E, loop_handler E cfg, health_handler E cfg]"
    unfolding server_handlers_def by (rule server_handlers_eq) simp
  let ?S = "with_cut everything S"
  have reg: "snd (Registration_HandleResult E r ?S) = ?S" for r
    by (simp add: Registration_HandleResult_def Let_def split: option.split)
  have loop: "snd (Loop_HandleResult E ev svc r ?S) = ?S" for ev svc r
    by (simp add: Loop_HandleResult_def split: option.split)
  have health: "snd (Health_HandleResult E1 pub svc r ?S) = ?S" for E1 pub svc r
    by (simp add: Health_HandleResult_def Service_CalculateRunHealth_def Let_def split: option.split)
  show ?thesis
    by (simp add: process_message_def msg handlers Dispatch_def registration_handler_def loop_handler_def
        health_handler_def reg loop health split: sum.split)
qed

lemma cut_ticks [simp]:
  "aggregate_tick E svc (with_cut everything S) = with_cut everything S"
  "circuit_tick E csvc (with_cut everything S) = with_cut everything S"
  by (simp_all add: aggregate_tick_def circuit_tick_def EvaluateAllWorkflows_def)

lemma cut_fire: "\<exists>cron'. evaluate_triggers parse (chain_trigger E send (Suc 0)) now [w] cron (0, with_cut everything S)
    = Some (cron', 0, with_cut everything S)"
proof -
  have "fire (chain_trigger E send (Suc 0)) w reason (0, with_cut everything S) = Some (0, with_cut everything S)" for reason
    by (simp add: fire_def TriggerWorkflow_def)
  then show ?thesis by (auto split: prod.split sum.split bool.split)
qed

lemma under_everything [simp]:
  "op (with_cut everything S) = with_cut everything S \<Longrightarrow> under everything op S = S"
  by (simp add: under_def)

section \<open>What the shutdown leaves running\<close>

text \<open>How far \<open>main\<close> has come says what can still run.\<close>

definition phase_ok :: "program \<Rightarrow> bool" where
  "phase_ok p \<longleftrightarrow> (pg_listening p \<longleftrightarrow> pg_main p = Serving)
     \<and> (pg_triggersCancelled p \<longleftrightarrow> pg_main p \<notin> {Serving, ShuttingDown})
     \<and> (pg_triggers p = Ended \<longrightarrow> pg_triggersCancelled p)
     \<and> (pg_main p \<in> {StoppingDispatcher, Cancelling, Returning, Exited} \<longrightarrow> pg_triggers p = Ended)
     \<and> (pg_cancelled p \<longleftrightarrow> pg_main p \<in> {Returning, Exited})
     \<and> (pg_main p = Exited \<longrightarrow> pg_open p = [] \<and> \<not> pg_results p \<and> \<not> pg_aggregates p \<and> \<not> pg_circuits p \<and> \<not> pg_registrations p)"

lemma phase_started: "phase_ok (started rg nats)"
  by (simp add: phase_ok_def started_def)

lemma phase_main:
  assumes "main_next busy p = Some q" and "phase_ok p"
  shows "phase_ok q"
  using assms by (cases "pg_main p") (auto simp: main_next_def phase_ok_def split: if_splits)

lemma phase_step:
  assumes "program_step match parse rg p q" and "phase_ok p"
  shows "phase_ok q"
  using assms
proof (induction rule: program_step.induct)
  case (main busy p q)
  then show ?case by (rule phase_main)
qed (auto simp: phase_ok_def split: sum.split)

lemma phase_run: "program_run match parse rg p q \<Longrightarrow> phase_ok p \<Longrightarrow> phase_ok q"
  by (induction rule: rtranclp_induct) (auto intro: phase_step)

lemma made_cut [simp]: "made (with_cut fails S) = made S" "made (uncut S T) = made T"
  by (simp_all add: made_def)

lemma made_under [simp]: "(\<And>T. made (op T) = made T) \<Longrightarrow> made (under fails op S) = made S"
  by (simp add: under_def)

lemma main_server: "main_next busy p = Some q \<Longrightarrow> pg_server q = pg_server p"
  by (auto simp: main_next_def split: main_at.splits if_splits)

lemma main_open: "main_next busy p = Some q \<Longrightarrow> pg_open q = pg_open p \<or> pg_open q = []"
  by (auto simp: main_next_def split: main_at.splits if_splits)

text \<open>Once the loop of the triggers has ended, only a request that is still open makes runs and dispatches.\<close>

lemma quiet_step:
  assumes "program_step match parse rg p q" and "phase_ok p" and "pg_triggers p = Ended"
  shows "pg_triggers q = Ended \<and> (made (pg_server q) = made (pg_server p) \<and> length (pg_open q) \<le> length (pg_open p)
    \<or> length (pg_open q) < length (pg_open p))"
  using assms
proof cases
  case (main busy)
  have "pg_triggers q = Ended" using main assms(3) by (auto simp: main_next_def split: main_at.splits if_splits)
  with main_server [OF main] main_open [OF main] show ?thesis by auto
qed (auto simp: phase_ok_def)

lemma quiet_run:
  assumes "program_run match parse rg p q" and "phase_ok p" and "pg_triggers p = Ended"
  shows "pg_triggers q = Ended \<and> (made (pg_server q) = made (pg_server p) \<and> length (pg_open q) \<le> length (pg_open p)
    \<or> length (pg_open q) < length (pg_open p))"
  using assms(1)
proof (induction rule: rtranclp_induct)
  case (step q r)
  from quiet_step [OF step.hyps(2) phase_run [OF step.hyps(1) assms(2)]] step.IH show ?case by auto
qed (simp add: assms(3))

text \<open>Once the context of \<open>main\<close> is cancelled, nothing is under way and no request is open, only registrations
  write.\<close>

definition idle :: "program \<Rightarrow> bool" where
  "idle p \<longleftrightarrow> pg_cancelled p \<and> pg_inflight p = {} \<and> pg_open p = []"

definition only_clients :: "server \<Rightarrow> server \<Rightarrow> bool" where
  "only_clients S S' \<longleftrightarrow> S' = S\<lparr>sv_clients := sv_clients S'\<rparr>"

lemma only_clients_same [simp]: "only_clients S S"
  by (simp add: only_clients_def)

lemma only_clients_update: "only_clients S (S\<lparr>sv_clients := db\<rparr>)"
  by (simp add: only_clients_def)

lemma only_clients_trans: "only_clients S T \<Longrightarrow> only_clients T U \<Longrightarrow> only_clients S U"
  by (cases S; cases T; cases U) (simp add: only_clients_def)

lemma register_clients: "only_clients S (register_callback parse_time E data S)"
  by (auto simp: register_callback_def handle_register_def only_clients_update split: option.split sum.split)

lemma frozen_step:
  assumes "program_step match parse rg p q" and "phase_ok p" and "idle p"
  shows "idle q \<and> only_clients (pg_server p) (pg_server q)"
  using assms
proof cases
  case (main busy)
  from assms(2,3) have "pg_main p = Returning \<or> pg_main p = Exited" by (auto simp: phase_ok_def idle_def)
  with main assms(3) show ?thesis by (auto simp: main_next_def idle_def)
qed (auto simp: phase_ok_def idle_def cuts_def register_clients)

lemma frozen_run:
  assumes "program_run match parse rg p q" and "phase_ok p" and "idle p"
  shows "idle q \<and> only_clients (pg_server p) (pg_server q)"
  using assms(1)
proof (induction rule: rtranclp_induct)
  case (step q r)
  from frozen_step [OF step.hyps(2) phase_run [OF step.hyps(1) assms(2)]] step.IH show ?case
    by (auto intro: only_clients_trans)
qed (simp add: assms(3))

section \<open>The way to the exit\<close>

text \<open>What is left to do: the steps of \<open>main\<close>, and of the loop of the triggers one per workflow of its
  evaluation, one for its end, and one to return.\<close>

fun main_left :: "main_at \<Rightarrow> nat" where
  "main_left Serving = 6"
| "main_left ShuttingDown = 5"
| "main_left StoppingTriggers = 4"
| "main_left StoppingDispatcher = 3"
| "main_left Cancelling = 2"
| "main_left Returning = 1"
| "main_left Exited = 0"

fun loop_left :: "trigger_loop_at \<Rightarrow> nat" where
  "loop_left (Evaluating now ws) = length ws + 2"
| "loop_left Waiting = 1"
| "loop_left Ended = 0"

definition steps_left :: "program \<Rightarrow> nat" where
  "steps_left p = main_left (pg_main p) + loop_left (pg_triggers p)"

lemma main_lowers: "main_next busy p = Some q \<Longrightarrow> steps_left q < steps_left p"
  by (auto simp: main_next_def steps_left_def split: main_at.splits if_splits)

text \<open>Until the exit some step of \<open>main\<close> or of the loop it waits for is possible.\<close>

lemma never_stuck:
  assumes "phase_ok p" and "pg_main p \<noteq> Exited"
  shows "\<exists>q. program_step match parse rg p q \<and> steps_left q < steps_left p \<and> pg_server q = pg_server p"
proof (cases "main_next {} p")
  case (Some q)
  with main_lowers main_server show ?thesis by (blast intro: program_step.main)
next
  case None
  with assms have wait: "pg_main p = StoppingTriggers" "pg_triggers p \<noteq> Ended"
    by (auto simp: main_next_def split: main_at.splits if_splits)
  then have cancelled: "pg_triggersCancelled p" using assms(1) by (simp add: phase_ok_def)
  have lowered: ?thesis if "program_step match parse rg p q" "steps_left q < steps_left p" "pg_server q = pg_server p" for q
    using that by blast
  show ?thesis
  proof (cases "pg_triggers p")
    case Waiting
    let ?q = "p\<lparr>pg_triggers := Ended, pg_inflight := pg_inflight p - {TriggerLoop}\<rparr>"
    have "program_step match parse rg p ?q" by (rule program_step.loop_ends [OF Waiting cancelled])
    with Waiting show ?thesis by (intro exI [of _ ?q]) (simp add: steps_left_def)
  next
    case (Evaluating now ws)
    show ?thesis
    proof (cases ws)
      case Nil
      let ?q = "p\<lparr>pg_triggers := Waiting\<rparr>"
      have "program_step match parse rg p ?q"
        by (rule program_step.evaluated) (rule Evaluating [unfolded Nil])
      with Evaluating show ?thesis by (intro exI [of _ ?q]) (simp add: steps_left_def)
    next
      case (Cons w rest)
      fix E
      obtain cron' where "evaluate_triggers parse (chain_trigger E (rg_sender rg) (Suc 0)) now [w] (pg_cron p)
          (0, with_cut everything (pg_server p)) = Some (cron', 0, with_cut everything (pg_server p))"
        using cut_fire by blast
      from program_step.fire [OF Evaluating [unfolded Cons] _ this, of match] cancelled
      have "program_step match parse rg p (p\<lparr>pg_server := uncut (pg_server p) (with_cut everything (pg_server p)),
          pg_cron := cron', pg_triggers := Evaluating now rest, pg_inflight := pg_inflight p - {TriggerLoop}\<rparr>)"
        by (simp add: cuts_def)
      then show ?thesis by (rule lowered) (simp_all add: steps_left_def Evaluating Cons)
    qed
  qed (use wait in simp)
qed

lemma can_exit:
  assumes "phase_ok p"
  shows "\<exists>q k. k \<le> steps_left p \<and> (program_step match parse rg ^^ k) p q \<and> pg_main q = Exited \<and> pg_server q = pg_server p"
  using assms
proof (induction "steps_left p" arbitrary: p rule: less_induct)
  case less
  show ?case
  proof (cases "pg_main p = Exited")
    case True
    then show ?thesis by (intro exI [of _ p] exI [of _ 0]) simp
  next
    case False
    obtain q where q: "program_step match parse rg p q" "steps_left q < steps_left p" "pg_server q = pg_server p"
      using never_stuck [OF less.prems False] by blast
    from less.hyps [OF q(2) phase_step [OF q(1) less.prems]] obtain r k where
      "k \<le> steps_left q" "(program_step match parse rg ^^ k) q r" "pg_main r = Exited" "pg_server r = pg_server q" by blast
    moreover from this(2) q(1) have "(program_step match parse rg ^^ Suc k) p r" by (rule relpowp_Suc_I2 [rotated])
    ultimately show ?thesis using q(2,3) by (intro exI [of _ r] exI [of _ "Suc k"]) simp
  qed
qed

text \<open>Once the triggers are stopped nothing adds to what is left, apart from the operation under way then.\<close>

definition stopping :: "program \<Rightarrow> bool" where
  "stopping p \<longleftrightarrow> pg_triggersCancelled p \<and> TriggerLoop \<notin> pg_inflight p"

lemma stopping_step:
  assumes "program_step match parse rg p q" and "phase_ok p" and "stopping p"
  shows "stopping q \<and> steps_left q \<le> steps_left p"
  using assms
proof cases
  case (main busy)
  from assms(2,3) have "pg_main p \<notin> {Serving, ShuttingDown}" by (auto simp: phase_ok_def stopping_def)
  with main have "stopping q" using assms(3) by (auto simp: main_next_def stopping_def split: main_at.splits if_splits)
  with main_lowers [OF main] show ?thesis by simp
qed (auto simp: stopping_def steps_left_def cuts_def)

lemma stopping_run:
  assumes "program_run match parse rg p q" and "phase_ok p" and "stopping p"
  shows "stopping q \<and> steps_left q \<le> steps_left p"
  using assms(1)
proof (induction rule: rtranclp_induct)
  case (step q r)
  from stopping_step [OF step.hyps(2) phase_run [OF step.hyps(1) assms(2)]] step.IH show ?case by auto
qed (simp add: assms(3))

lemma exited_no_step:
  assumes "phase_ok p" and "pg_main p = Exited"
  shows "\<not> program_step match parse rg p q"
proof
  assume "program_step match parse rg p q"
  then show False using assms by cases (auto simp: phase_ok_def main_next_def)
qed

section \<open>Two gaps of the shutdown\<close>

text \<open>After \<open>resultDispatcher.Stop\<close> results are processed as before, until the context is cancelled and the
  reader notices.\<close>

lemma stopped_dispatcher_dispatches:
  assumes "phase_ok p" and "pg_main p = Cancelling" and "pg_results p"
  shows "pg_dispatcherStopped p \<longrightarrow> program_step match parse rg p
    (p\<lparr>pg_server := under nothing (process_message (rg_services rg) (\<lambda>_ parsed. parsed) (E, parsed)) (pg_server p),
       pg_inflight := pg_inflight p - {Reader}\<rparr>)"
proof -
  have "\<not> pg_cancelled p" using assms(1,2) by (simp add: phase_ok_def)
  then show ?thesis using program_step.message [OF assms(3), of nothing match parse rg E parsed] by (simp add: cuts_def)
qed

text \<open>A trigger of the fleet of the samples, over HTTP.\<close>

lemma fleet_trigger_sends:
  "\<exists>r S'. chain_trigger sample_env NATS_SendDispatch 1 ''w1'' ''manual'' (0, fleet_server) = Some ((Some r, None), 1, S')
    \<and> map (di_ClientID \<circ> snd) (ob_sent (sv_outbox S')) = [''c2'']"
proof -
  define allowed where "allowed = allowed_clients (sv_enf fleet_server) (wf_WorkflowType fleet_workflow) [''c1'', ''c2'']"
  define r where "r = new_run sample_env 0 fleet_workflow [''c1'', ''c2''] ''manual''"
  let ?ds = "GenerateDispatches sample_env r fleet_workflow allowed"
  have ok: "env_uuid sample_env 0 \<notin> run_RunID ` set (rd_runs (sv_runs fleet_server))" "env_uuid sample_env 0 \<noteq> []"
    "wf_ID fleet_workflow \<noteq> []"
    using fleet_trigger_ready by (simp_all add: trigger_ready_def)
  obtain err r' S2 where t: "\<And>publish. TriggerWorkflow sample_env NATS_SendDispatch publish ''w1'' ''manual'' (0, fleet_server)
      = (case err of Some e \<Rightarrow> Some ((Some r', Some e), 0 + 1, S2)
      | None \<Rightarrow> map_option (Pair (Some r', None)) (publish (WorkflowCompletionEvent ''w1'' (wf_WorkflowType fleet_workflow)
          (env_uuid sample_env 0) RunInProgress (env_now sample_env)) (0 + 1, S2)))"
    "err = fst (send_loop NATS_SendDispatch ?ds [] (sv_outbox fleet_server))"
    "sv_outbox S2 = snd (snd (send_loop NATS_SendDispatch ?ds [] (sv_outbox fleet_server)))"
    "runs_and_outbox_only fleet_server S2"
    by (rule TriggerWorkflow_steps [OF fleet_server_ok fleet_server_rows(1,3,2) ok(1) r_def allowed_def,
        of NATS_SendDispatch]) (rule that; assumption)
  have valid: "filter Dispatch_IsValid ?ds = ?ds"
    using ok(2,3) fleet_server_rows(5) by (simp add: GenerateDispatches_valid r_def new_run_def)
  from send_loop_can [OF fleet_can_send(2), of sample_env r allowed, unfolded valid] t(2,3)
  have sent: "err = None" "ob_sent (sv_outbox S2) = ob_sent (sv_outbox fleet_server) @ map message_for ?ds" by auto
  have "allowed = [''c2'']"
    by (simp add: allowed_def allowed_clients_def fleet_server_rows spec_blocked_def)
  moreover have "ob_sent (sv_outbox fleet_server) = []" by (simp add: fleet_server_def empty_server_def)
  ultimately have "map (di_ClientID \<circ> snd) (ob_sent (sv_outbox S2)) = [''c2'']"
    using sent(2) by (simp add: GenerateDispatches_def message_for_def)
  moreover have "ListActiveWorkflows (sv_workflows S2) = Inr [fleet_workflow]"
    using t(4) by (simp add: runs_and_outbox_only_def fleet_server_def ListActiveWorkflows_def fleet_server_rows(3) order_desc_def)
  moreover have "tr_Kind (wf_Trigger fleet_workflow) \<noteq> TriggerEvent" by (simp add: fleet_workflow_def sample_workflow_def)
  ultimately show ?thesis
    using t(1) sent(1) by (simp add: completed_bus_def onWorkflowCompleted_def One_nat_def)
qed

definition trigger_over_http :: http_request where
  "trigger_over_http = http_of (TriggerReq ''w1'' ''manual'')"

text \<open>A request that is still open when the deadline of \<open>server.Shutdown\<close> passes is served on: after the
  triggers are stopped it creates a run and sends a dispatch.\<close>

lemma late_request_sends:
  assumes "rg_server rg = fleet_server" and "rg_sender rg = NATS_SendDispatch"
  shows "\<exists>p q. program_run first_fit parse rg (started rg nats) p \<and> pg_main p = StoppingDispatcher \<and> pg_triggers p = Ended
    \<and> ob_sent (sv_outbox (pg_server p)) = [] \<and> program_step first_fit parse rg p q
    \<and> map (di_ClientID \<circ> snd) (ob_sent (sv_outbox (pg_server q))) = [''c2'']"
proof -
  let ?step = "program_step first_fit parse rg"
  define p1 where "p1 = (started rg nats)\<lparr>pg_open := [trigger_over_http]\<rparr>"
  define p2 where "p2 = p1\<lparr>pg_main := ShuttingDown, pg_listening := False\<rparr>"
  define p3 where "p3 = p2\<lparr>pg_main := StoppingTriggers, pg_triggersCancelled := True, pg_inflight := {}\<rparr>"
  define p4 where "p4 = p3\<lparr>pg_triggers := Ended\<rparr>"
  define p5 where "p5 = p4\<lparr>pg_main := StoppingDispatcher\<rparr>"
  have "?step (started rg nats) p1"
    using program_step.accept [of "started rg nats" first_fit parse rg trigger_over_http] by (simp add: p1_def started_def)
  moreover have "?step p1 p2"
    by (rule program_step.main [of "{}"]) (simp add: main_next_def p2_def p1_def started_def)
  moreover have "?step p2 p3"
    by (rule program_step.main [of "{}"]) (simp add: main_next_def p3_def p2_def)
  moreover have "?step p3 p4"
    using program_step.loop_ends [of p3 first_fit parse rg] by (simp add: p4_def p3_def p2_def p1_def started_def)
  moreover have "?step p4 p5"
    by (rule program_step.main [of "{}"]) (simp add: main_next_def p5_def p4_def p3_def)
  ultimately have run: "program_run first_fit parse rg (started rg nats) p5"
    by (meson converse_rtranclp_into_rtranclp rtranclp.rtrancl_refl)
  have p5: "pg_server p5 = fleet_server" "pg_open p5 = [trigger_over_http]" "pg_triggers p5 = Ended" "pg_main p5 = StoppingDispatcher"
    by (simp_all add: p5_def p4_def p3_def p2_def p1_def started_def assms(1))
  obtain r S' where t: "chain_trigger sample_env NATS_SendDispatch 1 ''w1'' ''manual'' (0, fleet_server) = Some ((Some r, None), 1, S')"
    "map (di_ClientID \<circ> snd) (ob_sent (sv_outbox S')) = [''c2'']" using fleet_trigger_sends by (elim exE conjE) (rule that)
  have sendable: "sendable (TriggerReq ''w1'' ''manual'')" by (simp add: segment_ok_def)
  have "\<exists>resp. ServeHTTP first_fit sample_env sample_deps (chain_trigger sample_env NATS_SendDispatch 1) trigger_over_http fleet_server
      = Some (resp, S')"
    unfolding trigger_over_http_def http_of_serve [OF first_fit_documented sendable]
    using t(1) by (simp add: triggerWorkflow_def Api_TriggerWorkflow_def del: chain_trigger.simps)
  then obtain resp where "ServeHTTP first_fit sample_env sample_deps (chain_trigger sample_env (rg_sender rg) 1) trigger_over_http
      (with_cut nothing (pg_server p5)) = Some (resp, S')" by (auto simp: p5 assms(2))
  from program_step.handle [OF _ this, of "[]" "[]" parse]
  have "?step p5 (p5\<lparr>pg_server := uncut (pg_server p5) S', pg_open := []\<rparr>)" by (simp add: p5)
  moreover have "ob_sent (sv_outbox fleet_server) = []" by (simp add: fleet_server_def empty_server_def)
  ultimately show ?thesis
    using run p5 t(2) by (intro exI [of _ p5] exI [of _ "p5\<lparr>pg_server := uncut (pg_server p5) S', pg_open := []\<rparr>"]) simp
qed

section \<open>The super-client's log level and teardown\<close>

datatype slog_level = LevelDebug | LevelInfo | LevelWarn | LevelError

definition newLogger :: "string \<Rightarrow> slog_level" where
  "newLogger level = (if level = ''debug'' then LevelDebug else if level = ''warn'' then LevelWarn
     else if level = ''error'' then LevelError else LevelInfo)"

definition App_Shutdown :: "'r pool \<Rightarrow> go_error option \<times> 'r pool" where
  "App_Shutdown P = Shutdown P"

section \<open>Clocks\<close>

text \<open>\<open>SystemClock\<close> reads the time of the environment; \<open>MockClock\<close> is the clock of the tests.\<close>

record mock_clock =
  mc_current :: time
  mc_slept :: "duration list"

definition NewMockClock :: "time \<Rightarrow> mock_clock" where
  "NewMockClock start = \<lparr>mc_current = start, mc_slept = []\<rparr>"

definition Mock_Now :: "mock_clock \<Rightarrow> time" where
  "Mock_Now c = mc_current c"

definition Mock_Sleep :: "duration \<Rightarrow> mock_clock \<Rightarrow> mock_clock" where
  "Mock_Sleep d c = c\<lparr>mc_current := mc_current c + sint d, mc_slept := mc_slept c @ [d]\<rparr>"

definition Mock_Advance :: "duration \<Rightarrow> mock_clock \<Rightarrow> mock_clock" where
  "Mock_Advance d c = c\<lparr>mc_current := mc_current c + sint d\<rparr>"

definition SleptDurations :: "mock_clock \<Rightarrow> duration list" where
  "SleptDurations c = mc_slept c"

text \<open>The time is the start plus all that was slept and advanced, in any order; what was slept is
  remembered in order.\<close>

datatype clock_op = Sleep duration | Advance duration

fun run_clock_op :: "clock_op \<Rightarrow> mock_clock \<Rightarrow> mock_clock" where
  "run_clock_op (Sleep d) = Mock_Sleep d"
| "run_clock_op (Advance d) = Mock_Advance d"

fun op_duration :: "clock_op \<Rightarrow> int" where
  "op_duration (Sleep d) = sint d"
| "op_duration (Advance d) = sint d"

lemma mock_clock_runs:
  "Mock_Now (fold run_clock_op ops (NewMockClock start)) = start + sum_list (map op_duration ops)
    \<and> SleptDurations (fold run_clock_op ops (NewMockClock start)) = [d. Sleep d \<leftarrow> ops]"
proof -
  have "mc_current (fold run_clock_op ops c) = mc_current c + sum_list (map op_duration ops)
    \<and> mc_slept (fold run_clock_op ops c) = mc_slept c @ [d. Sleep d \<leftarrow> ops]" for c
  proof (induction ops arbitrary: c)
    case (Cons a ops)
    then show ?case by (cases a) (simp_all add: Mock_Sleep_def Mock_Advance_def)
  qed simp
  then show ?thesis by (simp add: Mock_Now_def SleptDurations_def NewMockClock_def)
qed

section \<open>What the in-memory dispatcher remembers\<close>

definition Dispatch_Snapshot :: "outbox \<Rightarrow> dispatch list" where
  "Dispatch_Snapshot ob = map snd (ob_sent ob)"

lemma Snapshot_after_batch:
  assumes "SendBatchDispatches (Channel_SendDispatch None) ds ob = (err, ob')"
  shows "err = None \<and> Dispatch_Snapshot ob' = Dispatch_Snapshot ob @ ds"
  using assms
  by (induction ds arbitrary: ob) (auto simp: Dispatch_Snapshot_def Channel_SendDispatch_def)

section \<open>Properties\<close>

text \<open>C4. The shutdown of the server program, from any state it can be in. The exit can be reached within the
  steps that \<open>main\<close> and the evaluation under way have left, whatever waits for whom, and writes nothing on
  the way; once the triggers are cancelled and their last operation is over nothing ever adds to those
  steps. The dispatcher is stopped and the context cancelled only after the loop of the triggers has
  ended, and from then on no run is created and no dispatch is sent but by a request that was already
  open, for \<open>server.Shutdown\<close> gives up on it at its deadline (with none open, by nobody). With the context
  cancelled, no operation under way and no request open, every result, tick and evaluation fails at its
  first access of the database: only registrations still write, and only the clients. After the exit
  nothing happens.\<close>

theorem program_shuts_down:
  assumes "program_run match parse rg (started rg nats) p"
  shows "(\<exists>q k. k \<le> steps_left p \<and> (program_step match parse rg ^^ k) p q \<and> pg_main q = Exited \<and> pg_server q = pg_server p)
    \<and> (pg_triggersCancelled p \<and> TriggerLoop \<notin> pg_inflight p
        \<longrightarrow> (\<forall>q. program_run match parse rg p q \<longrightarrow> steps_left q \<le> steps_left p))
    \<and> (pg_main p \<in> {StoppingDispatcher, Cancelling, Returning, Exited} \<longrightarrow> pg_triggers p = Ended \<and> \<not> pg_listening p)
    \<and> (pg_triggers p = Ended \<longrightarrow> (\<forall>q. program_run match parse rg p q \<longrightarrow>
        sv_outbox (pg_server q) = sv_outbox (pg_server p)
          \<and> map run_RunID (rd_runs (sv_runs (pg_server q))) = map run_RunID (rd_runs (sv_runs (pg_server p)))
        \<or> length (pg_open q) < length (pg_open p)))
    \<and> (pg_cancelled p \<and> pg_inflight p = {} \<and> pg_open p = [] \<longrightarrow> (\<forall>q. program_run match parse rg p q \<longrightarrow>
        pg_server q = (pg_server p)\<lparr>sv_clients := sv_clients (pg_server q)\<rparr>))
    \<and> (pg_main p = Exited \<longrightarrow> (\<forall>q. \<not> program_step match parse rg p q))"
proof -
  have ok: "phase_ok p" by (rule phase_run [OF assms phase_started])
  have "steps_left q \<le> steps_left p"
    if "pg_triggersCancelled p" "TriggerLoop \<notin> pg_inflight p" "program_run match parse rg p q" for q
    using stopping_run [OF that(3) ok] that(1,2) by (simp add: stopping_def)
  moreover have "made (pg_server q) = made (pg_server p) \<or> length (pg_open q) < length (pg_open p)"
    if "pg_triggers p = Ended" "program_run match parse rg p q" for q
    using quiet_run [OF that(2) ok that(1)] by blast
  moreover have "only_clients (pg_server p) (pg_server q)"
    if "pg_cancelled p" "pg_inflight p = {}" "pg_open p = []" "program_run match parse rg p q" for q
    using frozen_run [OF that(4) ok] that(1-3) by (simp add: idle_def)
  moreover have "\<not> program_step match parse rg p q" if "pg_main p = Exited" for q by (rule exited_no_step [OF ok that])
  moreover have "pg_triggers p = Ended \<and> \<not> pg_listening p" if "pg_main p \<in> {StoppingDispatcher, Cancelling, Returning, Exited}"
    using ok that by (auto simp: phase_ok_def)
  ultimately show ?thesis using can_exit [OF ok, of match parse rg] unfolding made_def only_clients_def by blast
qed

theorem program_shuts_down_witness:
  "\<exists>rg q k. server_main sample_env (\<lambda>_. []) (\<lambda>_. None) (\<lambda>_. None) (\<lambda>_. Inr empty_server) (\<lambda>_. Inl ErrStateConflict)
      (\<lambda>_. None) (\<lambda>_. None) = Inr rg
    \<and> k \<le> 7 \<and> (program_step first_fit (\<lambda>_. Inl ErrInvalidPolicy) rg ^^ k) (started rg False) q \<and> pg_main q = Exited"
proof -
  obtain rg where rg: "server_main sample_env (\<lambda>_. []) (\<lambda>_. None) (\<lambda>_. None) (\<lambda>_. Inr empty_server) (\<lambda>_. Inl ErrStateConflict)
      (\<lambda>_. None) (\<lambda>_. None) = Inr rg"
    by (simp add: server_main_def LoadConfig_defaults Let_def cong del: option.case_cong_weak sum.case_cong_weak)
  have "steps_left (started rg False) = 7" by (simp add: steps_left_def started_def)
  with program_shuts_down [OF rtranclp.rtrancl_refl, where match = first_fit and parse = "\<lambda>_. Inl ErrInvalidPolicy"
      and rg = rg and nats = False, THEN conjunct1] rg
  show ?thesis by auto
qed

end
