(* ===== verification/Queries.thy ===== *)
theory Queries
  imports Server_State "HOL-Library.Multiset"
begin

text \<open>
  What the list queries of the repositories promise (\<open>internal/adapters/repository\<close>), as a
  specification over the multiset of the rows: which rows an answer holds, how many, and in which
  order, with ties in any order. The definitions of the queries are in the theories of their tables.
\<close>

section \<open>The newest rows\<close>

text \<open>An answer of the newest \<open>n\<close> of the rows \<open>M\<close>, newest first: rows of \<open>M\<close>, as many as there are up to
  \<open>n\<close>, and no row left out is newer than one that is in.\<close>

definition newest :: "('a \<Rightarrow> int) \<Rightarrow> nat \<Rightarrow> 'a multiset \<Rightarrow> 'a list \<Rightarrow> bool" where
  "newest key n M out \<longleftrightarrow> mset out \<subseteq># M \<and> length out = min n (size M)
     \<and> sorted_wrt (\<lambda>a b. key b \<le> key a) out
     \<and> (\<forall>x \<in># M - mset out. \<forall>y \<in> set out. key x \<le> key y)"

text \<open>All the rows \<open>M\<close>, newest first.\<close>

definition newest_first :: "('a \<Rightarrow> int) \<Rightarrow> 'a multiset \<Rightarrow> 'a list \<Rightarrow> bool" where
  "newest_first key M out \<longleftrightarrow> mset out = M \<and> sorted_wrt (\<lambda>a b. key b \<le> key a) out"

definition answers_with :: "(go_error + 'a) \<Rightarrow> ('a \<Rightarrow> bool) \<Rightarrow> bool" where
  "answers_with answer spec \<longleftrightarrow> (case answer of Inl _ \<Rightarrow> False | Inr out \<Rightarrow> spec out)"

lemma answers_with_Inr [simp]: "answers_with (Inr out) spec = spec out"
  by (simp add: answers_with_def)

lemma mset_order_desc [simp]: "mset (order_desc key rows) = mset rows"
  by (simp add: order_desc_def)

lemma newest_take: "newest key n (mset rows) (take n (order_desc key rows))"
proof -
  define xs where "xs = order_desc key rows"
  have split: "mset rows = mset (take n xs) + mset (drop n xs)"
    by (metis append_take_drop_id mset_append mset_order_desc xs_def)
  have "sorted_wrt (\<lambda>a b. key b \<le> key a) (take n xs @ drop n xs)"
    using sorted_order_desc [of key rows] by (simp add: xs_def)
  then have "sorted_wrt (\<lambda>a b. key b \<le> key a) (take n xs)"
    "\<forall>y \<in> set (take n xs). \<forall>x \<in> set (drop n xs). key x \<le> key y"
    unfolding sorted_wrt_append by auto
  moreover have "length (take n xs) = min n (size (mset rows))"
    by (simp add: xs_def min.commute)
  ultimately show ?thesis
    by (simp add: newest_def split flip: xs_def)
qed

lemma newest_first_order: "newest_first key (mset rows) (order_desc key rows)"
  by (simp add: newest_first_def sorted_order_desc)

text \<open>\<open>newest\<close> fixes the keys of the answer: with distinct keys it is unique.\<close>

lemma newest_keys:
  assumes "newest key n (mset rows) out"
  shows "map key out = take n (map key (order_desc key rows))"
proof -
  have part: "mset out + (mset rows - mset out) = mset rows" using assms by (simp add: newest_def)
  obtain rest where rest: "mset rest = mset rows - mset out" by (metis ex_mset)
  define ys where "ys = out @ order_desc key rest"
  have ys: "mset ys = mset rows" using part rest by (simp add: ys_def)
  have "\<forall>y \<in> set out. \<forall>x \<in> set rest. key x \<le> key y"
    using assms rest unfolding newest_def by (metis set_mset_mset)
  then have "sorted_wrt (\<lambda>a b. key b \<le> key a) ys"
    using assms sorted_order_desc [of key rest] by (auto simp: ys_def sorted_wrt_append newest_def)
  then have "sorted (map (\<lambda>r. - key r) ys)" by (simp add: sorted_map)
  moreover have "sorted (map (\<lambda>r. - key r) (order_desc key rows))" by (simp add: order_desc_def)
  ultimately have "map (\<lambda>r. - key r) ys = map (\<lambda>r. - key r) (order_desc key rows)"
    using ys by (metis mset_map mset_order_desc properties_for_sort)
  then have "map uminus (map (\<lambda>r. - key r) ys) = map uminus (map (\<lambda>r. - key r) (order_desc key rows))" by (rule arg_cong)
  then have keys: "map key (order_desc key rows) = map key out @ map key (order_desc key rest)"
    by (simp add: comp_def ys_def)
  have len: "length out = min n (length rows)" using assms by (simp add: newest_def)
  have all: "length rows = length out + length rest"
    using arg_cong [OF keys, of length] by simp
  show ?thesis
  proof (cases "n \<le> length rows")
    case True
    with len have "n = length (map key out)" by simp
    then show ?thesis unfolding keys by simp
  next
    case False
    with len all have "rest = []" "length out \<le> n" by auto
    then show ?thesis unfolding keys by (simp add: order_desc_def)
  qed
qed

section \<open>The limits\<close>

definition limit_spec :: "nat \<Rightarrow> int64 \<Rightarrow> nat" where
  "limit_spec d limit = (if 0 < sint limit then nat (sint limit) else d)"

lemma limit_or_spec: "limit_or 100 limit = limit_spec 100 limit" "limit_or 50 limit = limit_spec 50 limit"
  by (simp_all add: limit_or_def limit_spec_def)

lemma concat_pages: "concat (map (\<lambda>i. take n (drop (i * n) xs)) [0..<m]) = take (m * n) xs"
proof (induction m)
  case (Suc m)
  have "take (m * n) xs @ take n (drop (m * n) xs) = take (m * n + n) xs" by (simp add: take_add)
  with Suc show ?case by (simp add: add.commute)
qed simp

lemma ListAllRuns_page:
  assumes "rd_faults db = no_faults" and "0 < n" and "int (k + n) \<le> max_int64"
  shows "ListAllRuns (word_of_nat n) (word_of_nat k) db
    = Inr (take n (drop k (order_desc run_TriggeredAt (rd_runs db))))"
proof -
  have "sint (word_of_nat j :: int64) = int j" if "int j \<le> max_int64" for j
    using sint_word_of_int64 [of "int j"] that by (simp add: min_int64_def)
  from this [of n] this [of k] assms(3) have "sint (word_of_nat n :: int64) = int n" "sint (word_of_nat k :: int64) = int k"
    by simp_all
  with assms(1,2) show ?thesis by (simp add: ListAllRuns_def limit_or_def)
qed

text \<open>A page: what follows the newest \<open>k\<close> rows among the newest \<open>k + n\<close>.\<close>

definition page_of :: "('a \<Rightarrow> int) \<Rightarrow> nat \<Rightarrow> nat \<Rightarrow> 'a multiset \<Rightarrow> 'a list \<Rightarrow> bool" where
  "page_of key k n M out \<longleftrightarrow> (\<exists>before. newest key k M before \<and> newest key (k + n) M (before @ out))"

lemma page_of_drop: "page_of key k n (mset rows) (take n (drop k (order_desc key rows)))"
  unfolding page_of_def
  using newest_take [of key k rows] newest_take [of key "k + n" rows]
  by (intro exI [of _ "take k (order_desc key rows)"]) (simp add: take_add)

text \<open>The repositories one by one.\<close>

lemma all_pages:
  assumes "rd_faults db = no_faults" and "0 < n" and "int (m * n) \<le> max_int64"
  shows "\<exists>pages. map (\<lambda>i. ListAllRuns (word_of_nat n) (word_of_nat (i * n)) db) [0..<m] = map Inr pages
    \<and> newest run_TriggeredAt (m * n) (mset (rd_runs db)) (concat pages)"
proof -
  define xs where "xs = order_desc run_TriggeredAt (rd_runs db)"
  have "ListAllRuns (word_of_nat n) (word_of_nat (i * n)) db = Inr (take n (drop (i * n) xs))" if "i < m" for i
  proof -
    have "(i + 1) * n \<le> m * n" using that by (intro mult_right_mono) simp_all
    then have "int (i * n + n) \<le> int (m * n)" by (simp only: of_nat_le_iff) simp
    with assms(3) have "int (i * n + n) \<le> max_int64" by (rule order_trans [rotated])
    then show ?thesis unfolding xs_def by (rule ListAllRuns_page [OF assms(1,2)])
  qed
  then have "map (\<lambda>i. ListAllRuns (word_of_nat n) (word_of_nat (i * n)) db) [0..<m]
      = map Inr (map (\<lambda>i. take n (drop (i * n) xs)) [0..<m])" by simp
  moreover have "newest run_TriggeredAt (m * n) (mset (rd_runs db)) (concat (map (\<lambda>i. take n (drop (i * n) xs)) [0..<m]))"
    unfolding concat_pages xs_def by (rule newest_take)
  ultimately show ?thesis by blast
qed

lemma filtered_newest:
  "newest key n {#r \<in># mset rows. P r#} (take n (order_desc key (filter P rows)))"
  "newest_first key {#r \<in># mset rows. P r#} (order_desc key (filter P rows))"
  using newest_take [of key n "filter P rows"] newest_first_order [of key "filter P rows"] by simp_all

lemma run_lists:
  assumes "rd_faults db = no_faults"
  shows "answers_with (ListRuns w limit db)
      (newest run_TriggeredAt (limit_spec 100 limit) {#r \<in># mset (rd_runs db). run_WorkflowID r = w#})"
    and "answers_with (ListRunsByWorkflowType t limit db)
      (newest run_TriggeredAt (limit_spec 100 limit) {#r \<in># mset (rd_runs db). run_WorkflowType r = t#})"
    and "answers_with (ListAllRuns limit offset db)
      (page_of run_TriggeredAt (nat (sint offset)) (limit_spec 50 limit) (mset (rd_runs db)))"
proof -
  have "(if sint offset < 0 then 0 else nat (sint offset)) = nat (sint offset)" by simp
  then show "answers_with (ListAllRuns limit offset db)
      (page_of run_TriggeredAt (nat (sint offset)) (limit_spec 50 limit) (mset (rd_runs db)))"
    using assms page_of_drop [of run_TriggeredAt "nat (sint offset)" "limit_spec 50 limit" "rd_runs db"]
    by (simp only: ListAllRuns_def no_faults_def option.case limit_or_spec Let_def answers_with_Inr)
qed (use assms in \<open>simp_all add: ListRuns_def ListRunsByWorkflowType_def limit_or_spec filtered_newest\<close>)

lemma previous_run:
  assumes "rd_faults db = no_faults"
    and "M = {#r \<in># mset (rd_runs db). (run_RunID r, c) \<in> set (rd_clients db)
      \<and> run_WorkflowType r = t \<and> run_RunID r \<noteq> k \<and> run_TriggeredAt r \<le> before#}"
  shows "case GetPreviousRun c t k before db of Inl e \<Rightarrow> e = ErrRunNotFound \<and> M = {#}
    | Inr r \<Rightarrow> newest run_TriggeredAt 1 M [r]"
proof -
  define rows where "rows = filter (earlier_run c t k before db) (rd_runs db)"
  have M: "M = mset rows" by (simp add: assms(2) rows_def earlier_run_def)
  show ?thesis
  proof (cases "order_desc run_TriggeredAt rows")
    case Nil
    then have "mset rows = {#}" by (metis mset_order_desc mset_zero_iff)
    with Nil assms(1) show ?thesis by (simp add: GetPreviousRun_def M flip: rows_def)
  next
    case (Cons r rs)
    with newest_take [of run_TriggeredAt 1 rows] assms(1) show ?thesis
      by (simp add: GetPreviousRun_def M flip: rows_def)
  qed
qed

lemma result_lists:
  assumes "sd_faults db = no_faults"
  shows "answers_with (GetRunResults k db)
      (\<lambda>out. mset out = image_mset rr_result {#x \<in># mset (sd_rows db). res_RunID (rr_result x) = k#})"
    and "answers_with (ListClientResults c t limit db) (newest res_ReceivedAt (limit_spec 100 limit)
      (image_mset rr_result {#x \<in># mset (sd_rows db). res_ClientID (rr_result x) = c \<and> rr_WorkflowType x = t#}))"
proof -
  show "answers_with (ListClientResults c t limit db) (newest res_ReceivedAt (limit_spec 100 limit)
      (image_mset rr_result {#x \<in># mset (sd_rows db). res_ClientID (rr_result x) = c \<and> rr_WorkflowType x = t#}))"
    using newest_take [of res_ReceivedAt "limit_spec 100 limit" "map rr_result
      (filter (\<lambda>x. res_ClientID (rr_result x) = c \<and> rr_WorkflowType x = t) (sd_rows db))"] assms
    by (simp add: ListClientResults_def limit_or_spec)
qed (use assms in \<open>simp add: GetRunResults_def\<close>)

lemma row_active_spec:
  "row_active now b \<longleftrightarrow> ban_Active b \<and> (\<forall>until. ban_BannedUntil b = Some until \<longrightarrow> now < until)"
  by (simp add: row_active_def split: option.split)

lemma ban_lists:
  assumes "bd_faults db = no_faults"
  shows "answers_with (GetBans c db) (newest_first ban_BannedAt {#b \<in># mset (bd_rows db). ban_ClientID b = c#})"
    and "answers_with (ListAllBans db) (newest_first ban_BannedAt (mset (bd_rows db)))"
    and "answers_with (GetActiveBans E c db) (\<lambda>out. mset out = {#b \<in># mset (bd_rows db). ban_ClientID b = c
        \<and> ban_Active b \<and> (\<forall>until. ban_BannedUntil b = Some until \<longrightarrow> env_now E < until)#})"
    and "answers_with (GetActiveBansByWorkflowType E t db) (\<lambda>out. mset out = {#b \<in># mset (bd_rows db).
        ban_WorkflowType b = t \<and> ban_Active b \<and> (\<forall>until. ban_BannedUntil b = Some until \<longrightarrow> env_now E < until)#})"
  using assms
  by (simp_all add: GetBans_def ListAllBans_def GetActiveBans_def GetActiveBansByWorkflowType_def filtered_newest
      newest_first_order row_active_spec)

lemma workflow_lists:
  assumes "wd_faults db = no_faults"
  shows "answers_with (ListAllWorkflows db) (newest_first wf_CreatedAt (mset (wd_rows db)))"
    and "answers_with (ListActiveWorkflows db) (newest_first wf_CreatedAt {#v \<in># mset (wd_rows db). wf_Active v#})"
    and "answers_with (ListWorkflowsByType t db) (\<lambda>out. mset out = {#v \<in># mset (wd_rows db). wf_WorkflowType v = t#})"
  using assms
  by (simp_all add: ListAllWorkflows_def ListActiveWorkflows_def ListWorkflowsByType_def newest_first_order
      filtered_newest)

lemma health_lists:
  assumes "hd_faults db = no_faults"
  shows "answers_with (ListRunHealths t limit db) (\<lambda>out. newest rh_CalculatedAt (limit_spec 100 limit)
        {#h \<in># mset (hd_runs db). rh_WorkflowType h = t#} (rev out))"
    and "answers_with (ListAllWorkflowTypeHealths db) (\<lambda>out. mset out = mset (hd_types db)
        \<and> sorted (map th_WorkflowType out))"
  using assms by (simp_all add: ListRunHealths_def ListAllWorkflowTypeHealths_def limit_or_spec filtered_newest)

lemma client_lists:
  assumes "cd_faults db = no_faults"
  shows "answers_with (ListClients db) (\<lambda>out. mset out = mset (cd_rows db))"
    and "answers_with (GetClientsByIDs ids db) (\<lambda>out. mset out = {#d \<in># mset (cd_rows db). cm_ClientID d \<in> set ids#})"
  using assms by (simp_all add: ListClients_def GetClientsByIDs_def)

lemma breaker_list:
  "xd_faults db = no_faults \<Longrightarrow> answers_with (Repo_ListCircuitStates db) (\<lambda>out. mset out = mset (xd_rows db))"
  by (simp add: Repo_ListCircuitStates_def)

section \<open>Properties\<close>

text \<open>C23. What every list query of the repositories answers, when the database does: the runs of a workflow,
  of a type or of all workflows, and the results of a client for a type, are the newest ones up to the
  limit (100, or 50 for all runs, when none is given), newest first; consecutive pages of all runs put
  together are the newest runs, none skipped or repeated; the run before another is the newest one of
  its client and type that is not later, and there is none only if there is none; the results of a run,
  the bans in force of a client or of a type, the workflows of a type, the clients with given
  identifiers and the breakers are exactly the rows that qualify; all bans, the bans of a client, all
  workflows and the active ones come newest first; the health of the runs of a type is that of the
  newest, oldest first; and the health of all types is in the order of the types.\<close>

theorem queries_answer_their_rows:
  assumes "healthy_server S" and "runs = mset (rd_runs (sv_runs S))" and "bans = mset (bd_rows (en_bans (sv_enf S)))"
    and "workflows = mset (wd_rows (sv_workflows S))" and "stored = mset (sd_rows (sv_results S))"
  shows "answers_with (ListRuns w limit (sv_runs S))
      (newest run_TriggeredAt (limit_spec 100 limit) {#r \<in># runs. run_WorkflowID r = w#})
    \<and> answers_with (ListRunsByWorkflowType t limit (sv_runs S))
      (newest run_TriggeredAt (limit_spec 100 limit) {#r \<in># runs. run_WorkflowType r = t#})
    \<and> answers_with (ListAllRuns limit offset (sv_runs S))
      (page_of run_TriggeredAt (nat (sint offset)) (limit_spec 50 limit) runs)
    \<and> (0 < n \<and> int (m * n) \<le> max_int64 \<longrightarrow> (\<exists>pages.
        map (\<lambda>i. ListAllRuns (word_of_nat n) (word_of_nat (i * n)) (sv_runs S)) [0..<m] = map Inr pages
        \<and> newest run_TriggeredAt (m * n) runs (concat pages)))
    \<and> (case GetPreviousRun c t k before (sv_runs S) of
        Inl e \<Rightarrow> e = ErrRunNotFound \<and> {#r \<in># runs. (run_RunID r, c) \<in> set (rd_clients (sv_runs S))
          \<and> run_WorkflowType r = t \<and> run_RunID r \<noteq> k \<and> run_TriggeredAt r \<le> before#} = {#}
      | Inr r \<Rightarrow> newest run_TriggeredAt 1 {#r \<in># runs. (run_RunID r, c) \<in> set (rd_clients (sv_runs S))
          \<and> run_WorkflowType r = t \<and> run_RunID r \<noteq> k \<and> run_TriggeredAt r \<le> before#} [r])
    \<and> answers_with (GetRunResults k (sv_results S))
      (\<lambda>out. mset out = image_mset rr_result {#x \<in># stored. res_RunID (rr_result x) = k#})
    \<and> answers_with (ListClientResults c t limit (sv_results S))
      (newest res_ReceivedAt (limit_spec 100 limit)
        (image_mset rr_result {#x \<in># stored. res_ClientID (rr_result x) = c \<and> rr_WorkflowType x = t#}))
    \<and> answers_with (GetBans c (en_bans (sv_enf S))) (newest_first ban_BannedAt {#b \<in># bans. ban_ClientID b = c#})
    \<and> answers_with (ListAllBans (en_bans (sv_enf S))) (newest_first ban_BannedAt bans)
    \<and> answers_with (GetActiveBans E c (en_bans (sv_enf S))) (\<lambda>out. mset out = {#b \<in># bans. ban_ClientID b = c
        \<and> ban_Active b \<and> (\<forall>until. ban_BannedUntil b = Some until \<longrightarrow> env_now E < until)#})
    \<and> answers_with (GetActiveBansByWorkflowType E t (en_bans (sv_enf S))) (\<lambda>out. mset out = {#b \<in># bans.
        ban_WorkflowType b = t \<and> ban_Active b \<and> (\<forall>until. ban_BannedUntil b = Some until \<longrightarrow> env_now E < until)#})
    \<and> answers_with (ListAllWorkflows (sv_workflows S)) (newest_first wf_CreatedAt workflows)
    \<and> answers_with (ListActiveWorkflows (sv_workflows S)) (newest_first wf_CreatedAt {#v \<in># workflows. wf_Active v#})
    \<and> answers_with (ListWorkflowsByType t (sv_workflows S)) (\<lambda>out. mset out = {#v \<in># workflows. wf_WorkflowType v = t#})
    \<and> answers_with (ListRunHealths t limit (sv_health S)) (\<lambda>out. newest rh_CalculatedAt (limit_spec 100 limit)
        {#h \<in># mset (hd_runs (sv_health S)). rh_WorkflowType h = t#} (rev out))
    \<and> answers_with (ListAllWorkflowTypeHealths (sv_health S)) (\<lambda>out. mset out = mset (hd_types (sv_health S))
        \<and> sorted (map th_WorkflowType out))
    \<and> answers_with (ListClients (sv_clients S)) (\<lambda>out. mset out = mset (cd_rows (sv_clients S)))
    \<and> answers_with (GetClientsByIDs ids (sv_clients S)) (\<lambda>out. mset out =
        {#d \<in># mset (cd_rows (sv_clients S)). cm_ClientID d \<in> set ids#})
    \<and> answers_with (Repo_ListCircuitStates (sv_circuits S)) (\<lambda>out. mset out = mset (xd_rows (sv_circuits S)))"
proof -
  have ok: "rd_faults (sv_runs S) = no_faults" "bd_faults (en_bans (sv_enf S)) = no_faults"
    "wd_faults (sv_workflows S) = no_faults" "sd_faults (sv_results S) = no_faults" "hd_faults (sv_health S) = no_faults"
    "cd_faults (sv_clients S) = no_faults" "xd_faults (sv_circuits S) = no_faults"
    using assms(1) by (simp_all add: healthy_server_def)
  note answers = run_lists [OF ok(1)] previous_run [OF ok(1) refl] ban_lists [OF ok(2)] workflow_lists [OF ok(3)]
    result_lists [OF ok(4)] health_lists [OF ok(5)] client_lists [OF ok(6)] breaker_list [OF ok(7)]
  show ?thesis
    unfolding assms(2-5) by (intro conjI impI; (rule answers | elim conjE, rule all_pages [OF ok(1)], assumption, assumption))
qed

text \<open>A server with three runs, read newest first, in pages of two.\<close>

definition three_runs :: server where
  "three_runs = empty_server\<lparr>sv_runs := \<lparr>rd_runs = [sample_run, sample_run\<lparr>run_RunID := ''r2'', run_TriggeredAt := 3000\<rparr>,
     sample_run\<lparr>run_RunID := ''r3'', run_TriggeredAt := 2000\<rparr>], rd_clients = [], rd_faults = no_faults\<rparr>\<rparr>"

theorem queries_answer_their_rows_witness:
  "\<exists>pages. map (\<lambda>i. ListAllRuns (word_of_nat 2) (word_of_nat (i * 2)) (sv_runs three_runs)) [0..<2]
      = map Inr pages
    \<and> newest run_TriggeredAt 4 (mset (rd_runs (sv_runs three_runs))) (concat pages)"
proof -
  have "healthy_server three_runs" using empty_server_ok(1) by (simp add: three_runs_def healthy_server_def)
  from queries_answer_their_rows [OF this refl refl refl refl, where n = 2 and m = 2] show ?thesis
    by (simp add: max_int64_def)
qed

end
