(* ===== verification/Stores.thy ===== *)
theory Stores
  imports Server_State "HOL-Library.Multiset"
begin

text \<open>
  The repositories as stores (\<open>internal/adapters/repository\<close>): every write of every repository, over all
  the tables of the database at once, against maps, a relation and a multiset that a reader sees through
  the \<open>Get\<close> operations. The abstraction \<open>contents\<close> forgets the rows and their order.
\<close>

section \<open>Writes\<close>

datatype repo_write =
    WriteWorkflow workflow
  | WriteWorkflowState string bool string
  | RemoveWorkflow string
  | WriteClient client_metadata
  | WriteNewRun run
  | WriteRun run
  | WriteResult result
  | WriteResultWithType result string
  | WriteRunHealth run_health
  | WriteTypeHealth type_health
  | WriteBreaker breaker
  | WriteBan ban_record
  | LiftBans string string

definition error_of :: "(go_error + 'a) \<Rightarrow> go_error option" where
  "error_of res = (case res of Inl e \<Rightarrow> Some e | Inr _ \<Rightarrow> None)"

lemma error_of_simps [simp]: "error_of (Inl e) = Some e" "error_of (Inr x) = None"
  by (simp_all add: error_of_def)

text \<open>A write by the operation of the source, with the error it answers.\<close>

fun write_to :: "env \<Rightarrow> repo_write \<Rightarrow> server \<Rightarrow> go_error option \<times> server" where
  "write_to E (WriteWorkflow w) S = (case SaveWorkflow E w (sv_workflows S) of
     (res, _, db) \<Rightarrow> (error_of res, S\<lparr>sv_workflows := db\<rparr>))"
| "write_to E (WriteWorkflowState k active reason) S = (case UpdateWorkflowState E k active reason (sv_workflows S) of
     (res, db) \<Rightarrow> (error_of res, S\<lparr>sv_workflows := db\<rparr>))"
| "write_to E (RemoveWorkflow k) S = (case DeleteWorkflow k (sv_workflows S) of
     (res, db) \<Rightarrow> (error_of res, S\<lparr>sv_workflows := db\<rparr>))"
| "write_to E (WriteClient c) S = (case SaveClient E c (sv_clients S) of
     (res, db) \<Rightarrow> (error_of res, S\<lparr>sv_clients := db\<rparr>))"
| "write_to E (WriteNewRun r) S = (case CreateRun r (sv_runs S) of
     (res, db) \<Rightarrow> (error_of res, S\<lparr>sv_runs := db\<rparr>))"
| "write_to E (WriteRun r) S = (case UpdateRun r (sv_runs S) of
     (res, db) \<Rightarrow> (error_of res, S\<lparr>sv_runs := db\<rparr>))"
| "write_to E (WriteResult r) S = (case SaveResult r (sv_results S) of
     (res, db) \<Rightarrow> (error_of res, S\<lparr>sv_results := db\<rparr>))"
| "write_to E (WriteResultWithType r t) S = (case SaveResultWithType r t (sv_results S) of
     (res, db) \<Rightarrow> (error_of res, S\<lparr>sv_results := db\<rparr>))"
| "write_to E (WriteRunHealth h) S = (case SaveRunHealth E h (sv_health S) of
     (res, db) \<Rightarrow> (error_of res, S\<lparr>sv_health := db\<rparr>))"
| "write_to E (WriteTypeHealth h) S = (case SaveWorkflowTypeHealth E h (sv_health S) of
     (res, db) \<Rightarrow> (error_of res, S\<lparr>sv_health := db\<rparr>))"
| "write_to E (WriteBreaker b) S = (case SaveCircuitState E b (sv_circuits S) of
     (res, db) \<Rightarrow> (error_of res, S\<lparr>sv_circuits := db\<rparr>))"
| "write_to E (WriteBan b) S = (case SaveBan E b (en_bans (sv_enf S)) of
     (res, db) \<Rightarrow> (error_of res, S\<lparr>sv_enf := (sv_enf S)\<lparr>en_bans := db\<rparr>\<rparr>))"
| "write_to E (LiftBans c t) S = (case Repo_UnbanClient c t (en_bans (sv_enf S)) of
     (res, db) \<Rightarrow> (error_of res, S\<lparr>sv_enf := (sv_enf S)\<lparr>en_bans := db\<rparr>\<rparr>))"

section \<open>What the stores promise\<close>

record contents =
  co_workflows :: "string \<rightharpoonup> workflow"
  co_clients :: "string \<rightharpoonup> client_metadata"
  co_runs :: "string \<rightharpoonup> run"
  co_participants :: "(string \<times> string) set"
  co_results :: "string \<times> string \<rightharpoonup> result"
  co_run_health :: "string \<rightharpoonup> run_health"
  co_type_health :: "string \<rightharpoonup> type_health"
  co_breakers :: "string \<rightharpoonup> breaker"
  co_bans :: "ban_record multiset"

definition found :: "(go_error + 'a) \<Rightarrow> 'a option" where
  "found res = (case res of Inl _ \<Rightarrow> None | Inr x \<Rightarrow> Some x)"

text \<open>A ban is seen without the number the table gave its row.\<close>

definition contents_of :: "server \<Rightarrow> contents" where
  "contents_of S = \<lparr>co_workflows = (\<lambda>k. found (GetWorkflow k (sv_workflows S))),
     co_clients = (\<lambda>k. found (GetClientByID k (sv_clients S))),
     co_runs = (\<lambda>k. found (GetRun k (sv_runs S))), co_participants = set (rd_clients (sv_runs S)),
     co_results = (\<lambda>(k, c). found (GetResult k c (sv_results S))),
     co_run_health = (\<lambda>k. found (GetRunHealth k (sv_health S))),
     co_type_health = (\<lambda>t. found (GetWorkflowTypeHealth t (sv_health S))),
     co_breakers = (\<lambda>k. found (Repo_GetCircuitState k (sv_circuits S))),
     co_bans = image_mset (\<lambda>b. b\<lparr>ban_ID := 0\<rparr>) (mset (bd_rows (en_bans (sv_enf S))))\<rparr>"

text \<open>A time that is zero is replaced by the clock; a workflow keeps its creation time, a client, a result
  and a workflow come back with their maps as JSON has them, and the first result of a client stays.\<close>

definition now_if_zero :: "env \<Rightarrow> time \<Rightarrow> time" where
  "now_if_zero E t = (if t = 0 then env_now E else t)"

definition lifted :: "string \<Rightarrow> string \<Rightarrow> ban_record \<Rightarrow> ban_record" where
  "lifted c t b = (if ban_ClientID b = c \<and> ban_WorkflowType b = t then b\<lparr>ban_Active := False\<rparr> else b)"

definition first_result :: "result \<Rightarrow> contents \<Rightarrow> contents" where
  "first_result r C = (if co_results C (res_RunID r, res_ClientID r) \<noteq> None then C
     else C\<lparr>co_results := (co_results C)((res_RunID r, res_ClientID r) \<mapsto> stored_result r)\<rparr>)"

fun spec_write :: "env \<Rightarrow> repo_write \<Rightarrow> contents \<Rightarrow> go_error option \<times> contents" where
  "spec_write E (WriteWorkflow w) C =
     (None, C\<lparr>co_workflows := (co_workflows C)(wf_ID w \<mapsto> saved_workflow E w (co_workflows C (wf_ID w)))\<rparr>)"
| "spec_write E (WriteWorkflowState k active reason) C = (case co_workflows C k of
     None \<Rightarrow> (Some ErrWorkflowNotFound, C)
   | Some w \<Rightarrow> (None, C\<lparr>co_workflows := (co_workflows C)(k \<mapsto> w\<lparr>wf_Active := active, wf_DeactivatedReason := reason,
       wf_UpdatedAt := env_now E\<rparr>)\<rparr>))"
| "spec_write E (RemoveWorkflow k) C = (case co_workflows C k of
     None \<Rightarrow> (Some ErrWorkflowNotFound, C)
   | Some w \<Rightarrow> (None, C\<lparr>co_workflows := (co_workflows C)(k := None)\<rparr>))"
| "spec_write E (WriteClient c) C = (None, C\<lparr>co_clients := (co_clients C)(cm_ClientID c \<mapsto>
     c\<lparr>cm_InnerState := json_column (cm_InnerState c), cm_LastSeenAt := now_if_zero E (cm_LastSeenAt c)\<rparr>)\<rparr>)"
| "spec_write E (WriteNewRun r) C =
     (if co_runs C (run_RunID r) \<noteq> None then (Some (unique_violation ''runs.run_id''), C)
      else if \<not> distinct (run_ParticipatingClients r)
        then (Some (unique_violation ''runs_clients.run_id, runs_clients.client_id''), C)
      else (None, C\<lparr>co_runs := (co_runs C)(run_RunID r \<mapsto> r),
        co_participants := co_participants C \<union> {run_RunID r} \<times> set (run_ParticipatingClients r)\<rparr>))"
| "spec_write E (WriteRun r) C =
     (if co_runs C (run_RunID r) = None then (Some ErrRunNotFound, C)
      else (None, C\<lparr>co_runs := (co_runs C)(run_RunID r \<mapsto> r)\<rparr>))"
| "spec_write E (WriteResult r) C = (None, first_result r C)"
| "spec_write E (WriteResultWithType r t) C = (None, first_result r C)"
| "spec_write E (WriteRunHealth h) C = (None, C\<lparr>co_run_health := (co_run_health C)(rh_RunID h \<mapsto>
     h\<lparr>rh_CalculatedAt := now_if_zero E (rh_CalculatedAt h)\<rparr>)\<rparr>)"
| "spec_write E (WriteTypeHealth h) C = (None, C\<lparr>co_type_health := (co_type_health C)(th_WorkflowType h \<mapsto>
     h\<lparr>th_CalculatedAt := now_if_zero E (th_CalculatedAt h)\<rparr>)\<rparr>)"
| "spec_write E (WriteBreaker b) C = (None, C\<lparr>co_breakers := (co_breakers C)(cb_WorkflowID b \<mapsto>
     b\<lparr>cb_LastEvaluatedAt := now_if_zero E (cb_LastEvaluatedAt b)\<rparr>)\<rparr>)"
| "spec_write E (WriteBan b) C =
     (None, C\<lparr>co_bans := add_mset (b\<lparr>ban_ID := 0, ban_BannedAt := now_if_zero E (ban_BannedAt b)\<rparr>) (co_bans C)\<rparr>)"
| "spec_write E (LiftBans c t) C =
     (if \<exists>b \<in># co_bans C. ban_ClientID b = c \<and> ban_WorkflowType b = t \<and> ban_Active b
      then (None, C\<lparr>co_bans := image_mset (lifted c t) (co_bans C)\<rparr>) else (Some ErrBanNotFound, C))"

section \<open>Each write does what it promises\<close>

text \<open>Reading in a healthy database is looking a row up.\<close>

lemma found_simps [simp]: "found (Inl e) = None" "found (Inr x) = Some x"
  by (simp_all add: found_def)

lemma found_lookups:
  "wd_faults wdb = no_faults \<Longrightarrow> found (GetWorkflow k wdb) = workflow_map wdb k"
  "cd_faults cdb = no_faults \<Longrightarrow> found (GetClientByID k cdb) = lookup_row cm_ClientID k (cd_rows cdb)"
  "rd_faults rdb = no_faults \<Longrightarrow> found (GetRun k rdb) = lookup_row run_RunID k (rd_runs rdb)"
  "sd_faults sdb = no_faults \<Longrightarrow> found (GetResult k c sdb) = map_option rr_result (lookup_row result_key (k, c) (sd_rows sdb))"
  "hd_faults hdb = no_faults \<Longrightarrow> found (GetRunHealth k hdb) = lookup_row rh_RunID k (hd_runs hdb)"
  "hd_faults hdb = no_faults \<Longrightarrow> found (GetWorkflowTypeHealth k hdb) = lookup_row th_WorkflowType k (hd_types hdb)"
  "xd_faults xdb = no_faults \<Longrightarrow> found (Repo_GetCircuitState k xdb) = lookup_row cb_WorkflowID k (xd_rows xdb)"
  by (simp_all add: GetWorkflow_def workflow_map_def GetClientByID_def GetRun_def GetResult_def GetRunHealth_def
      GetWorkflowTypeHealth_def Repo_GetCircuitState_def split: option.split)

lemma now_if_zero_client: "client_row E c = c\<lparr>cm_InnerState := json_column (cm_InnerState c),
    cm_LastSeenAt := now_if_zero E (cm_LastSeenAt c)\<rparr>"
  by (simp add: client_row_def now_if_zero_def IsZero_def)

lemma now_if_zero_breaker: "stamped E b = b\<lparr>cb_LastEvaluatedAt := now_if_zero E (cb_LastEvaluatedAt b)\<rparr>"
  by (cases b) (simp add: stamped_def now_if_zero_def IsZero_def)

lemma SaveRunHealth_map:
  assumes "hd_faults db = no_faults"
  shows "fst (SaveRunHealth E h db) = Inr ()
    \<and> lookup_row rh_RunID k (hd_runs (snd (SaveRunHealth E h db))) = (if k = rh_RunID h
        then Some (h\<lparr>rh_CalculatedAt := now_if_zero E (rh_CalculatedAt h)\<rparr>) else lookup_row rh_RunID k (hd_runs db))
    \<and> hd_types (snd (SaveRunHealth E h db)) = hd_types db"
proof -
  define v where "v = h\<lparr>rh_CalculatedAt := now_if_zero E (rh_CalculatedAt h)\<rparr>"
  have v: "(if IsZero (rh_CalculatedAt h) then h\<lparr>rh_CalculatedAt := env_now E\<rparr> else h) = v"
    by (cases h) (simp add: v_def now_if_zero_def IsZero_def)
  have "v\<lparr>rh_RunID := rh_RunID r\<rparr> = v" if "rh_RunID r = rh_RunID v" for r using that by (cases v) simp
  then have "lookup_row rh_RunID k (upsert rh_RunID (\<lambda>old. v\<lparr>rh_RunID := rh_RunID old\<rparr>) v (hd_runs db))
      = (if k = rh_RunID v then Some v else lookup_row rh_RunID k (hd_runs db))"
    by (rule lookup_row_upsert_replace)
  then show ?thesis
    using assms by (simp add: SaveRunHealth_def v flip: v_def) (simp add: v_def)
qed

lemma SaveWorkflowTypeHealth_map:
  assumes "hd_faults db = no_faults"
  shows "fst (SaveWorkflowTypeHealth E h db) = Inr ()
    \<and> lookup_row th_WorkflowType k (hd_types (snd (SaveWorkflowTypeHealth E h db))) = (if k = th_WorkflowType h
        then Some (h\<lparr>th_CalculatedAt := now_if_zero E (th_CalculatedAt h)\<rparr>) else lookup_row th_WorkflowType k (hd_types db))
    \<and> hd_runs (snd (SaveWorkflowTypeHealth E h db)) = hd_runs db"
proof -
  define v where "v = h\<lparr>th_CalculatedAt := now_if_zero E (th_CalculatedAt h)\<rparr>"
  have v: "(if IsZero (th_CalculatedAt h) then h\<lparr>th_CalculatedAt := env_now E\<rparr> else h) = v"
    by (cases h) (simp add: v_def now_if_zero_def IsZero_def)
  have "v\<lparr>th_WorkflowType := th_WorkflowType r\<rparr> = v" if "th_WorkflowType r = th_WorkflowType v" for r
    using that by (cases v) simp
  then have "lookup_row th_WorkflowType k (upsert th_WorkflowType (\<lambda>old. v\<lparr>th_WorkflowType := th_WorkflowType old\<rparr>) v (hd_types db))
      = (if k = th_WorkflowType v then Some v else lookup_row th_WorkflowType k (hd_types db))"
    by (rule lookup_row_upsert_replace)
  then show ?thesis
    using assms by (simp add: SaveWorkflowTypeHealth_def v flip: v_def) (simp add: v_def)
qed

text \<open>What a change of one table changes in the contents.\<close>

lemma contents_updates:
  "wd_faults wdb = no_faults \<Longrightarrow> contents_of (S\<lparr>sv_workflows := wdb\<rparr>) = (contents_of S)\<lparr>co_workflows := workflow_map wdb\<rparr>"
  "cd_faults cdb = no_faults \<Longrightarrow> contents_of (S\<lparr>sv_clients := cdb\<rparr>)
     = (contents_of S)\<lparr>co_clients := (\<lambda>k. lookup_row cm_ClientID k (cd_rows cdb))\<rparr>"
  "rd_faults rdb = no_faults \<Longrightarrow> contents_of (S\<lparr>sv_runs := rdb\<rparr>)
     = (contents_of S)\<lparr>co_runs := (\<lambda>k. lookup_row run_RunID k (rd_runs rdb)), co_participants := set (rd_clients rdb)\<rparr>"
  "sd_faults sdb = no_faults \<Longrightarrow> contents_of (S\<lparr>sv_results := sdb\<rparr>)
     = (contents_of S)\<lparr>co_results := (\<lambda>k. map_option rr_result (lookup_row result_key k (sd_rows sdb)))\<rparr>"
  "hd_faults hdb = no_faults \<Longrightarrow> contents_of (S\<lparr>sv_health := hdb\<rparr>)
     = (contents_of S)\<lparr>co_run_health := (\<lambda>k. lookup_row rh_RunID k (hd_runs hdb)),
         co_type_health := (\<lambda>k. lookup_row th_WorkflowType k (hd_types hdb))\<rparr>"
  "xd_faults xdb = no_faults \<Longrightarrow> contents_of (S\<lparr>sv_circuits := xdb\<rparr>)
     = (contents_of S)\<lparr>co_breakers := (\<lambda>k. lookup_row cb_WorkflowID k (xd_rows xdb))\<rparr>"
  "contents_of (S\<lparr>sv_enf := (sv_enf S)\<lparr>en_bans := bdb\<rparr>\<rparr>)
     = (contents_of S)\<lparr>co_bans := image_mset (\<lambda>b. b\<lparr>ban_ID := 0\<rparr>) (mset (bd_rows bdb))\<rparr>"
  by (simp_all add: contents_of_def found_lookups fun_eq_iff)

text \<open>What is read of the table that changes.\<close>

lemma contents_fields:
  "co_bans (contents_of S) = image_mset (\<lambda>b. b\<lparr>ban_ID := 0\<rparr>) (mset (bd_rows (en_bans (sv_enf S))))"
  "co_participants (contents_of S) = set (rd_clients (sv_runs S))"
  "wd_faults (sv_workflows S) = no_faults \<Longrightarrow> co_workflows (contents_of S) = workflow_map (sv_workflows S)"
  "cd_faults (sv_clients S) = no_faults \<Longrightarrow> co_clients (contents_of S) = (\<lambda>k. lookup_row cm_ClientID k (cd_rows (sv_clients S)))"
  "rd_faults (sv_runs S) = no_faults \<Longrightarrow> co_runs (contents_of S) = (\<lambda>k. lookup_row run_RunID k (rd_runs (sv_runs S)))"
  "sd_faults (sv_results S) = no_faults \<Longrightarrow> co_results (contents_of S)
     = (\<lambda>k. map_option rr_result (lookup_row result_key k (sd_rows (sv_results S))))"
  "hd_faults (sv_health S) = no_faults \<Longrightarrow> co_run_health (contents_of S) = (\<lambda>k. lookup_row rh_RunID k (hd_runs (sv_health S)))"
  "hd_faults (sv_health S) = no_faults \<Longrightarrow> co_type_health (contents_of S)
     = (\<lambda>k. lookup_row th_WorkflowType k (hd_types (sv_health S)))"
  "xd_faults (sv_circuits S) = no_faults \<Longrightarrow> co_breakers (contents_of S)
     = (\<lambda>k. lookup_row cb_WorkflowID k (xd_rows (sv_circuits S)))"
  by (simp_all add: contents_of_def found_lookups fun_eq_iff)

definition simulated :: "env \<Rightarrow> repo_write \<Rightarrow> server \<Rightarrow> bool" where
  "simulated E w S \<longleftrightarrow> (case write_to E w S of (err, S') \<Rightarrow> spec_write E w (contents_of S) = (err, contents_of S'))"

lemma contents_same:
  "wd_faults (sv_workflows S) = no_faults \<Longrightarrow> (contents_of S)\<lparr>co_workflows := workflow_map (sv_workflows S)\<rparr> = contents_of S"
  by (cases "contents_of S") (simp add: contents_fields(3) [symmetric])

lemma workflow_writes:
  assumes "wd_faults (sv_workflows S) = no_faults"
  shows "simulated E (WriteWorkflow w) S" and "simulated E (WriteWorkflowState k active reason) S"
    and "simulated E (RemoveWorkflow k) S"
proof -
  obtain res v db where s: "SaveWorkflow E w (sv_workflows S) = (res, v, db)" using prod_cases3 by blast
  have "res = Inr ()" "wd_faults db = no_faults"
    using assms s SaveWorkflow_faults [of E w "sv_workflows S"] by (auto simp: SaveWorkflow_def Let_def)
  then show "simulated E (WriteWorkflow w) S"
    using SaveWorkflow_map [OF assms, of E w] s
    by (simp add: simulated_def contents_updates(1) contents_fields(3) [OF assms])
  obtain res2 db2 where u: "UpdateWorkflowState E k active reason (sv_workflows S) = (res2, db2)" by fastforce
  note u' = UpdateWorkflowState_map [OF assms u]
  have left: "write_to E (WriteWorkflowState k active reason) S = (error_of res2, S\<lparr>sv_workflows := db2\<rparr>)" by (simp add: u)
  obtain res3 db3 where d: "DeleteWorkflow k (sv_workflows S) = (res3, db3)" by fastforce
  note d' = DeleteWorkflow_map [OF assms d]
  have right: "write_to E (RemoveWorkflow k) S = (error_of res3, S\<lparr>sv_workflows := db3\<rparr>)" by (simp add: d)
  have faults: "wd_faults db2 = no_faults" "wd_faults db3 = no_faults" using u' d' assms by simp_all
  show "simulated E (WriteWorkflowState k active reason) S" and "simulated E (RemoveWorkflow k) S"
  proof (atomize (full), cases "workflow_map (sv_workflows S) k")
    case None
    then have "workflow_map db2 = workflow_map (sv_workflows S)" "res2 = Inl ErrWorkflowNotFound"
      "workflow_map db3 = workflow_map (sv_workflows S)" "res3 = Inl ErrWorkflowNotFound"
      using u' d' by (simp_all add: fun_upd_idem)
    then show "simulated E (WriteWorkflowState k active reason) S \<and> simulated E (RemoveWorkflow k) S"
      unfolding simulated_def left right prod.case contents_updates(1) [OF faults(1)] contents_updates(1) [OF faults(2)]
      using contents_same [OF assms] None by (simp add: contents_fields(3) [OF assms])
  next
    case (Some w)
    then have "workflow_map db2 = (workflow_map (sv_workflows S))(k \<mapsto> workflow_state_row E active reason w)" "res2 = Inr ()"
      "workflow_map db3 = (workflow_map (sv_workflows S))(k := None)" "res3 = Inr ()"
      using u' d' by simp_all
    then show "simulated E (WriteWorkflowState k active reason) S \<and> simulated E (RemoveWorkflow k) S"
      unfolding simulated_def left right prod.case contents_updates(1) [OF faults(1)] contents_updates(1) [OF faults(2)]
      using Some by (simp add: contents_fields(3) [OF assms] workflow_state_row_def)
  qed
qed

lemma client_write:
  assumes "cd_faults (sv_clients S) = no_faults"
  shows "simulated E (WriteClient c) S"
proof -
  define db where "db = snd (SaveClient E c (sv_clients S))"
  have "SaveClient E c (sv_clients S) = (Inr (), db)" "cd_faults db = no_faults"
    using assms by (simp_all add: db_def SaveClient_def Let_def)
  moreover have "(\<lambda>k. lookup_row cm_ClientID k (cd_rows db))
      = (\<lambda>k. lookup_row cm_ClientID k (cd_rows (sv_clients S)))(cm_ClientID c \<mapsto> client_row E c)"
    by (rule ext) (simp add: db_def lookup_SaveClient [OF assms])
  ultimately show ?thesis
    by (simp add: simulated_def contents_updates(2) contents_fields(4) [OF assms] now_if_zero_client [symmetric])
qed

lemma insert_run_clients_error:
  "insert_run_clients k cs rows = Inl e \<Longrightarrow> e = unique_violation ''runs_clients.run_id, runs_clients.client_id''"
  by (induction cs arbitrary: rows) (auto split: if_splits)

lemma run_writes:
  assumes "rd_faults (sv_runs S) = no_faults" and "runs_ok (sv_runs S)"
  shows "simulated E (WriteNewRun r) S" and "simulated E (WriteRun r) S"
proof -
  let ?db = "sv_runs S"
  note co = contents_fields(2) [of S] contents_fields(5) [OF assms(1)]
  have known: "lookup_row run_RunID (run_RunID r) (rd_runs ?db) = None \<longleftrightarrow> run_RunID r \<notin> run_RunID ` set (rd_runs ?db)"
    by (rule lookup_row_None_iff)
  have same: "(contents_of S)\<lparr>co_runs := (\<lambda>k. lookup_row run_RunID k (rd_runs ?db)), co_participants := set (rd_clients ?db)\<rparr>
      = contents_of S"
    by (cases "contents_of S") (use co in simp)
  show "simulated E (WriteNewRun r) S"
  proof (cases "run_RunID r \<in> run_RunID ` set (rd_runs ?db)")
    case True
    then have "CreateRun r ?db = (Inl (unique_violation ''runs.run_id''), ?db)"
      using assms(1) by (simp add: CreateRun_def)
    then show ?thesis using True known co by (simp add: simulated_def)
  next
    case False
    then have new: "(run_RunID r, c) \<notin> set (rd_clients ?db)" for c using assms(2) by (auto simp: runs_ok_def)
    show ?thesis
    proof (cases "distinct (run_ParticipatingClients r)")
      case True
      define db where "db = ?db\<lparr>rd_runs := rd_runs ?db @ [r],
        rd_clients := rd_clients ?db @ map (Pair (run_RunID r)) (run_ParticipatingClients r)\<rparr>"
      have "CreateRun r ?db = (Inr (), db)" "rd_faults db = no_faults"
        using CreateRun_fresh [OF assms(1) False True new] assms(1) by (simp_all add: db_def)
      moreover have "(\<lambda>k. lookup_row run_RunID k (rd_runs db)) = (\<lambda>k. lookup_row run_RunID k (rd_runs ?db))(run_RunID r \<mapsto> r)"
        using False known by (auto simp: db_def fun_eq_iff lookup_row_append split: option.split)
      moreover have "set (rd_clients db) = set (rd_clients ?db) \<union> {run_RunID r} \<times> set (run_ParticipatingClients r)"
        by (auto simp: db_def)
      ultimately show ?thesis using False known co True by (simp add: simulated_def contents_updates(3))
    next
      case bad: False
      then obtain e where e: "insert_run_clients (run_RunID r) (run_ParticipatingClients r) (rd_clients ?db) = Inl e"
        using insert_run_clients_Inr [of "run_RunID r" "run_ParticipatingClients r" "rd_clients ?db"]
        by (cases "insert_run_clients (run_RunID r) (run_ParticipatingClients r) (rd_clients ?db)") auto
      then have "CreateRun r ?db = (Inl e, ?db)" using False assms(1) by (simp add: CreateRun_def)
      then show ?thesis using bad False known co insert_run_clients_error [OF e] by (simp add: simulated_def)
    qed
  qed
  define db where "db = snd (UpdateRun r ?db)"
  have u: "UpdateRun r ?db = (if run_RunID r \<in> run_RunID ` set (rd_runs ?db) then Inr () else Inl ErrRunNotFound, db)"
    "rd_faults db = no_faults" "rd_clients db = rd_clients ?db"
    using assms(1) by (simp_all add: db_def UpdateRun_def)
  have look: "(\<lambda>k. lookup_row run_RunID k (rd_runs db)) = (if run_RunID r \<in> run_RunID ` set (rd_runs ?db)
      then (\<lambda>k. lookup_row run_RunID k (rd_runs ?db))(run_RunID r \<mapsto> r) else (\<lambda>k. lookup_row run_RunID k (rd_runs ?db)))"
    using known by (auto simp: db_def lookup_UpdateRun [OF assms(1)] fun_eq_iff)
  show "simulated E (WriteRun r) S"
  proof (cases "run_RunID r \<in> run_RunID ` set (rd_runs ?db)")
    case True
    with known co u look same show ?thesis
      by (cases "contents_of S") (auto simp: simulated_def contents_updates(3))
  next
    case False
    with known co u look same show ?thesis by (simp add: simulated_def contents_updates(3))
  qed
qed

lemma insert_result_contents:
  assumes "sd_faults (sv_results S) = no_faults"
  shows "contents_of (S\<lparr>sv_results := (sv_results S)\<lparr>sd_rows := insert_result r t (sd_rows (sv_results S))\<rparr>\<rparr>)
    = first_result r (contents_of S)"
proof -
  let ?db = "sv_results S"
  note co = contents_fields(6) [OF assms]
  have look: "(\<lambda>k. map_option rr_result (lookup_row result_key k (insert_result r t (sd_rows ?db))))
      = (if lookup_row result_key (res_RunID r, res_ClientID r) (sd_rows ?db) = None
         then (\<lambda>k. map_option rr_result (lookup_row result_key k (sd_rows ?db)))((res_RunID r, res_ClientID r) \<mapsto> stored_result r)
         else (\<lambda>k. map_option rr_result (lookup_row result_key k (sd_rows ?db))))"
    by (auto simp: lookup_insert_result fun_eq_iff split: option.split)
  have same: "(contents_of S)\<lparr>co_results := co_results (contents_of S)\<rparr> = contents_of S"
    by (cases "contents_of S") simp
  show ?thesis
    using assms look same by (simp add: first_result_def contents_updates(4) co)
qed

lemma result_writes:
  assumes "sd_faults (sv_results S) = no_faults"
  shows "simulated E (WriteResult r) S" and "simulated E (WriteResultWithType r t) S"
  using assms insert_result_contents [OF assms, of r]
  by (simp_all add: simulated_def SaveResult_def SaveResultWithType_def)

lemma contents_same_field:
  "C\<lparr>co_run_health := f, co_type_health := co_type_health C\<rparr> = C\<lparr>co_run_health := f\<rparr>"
  "C\<lparr>co_run_health := co_run_health C, co_type_health := g\<rparr> = C\<lparr>co_type_health := g\<rparr>" for C :: contents
  by (cases C; simp)+

lemma health_writes:
  assumes "hd_faults (sv_health S) = no_faults"
  shows "simulated E (WriteRunHealth h) S" and "simulated E (WriteTypeHealth th) S"
proof -
  note co = contents_fields(7,8) [OF assms]
  define db where "db = snd (SaveRunHealth E h (sv_health S))"
  note a = SaveRunHealth_map [OF assms, of E h, folded db_def]
  have "hd_faults db = no_faults" using assms by (simp add: db_def SaveRunHealth_def Let_def)
  moreover have "SaveRunHealth E h (sv_health S) = (Inr (), db)" using a by (simp add: prod_eq_iff db_def)
  moreover have "(\<lambda>k. lookup_row rh_RunID k (hd_runs db)) = (\<lambda>k. lookup_row rh_RunID k (hd_runs (sv_health S)))
      (rh_RunID h \<mapsto> h\<lparr>rh_CalculatedAt := now_if_zero E (rh_CalculatedAt h)\<rparr>)"
    by (rule ext) (simp add: a)
  moreover have "hd_types db = hd_types (sv_health S)" using a by simp
  ultimately show "simulated E (WriteRunHealth h) S"
    by (simp add: simulated_def contents_updates(5) co(2) [symmetric] contents_same_field, simp add: co)
  define db' where "db' = snd (SaveWorkflowTypeHealth E th (sv_health S))"
  note b = SaveWorkflowTypeHealth_map [OF assms, of E th, folded db'_def]
  have "hd_faults db' = no_faults" using assms by (simp add: db'_def SaveWorkflowTypeHealth_def Let_def)
  moreover have "SaveWorkflowTypeHealth E th (sv_health S) = (Inr (), db')" using b by (simp add: prod_eq_iff db'_def)
  moreover have "(\<lambda>k. lookup_row th_WorkflowType k (hd_types db')) = (\<lambda>k. lookup_row th_WorkflowType k (hd_types (sv_health S)))
      (th_WorkflowType th \<mapsto> th\<lparr>th_CalculatedAt := now_if_zero E (th_CalculatedAt th)\<rparr>)"
    by (rule ext) (simp add: b)
  moreover have "hd_runs db' = hd_runs (sv_health S)" using b by simp
  ultimately show "simulated E (WriteTypeHealth th) S"
    by (simp add: simulated_def contents_updates(5) co(1) [symmetric] contents_same_field, simp add: co)
qed

lemma breaker_write:
  assumes "xd_faults (sv_circuits S) = no_faults"
  shows "simulated E (WriteBreaker b) S"
proof -
  define db where "db = snd (SaveCircuitState E b (sv_circuits S))"
  have "SaveCircuitState E b (sv_circuits S) = (Inr (), db)" "xd_faults db = no_faults"
    using assms by (simp_all add: db_def SaveCircuitState_eq)
  moreover have "(\<lambda>k. lookup_row cb_WorkflowID k (xd_rows db))
      = (\<lambda>k. lookup_row cb_WorkflowID k (xd_rows (sv_circuits S)))(cb_WorkflowID b \<mapsto> stamped E b)"
    by (rule ext) (simp add: db_def lookup_SaveCircuitState [OF assms])
  ultimately show ?thesis
    by (simp add: simulated_def contents_updates(6) contents_fields(9) [OF assms] now_if_zero_breaker [symmetric])
qed

lemma ban_writes:
  assumes "bd_faults (en_bans (sv_enf S)) = no_faults"
  shows "simulated E (WriteBan b) S" and "simulated E (LiftBans c t) S"
proof -
  let ?db = "en_bans (sv_enf S)"
  have stamp: "(if IsZero (ban_BannedAt b) then b\<lparr>ban_BannedAt := env_now E\<rparr> else b)
      = b\<lparr>ban_BannedAt := now_if_zero E (ban_BannedAt b)\<rparr>"
    by (cases b) (simp add: now_if_zero_def IsZero_def)
  obtain row db where s: "SaveBan E b ?db = (Inr row, db)"
    "bd_rows db = bd_rows ?db @ [b\<lparr>ban_BannedAt := now_if_zero E (ban_BannedAt b), ban_ID := bd_next ?db\<rparr>]"
    using assms by (simp add: SaveBan_def stamp Let_def)
  have "b\<lparr>ban_BannedAt := now_if_zero E (ban_BannedAt b), ban_ID := bd_next ?db\<rparr>\<lparr>ban_ID := 0\<rparr>
      = b\<lparr>ban_ID := 0, ban_BannedAt := now_if_zero E (ban_BannedAt b)\<rparr>"
    by (cases b) simp
  with s show "simulated E (WriteBan b) S"
    by (simp add: simulated_def contents_updates(7) contents_fields(1))
  define hit where "hit b \<longleftrightarrow> ban_ClientID b = c \<and> ban_WorkflowType b = t \<and> ban_Active b" for b :: ban_record
  define db' where "db' = ?db\<lparr>bd_rows := map (\<lambda>b. if hit b then b\<lparr>ban_Active := False\<rparr> else b) (bd_rows ?db)\<rparr>"
  have u: "Repo_UnbanClient c t ?db = (if filter hit (bd_rows ?db) = [] then Inl ErrBanNotFound else Inr (), db')"
    using assms by (simp add: Repo_UnbanClient_def Let_def db'_def hit_def [abs_def])
  have one: "(if hit b then b\<lparr>ban_Active := False\<rparr> else b)\<lparr>ban_ID := 0\<rparr> = lifted c t (b\<lparr>ban_ID := 0\<rparr>)" for b
    by (cases b) (auto simp: hit_def lifted_def)
  have bans: "image_mset (\<lambda>b. b\<lparr>ban_ID := 0\<rparr>) (mset (bd_rows db')) = image_mset (lifted c t) (co_bans (contents_of S))"
    by (simp add: db'_def contents_fields(1) image_mset.compositionality comp_def one del: image_mset_const_eq)
  have some: "(\<exists>b \<in># co_bans (contents_of S). ban_ClientID b = c \<and> ban_WorkflowType b = t \<and> ban_Active b)
      \<longleftrightarrow> filter hit (bd_rows ?db) \<noteq> []"
    by (auto simp: contents_fields(1) filter_empty_conv hit_def)
  show "simulated E (LiftBans c t) S"
  proof (cases "filter hit (bd_rows ?db) = []")
    case True
    then have "map (\<lambda>b. if hit b then b\<lparr>ban_Active := False\<rparr> else b) (bd_rows ?db) = bd_rows ?db"
      by (intro map_idI) (auto simp: filter_empty_conv)
    then have "S\<lparr>sv_enf := (sv_enf S)\<lparr>en_bans := db'\<rparr>\<rparr> = S" by (simp add: db'_def)
    with True u some show ?thesis by (simp add: simulated_def)
  next
    case False
    with u some bans show ?thesis by (simp add: simulated_def contents_updates(7))
  qed
qed

text \<open>What a write keeps beside the contents: one row per key, no faults, the cache and the messages.\<close>

definition stores_ready :: "server \<Rightarrow> bool" where
  "stores_ready S \<longleftrightarrow> healthy_server S \<and> tables_ok S"

lemma write_keeps:
  assumes "stores_ready S" and "write_to E w S = (err, S')"
  shows "stores_ready S' \<and> sv_outbox S' = sv_outbox S \<and> en_blocker (sv_enf S') = en_blocker (sv_enf S)
    \<and> en_alerts (sv_enf S') = en_alerts (sv_enf S)"
proof -
  note ok = assms(1) [unfolded stores_ready_def healthy_server_def tables_ok_def]
  note simps = stores_ready_def healthy_server_def tables_ok_def
  show ?thesis
  proof (cases w)
    case (WriteWorkflow v)
    obtain res v' db where s: "SaveWorkflow E v (sv_workflows S) = (res, v', db)" using prod_cases3 by blast
    have "workflows_ready (snd (snd (SaveWorkflow E v (sv_workflows S))))"
      by (rule SaveWorkflow_ready) (use ok in \<open>simp add: workflows_ready_def\<close>)
    with assms(2) ok WriteWorkflow s show ?thesis by (auto simp: simps workflows_ready_def)
  next
    case (WriteWorkflowState k active reason)
    obtain res db where u: "UpdateWorkflowState E k active reason (sv_workflows S) = (res, db)" by fastforce
    from UpdateWorkflowState_map [OF _ u] ok have "wd_faults db = no_faults" "map wf_ID (wd_rows db) = map wf_ID (wd_rows (sv_workflows S))"
      by simp_all
    with assms(2) ok WriteWorkflowState u show ?thesis by (auto simp: simps)
  next
    case (RemoveWorkflow k)
    obtain res db where d: "DeleteWorkflow k (sv_workflows S) = (res, db)" by fastforce
    from DeleteWorkflow_map [OF _ d] ok have "wd_faults db = no_faults" "distinct (map wf_ID (wd_rows db))" by simp_all
    with assms(2) ok RemoveWorkflow d show ?thesis by (auto simp: simps)
  next
    case (WriteClient c)
    obtain res db where s: "SaveClient E c (sv_clients S) = (res, db)" by fastforce
    with assms(2) ok WriteClient SaveClient_distinct [of "sv_clients S" E c] SaveClient_faults [of E c "sv_clients S"]
    show ?thesis by (auto simp: simps)
  next
    case (WriteNewRun r)
    with assms(2) ok CreateRun_ok [of r "sv_runs S"] show ?thesis
      by (auto simp: simps CreateRun_def split: prod.splits sum.splits if_splits)
  next
    case (WriteRun r)
    with assms(2) ok UpdateRun_ok [of "sv_runs S" r] show ?thesis
      by (auto simp: simps UpdateRun_def split: prod.splits if_splits)
  next
    case (WriteResult r)
    with assms(2) ok distinct_insert_result [of "sd_rows (sv_results S)" r "[]"] show ?thesis
      by (auto simp: simps SaveResult_def)
  next
    case (WriteResultWithType r t)
    with assms(2) ok distinct_insert_result [of "sd_rows (sv_results S)" r t] show ?thesis
      by (auto simp: simps SaveResultWithType_def)
  next
    case (WriteRunHealth h)
    with assms(2) ok show ?thesis by (auto simp: simps SaveRunHealth_def Let_def)
  next
    case (WriteTypeHealth h)
    with assms(2) ok show ?thesis by (auto simp: simps SaveWorkflowTypeHealth_def Let_def)
  next
    case (WriteBreaker b)
    obtain res db where s: "SaveCircuitState E b (sv_circuits S) = (res, db)" by fastforce
    have "circuits_ready (snd (SaveCircuitState E b (sv_circuits S)))"
      by (rule SaveCircuitState_ready) (use ok in \<open>simp add: circuits_ready_def\<close>)
    with assms(2) ok WriteBreaker s show ?thesis by (auto simp: simps circuits_ready_def)
  next
    case (WriteBan b)
    with assms(2) ok show ?thesis by (auto simp: simps SaveBan_def Let_def)
  next
    case (LiftBans c t)
    with assms(2) ok show ?thesis by (auto simp: simps Repo_UnbanClient_def Let_def)
  qed
qed

lemma write_refines: "stores_ready S \<Longrightarrow> simulated E w S"
  by (cases w) (simp_all add: stores_ready_def healthy_server_def tables_ok_def workflow_writes client_write run_writes
      result_writes health_writes breaker_write ban_writes)

section \<open>Sequences\<close>

fun run_writes_on ::
  "(env \<Rightarrow> repo_write \<Rightarrow> 's \<Rightarrow> go_error option \<times> 's) \<Rightarrow> (env \<times> repo_write) list \<Rightarrow> 's \<Rightarrow> go_error option list \<times> 's" where
  "run_writes_on step [] s = ([], s)"
| "run_writes_on step ((E, w) # ws) s =
     (case step E w s of (err, s) \<Rightarrow> (case run_writes_on step ws s of (errs, s) \<Rightarrow> (err # errs, s)))"

section \<open>Properties\<close>

text \<open>C25. The repositories refine maps. On a database that answers and whose tables have one row per key, any
  sequence of writes, of every repository and in any order, answers the same errors and leaves the same
  contents, as the \<open>Get\<close> operations show them, as the same writes on maps: saving a workflow, a client, a
  run, a breaker or a health record replaces what is under its key and nothing else, with times that are
  zero taken from the clock and maps as JSON has them; a run is created once, with its participants, or
  not at all; only a known run or workflow is updated, and a workflow that is removed is gone; the first
  result of a client for a run stays; a ban is added, and lifting bans ends those of the client and type
  alone. Nothing else of the server changes, and the tables keep one row per key.\<close>

theorem repositories_refine_maps:
  assumes "healthy_server S" and "tables_ok S" and "run_writes_on write_to ws S = (errs, S')"
  shows "run_writes_on spec_write ws (contents_of S) = (errs, contents_of S')
    \<and> healthy_server S' \<and> tables_ok S' \<and> sv_outbox S' = sv_outbox S
    \<and> en_blocker (sv_enf S') = en_blocker (sv_enf S) \<and> en_alerts (sv_enf S') = en_alerts (sv_enf S)"
proof -
  have "stores_ready S \<Longrightarrow> run_writes_on write_to ws S = (errs, S') \<Longrightarrow>
      run_writes_on spec_write ws (contents_of S) = (errs, contents_of S') \<and> stores_ready S' \<and> sv_outbox S' = sv_outbox S
      \<and> en_blocker (sv_enf S') = en_blocker (sv_enf S) \<and> en_alerts (sv_enf S') = en_alerts (sv_enf S)" for S errs
  proof (induction ws arbitrary: S errs)
    case (Cons x ws)
    obtain E w where x: "x = (E, w)" by fastforce
    obtain err S1 where one: "write_to E w S = (err, S1)" by fastforce
    obtain rest where rest: "run_writes_on write_to ws S1 = (rest, S')" "errs = err # rest"
      using Cons.prems(2) by (auto simp: x one split: prod.splits)
    note kept = write_keeps [OF Cons.prems(1) one]
    have "spec_write E w (contents_of S) = (err, contents_of S1)"
      using write_refines [OF Cons.prems(1), of E w] by (simp add: simulated_def one)
    with Cons.IH [OF _ rest(1)] kept rest(2) show ?case by (simp add: x)
  qed simp
  from this [of S errs] assms show ?thesis by (simp add: stores_ready_def)
qed

theorem repositories_refine_maps_witness:
  "fst (run_writes_on write_to [(sample_env, WriteNewRun sample_run), (sample_env, WriteNewRun sample_run),
      (sample_env, WriteRun (sample_run\<lparr>run_RunID := ''r9''\<rparr>))] empty_server)
    = [None, Some (unique_violation ''runs.run_id''), Some ErrRunNotFound]"
proof -
  obtain errs S' where run: "run_writes_on write_to [(sample_env, WriteNewRun sample_run), (sample_env, WriteNewRun sample_run),
      (sample_env, WriteRun (sample_run\<lparr>run_RunID := ''r9''\<rparr>))] empty_server = (errs, S')" by fastforce
  have "co_runs (contents_of empty_server) = Map.empty"
    by (simp add: contents_of_def empty_server_def GetRun_def fun_eq_iff)
  moreover have "run_RunID sample_run = ''r1''" "distinct (run_ParticipatingClients sample_run)"
    by (simp_all add: sample_run_def)
  ultimately have "errs = [None, Some (unique_violation ''runs.run_id''), Some ErrRunNotFound]"
    using repositories_refine_maps [OF empty_server_ok run, THEN conjunct1] by (simp del: write_to.simps)
  then show ?thesis by (simp only: run fst_conv)
qed

end
