(* ===== verification/Spec2Isabelle.thy ===== *)
theory Spec2Isabelle
  imports Lifecycle Queries Stores
begin

text \<open>
  \<^bold>\<open>What the program is.\<close> Two programs that talk over NATS. The \<^emph>\<open>server\<close> (\<open>cmd/main.go\<close>) keeps
  workflows, clients, runs, results, health, bans and circuit breakers in SQLite, sends one activity
  to every client a workflow selects, follows the results, bans clients that repeat an activity too
  fast and switches workflows off when their success rate falls. The \<^emph>\<open>super-client\<close>
  (\<open>cmd/super-client\<close>, \<open>internal/app\<close>) simulates a pool of devices: it executes the activities it
  receives, with injected chaos, and publishes the results. All paths below are under \<open>src/\<close>.

  \<^bold>\<open>Which theory models what.\<close> Definitions keep the names of the code; a function whose name clashes has
  the type or layer in front (\<open>Repo_UnbanClient\<close>, \<open>Orch_GetWorkflow\<close>, \<open>Api_GetRun\<close>).

  Language and library. \<open>Prelude\<close>: Go errors with \<open>errors.Is\<close> and \<open>errors.As\<close>, times and durations,
  the environment of a call. \<open>Float64\<close>: binary64 with its rounding. \<open>Go_Values\<close>: \<open>interface{}\<close> values,
  \<open>strconv\<close>, \<open>fmt\<close>, \<open>strings\<close>. \<open>Tables\<close>: the contract \<open>keyed_table\<close> of a store and the JSON columns.

  Domain and repositories. \<open>Alerts\<close>; \<open>Bans\<close> (\<open>domain/ban.go\<close>, \<open>ban_repo.go\<close>); \<open>Clients\<close> (\<open>client.go\<close>,
  \<open>client_repo.go\<close>); \<open>Workflows\<close> (\<open>workflow.go\<close>, \<open>workflow_repo.go\<close>, \<open>workflow_state_manager.go\<close>); \<open>Runs\<close>
  (\<open>run.go\<close>, \<open>result.go\<close> and their repositories); \<open>Health\<close> and \<open>Circuit\<close> (\<open>health.go\<close>, \<open>circuit.go\<close>, their
  repositories, \<open>config_repos.go\<close>); \<open>Client_Filter\<close>, \<open>Filter_Parser\<close>, \<open>Filter_Language\<close> (\<open>filter.go\<close>,
  \<open>filter_parser.go\<close>, \<open>dynamic_grouping.go\<close>); \<open>Api_Types\<close> (\<open>api.go\<close>).

  Services of the server. \<open>Ban_Enforcement\<close> (the cache, \<open>ban_enforcement.go\<close>, \<open>dispatch_filter.go\<close>);
  \<open>Server_State\<close> (what the services share: tables, alerts, the outgoing connection, the event bus, both
  dispatchers); \<open>Circuit_Breaker\<close>; \<open>Result_Handling\<close> (\<open>client_registration.go\<close>, \<open>loop_detection.go\<close>,
  \<open>health_monitoring.go\<close>, \<open>result_dispatcher.go\<close>); \<open>Result_Pipeline\<close> (the handlers as \<open>main\<close> wires them);
  \<open>Orchestration\<close> (\<open>workflow_orchestration.go\<close>, \<open>dispatch_coordination.go\<close>); \<open>Triggers\<close>
  (\<open>cron_evaluator.go\<close>, \<open>trigger_coordination.go\<close>); \<open>Api\<close> (\<open>api_handler.go\<close>, the handlers of
  \<open>http/server.go\<close>); \<open>Server\<close> (the server as a transition system).

  The super-client and both together. \<open>Inner_Client\<close> and \<open>Chaos\<close> (a device and its executors);
  \<open>Super_Client\<close> (store, dispatch handler, collector, pool, broker); \<open>Wire\<close> (the JSON the programs
  exchange and the three subscriptions); \<open>Config\<close> (environment variables, wiring, the two \<open>main\<close>
  functions). This theory holds what spans the programs.

  The edges. \<open>Queries\<close> and \<open>Stores\<close> (what the queries and the writes of all repositories promise:
  specifications over the multiset of the rows and over finite maps); \<open>Rows\<close> (the columns of
  \<open>schema.sql\<close>: what every \<open>INSERT\<close> binds, what every scan function reads); \<open>Requests\<close> (the routes of
  \<open>NewRouter\<close>, bodies and query values decoded into the types of \<open>api.go\<close>); \<open>Lifecycle\<close> (\<open>sqlite.go\<close>,
  \<open>registry.go\<close>, \<open>cmd/main.go\<close> from its goroutines to its exit as a step relation, the clocks).

  \<^bold>\<open>How the pieces interact.\<close> A trigger (\<open>TriggerWorkflow\<close>, from HTTP, the cron tick or a completion
  event) resolves the filter, creates a run, drops banned clients and sends dispatches; publishing the
  completion event may trigger further workflows before it returns (\<open>chain_trigger\<close>). A result goes
  through registration, loop detection (which may ban) and health monitoring, in this order; the health
  event drives the circuit breakers, which switch workflows. The periodic ticks aggregate health and
  evaluate the breakers. \<open>server_step\<close> is one such operation, and \<open>server_reachable\<close> the states any
  sequence of them leads to, restarts included. \<open>program_step\<close> puts the router in front of it, the
  goroutines that carry the steps around it, and \<open>main_next\<close>, the way of \<open>main\<close> from the signal to its end,
  between them, with the contexts \<open>main\<close> cancels on that way.

  \<^bold>\<open>How state and effects are modelled.\<close>
  \<^item> A table is a record of its rows, in insertion order, with \<open>faults\<close>: which statements fail
    (\<open>no_faults\<close> is a healthy database). Queries are list functions with the code's \<open>WHERE\<close>, \<open>ORDER BY\<close> and
    \<open>LIMIT\<close>; the unique keys and \<open>ON CONFLICT\<close> clauses of the schema are in the operations.
  \<^item> A method that returns an error yields \<open>Inl\<close> or an optional error next to the state it leaves; a
    panic is a value of \<open>outcome\<close>. A nil pointer is \<open>None\<close>.
  \<^item> A call gets the instant and the fresh identifiers it draws from an \<open>env\<close>; \<open>time.Time\<close> is an integer
    number of nanoseconds with 0 for the zero time, and \<open>time.Duration\<close>, \<open>int\<close> and \<open>int64\<close> are 64-bit
    words that wrap. Floating point is binary64; strings are lists of code points below 256.
  \<^item> A Go map that is ranged over has its order as an argument or as an association list; a theorem
    about it holds for every order. The random source of chaos is an argument, with the documented range
    of \<open>Intn\<close> as the hypothesis \<open>source_ok\<close>.
  \<^item> NATS, the cron library, RFC 3339 times, JSON bytes and the outcome of opening a database or listening
    are arguments: a connection is the list of what was sent and, per call, the error it meets.
  \<^item> The operations of a service run one after the other, in any order of requests, results, ticks and
    registrations. Where the code holds a mutex it guarantees this; across the table write and the cache
    update of \<open>BanClient\<close> and \<open>UnbanClient\<close> it holds none, and their atomicity is an abstraction.

  \<^bold>\<open>What the properties show\<close> (the numbers are those of the theorems). The whole server stays
  consistent and answers (C1); its shutdown waits for the triggers, can always be completed, and
  leaves only what C4 names running; errors change nothing (C19), messages keep it consistent (C15)
  and drive health and breakers (C2). Every request of the interface can be made over HTTP and
  arrives as meant (C18), and exactly the malformed bodies are refused (C20). Results travel from a
  device to the tables (C3) while dispatches do not arrive, because the two programs disagree about
  their format (C7). Triggering sends to none but the allowed clients whatever fails, and to all of
  them when nothing does (C5); chains of triggers end when the workflows are ranked and never return
  when they form a cycle (C16, C17). Bans refine an abstract set and the cache never disagrees with
  the table (C6, C21, C28). The pool answers every dispatch once, loses no result and isolates
  devices (C8, C9, C29); devices change exactly as an activity says (C35) and chaos is safe (C34,
  C36). Loops are detected exactly (C10), health is counted per first reply and a banned reply twice
  (C26, C27, C37, C38), breakers follow their threshold (C11, C39). The filter language parses,
  prints, evaluates and selects as it means to (C12 to C14, C32, C33). Tables refine finite maps and
  keep what is stored (C22, C25, C30, C31), every list query answers the rows it asks for (C23), and
  the columns of the database read back what was bound (C24). Durations are positive up to a bound
  (C40). A hypothesis of a theorem is met by its witness on concrete values.

  \<^bold>\<open>Interfaces\<close> are locales with interpretations on the model: \<open>keyed_table\<close> (every store), \<open>open_enum\<close>
  (every string type with constants), \<open>row_codec\<close> (the columns of every table), \<open>ban_registry\<close> (cache,
  table, service), \<open>activity_executor\<close>, \<open>ranged_source\<close> and \<open>usable_executor\<close> (both executors),
  \<open>message_dispatcher\<close> (both dispatchers), \<open>result_processing\<close> (the server's handlers).

  \<^bold>\<open>Bounds and fuel.\<close> The parser gets \<open>parser_fuel\<close>, six times the number of tokens and six more: every
  level of the grammar takes one and every repetition consumes a token; C14 shows that it never runs out
  and that more fuel changes nothing. \<open>shortest_digits\<close> gets 17, the number of significant digits that
  always identify a binary64 number. \<open>chain_trigger\<close> counts nested triggers: C16 bounds them by a rank,
  C17 shows that no number is enough on a cycle, and C1 that the HTTP interface cannot build one: the
  trigger of a workflow is fixed when it is created, under an identifier no earlier request could name.
  Everything else is structural recursion.

  \<^bold>\<open>Not modelled.\<close> Code of libraries: how chi matches a path (an argument with its documented
  promises), its request-id and recovery middleware, the SQL driver, the broker, the HTTP listener.
  The port interfaces (\<open>core/ports\<close>) have no code; their contracts are the locales. Answers of chi
  itself (404 and 405). Log output; real time, so that a tick says what it does and when it may
  happen at all; data races (the services' operations are atomic). A database statement fails
  through \<open>faults\<close> only, never halfway, except where the code uses a transaction; a method fails for
  the whole of an operation, also when its context is cancelled in the middle. In the program
  relation a trigger that never returns (C17) is no step. Ids of clients are free of NATS wildcards,
  and no threshold stored is NaN. The web interface, migrations and the tests. Text beyond Latin-1
  and the exact wording of \<open>strconv\<close> and \<open>encoding/json\<close> errors are left out.
\<close>

section \<open>Across the two programs\<close>

text \<open>C3. From a device to the tables: in any run of the pool with the chaos executor, whatever
  the generator draws, the connection does and the messages are, every result the pool publishes is
  read back by the server. Processed in any consistent state it leaves the server consistent, its
  status, message, state and payload are stored under its run and client unless that pair has a
  result already, and the client is known and active with the state of the device.\<close>

theorem device_results_reach_the_server:
  assumes "all_usable P" and "run_loop (ChaosExecutor_Execute iter src StandardExecutor_Execute) es P = (out, P')"
    and "m \<in> set (published (pl_broker P'))" and "server_inv S" and "env_now E \<noteq> 0"
    and "S' = process_message cfg (ParseResult parse_time) (E, Some (result_doc m)) S"
  shows "server_inv S'
    \<and> GetResult (rm_RunID m) (rm_ClientID m) (sv_results S') = Inr (case GetResult (rm_RunID m) (rm_ClientID m)
        (sv_results S) of Inr x \<Rightarrow> x | Inl _ \<Rightarrow> arrived_result E m)
    \<and> GetClientByID (rm_ClientID m) (sv_clients S') = Inr \<lparr>cm_ClientID = rm_ClientID m, cm_OS = ''ubuntu'',
        cm_Labels = [], cm_InnerState = res_InnerState (arrived_result E m), cm_Active = True,
        cm_LastSeenAt = env_now E\<rparr>"
proof -
  note parsed = pool_results_arrive_valid [OF assms(1-3), of parse_time E]
  have named: "res_RunID (arrived_result E m) = rm_RunID m" "res_ClientID (arrived_result E m) = rm_ClientID m"
    "res_ReceivedAt (arrived_result E m) = env_now E" by (simp_all add: arrived_result_def)
  have "server_inv S'" unfolding assms(6) by (rule process_message_inv) (rule assms(4))
  with process_message_valid [of S "ParseResult parse_time" E "Some (result_doc m)" "arrived_result E m" S' cfg]
    assms(4-6) parsed
  show ?thesis by (simp add: named stored_arrived arrived_state_column cong del: sum.case_cong_weak)
qed

theorem device_results_reach_the_server_witness:
  "\<exists>m S'. server_inv S' \<and> rm_RunID m = ''r1''
    \<and> GetResult ''r1'' ''c1'' (sv_results S') = Inr (arrived_result sample_env m)"
proof -
  let ?exec = "ChaosExecutor_Execute (\<lambda>_. []) replay StandardExecutor_Execute"
  obtain out P' where run: "run_loop ?exec [Dispatched sample_dispatch] sample_pool = (out, P')" by fastforce
  then obtain ms where ms: "loop_effect [sample_dispatch] sample_pool P' ms"
    using run_loop_chaos [OF replay_ok, of "\<lambda>_. []" "[sample_dispatch]" "[]" sample_pool out P'] by auto
  have empty: "bk_sent (pl_broker sample_pool) = []" by (simp add: sample_pool_def empty_pool_def)
  have "list_all2 answers ms [sample_dispatch]" "bk_sent (pl_broker P') = map result_wire ms"
    using ms empty sample_pool_ok sample_answerable by (simp_all add: loop_effect_def)
  then obtain m where m: "answers m sample_dispatch" "published (pl_broker P') = [m]"
    by (auto simp: list_all2_Cons2 published_def result_wire_def)
  then have named: "rm_RunID m = ''r1''" "rm_ClientID m = ''c1''" by (simp_all add: answers_def sample_dispatch_def)
  have "all_usable sample_pool" using empty sample_pool_ok by (simp add: all_usable_def published_def)
  moreover have "server_inv empty_server" using empty_server_inv by (simp add: server_ok_def)
  moreover have "env_now sample_env \<noteq> 0" by (simp add: sample_env_def)
  moreover have "GetResult ''r1'' ''c1'' (sv_results empty_server) = Inl (ErrMsg ''result not found'')"
    by (simp add: GetResult_def empty_server_def)
  ultimately show ?thesis
    using device_results_reach_the_server [OF _ run, of m empty_server sample_env _ undefined "\<lambda>_. None", OF _ _ _ _ refl] m named
    by auto
qed

end
